(* ===== verification/GoPrelude.thy ===== *)
theory GoPrelude
  imports Main "HOL-Library.AList" "HOL-Library.Char_ord" "HOL-Library.List_Lexorder"
    "HOL-Library.Word" "HOL-Library.Sublist" "HOL-Library.Multiset"
begin

text \<open>
  The part of the Go language and of its standard library that the load balancer provider uses,
  and the automation the component theories share:
  \<^item> slices, where \<open>nil\<close> and the empty slice are different values (\<open>reflect.DeepEqual\<close>
    tells them apart, \<open>len\<close> and \<open>range\<close> do not);
  \<^item> maps as association lists whose order is the order in which a \<open>range\<close> loop of the run
    visits the keys (Go leaves it open, so the theorems hold for every order);
  \<^item> sequences of statements that may return an error or panic and keep their state changes;
  \<^item> package \<open>strings\<close> (\<open>HasPrefix\<close>, \<open>Index\<close>, \<open>Split\<close>, \<open>Join\<close>, \<open>Replace\<close>, \<open>ToLower\<close>,
    \<open>EqualFold\<close>, \<open>TrimSpace\<close>) and \<open>strconv\<close> (\<open>Itoa\<close>, \<open>Atoi\<close>) on byte strings.
\<close>

named_theorems go_simps \<open>equations that evaluate the Go layer\<close>
named_theorems go_split \<open>case splits of the Go layer\<close>

section \<open>Slices and pointers\<close>

text \<open>A slice that may be nil: \<open>None\<close> is \<open>nil\<close>. A pointer to a value is an option too.\<close>

type_synonym 'a slice = "'a list option"

definition elems :: "'a slice \<Rightarrow> 'a list" where
  "elems s = (case s of None \<Rightarrow> [] | Some xs \<Rightarrow> xs)"

definition slice_append :: "'a slice \<Rightarrow> 'a \<Rightarrow> 'a slice" where
  "slice_append s x = Some (elems s @ [x])"

text \<open>What a slice field with the JSON tag \<open>omitempty\<close> is after an encode and a decode.\<close>

definition json_omitempty :: "'a slice \<Rightarrow> 'a slice" where
  "json_omitempty s = (if elems s = [] then None else s)"

lemma elems_simps [simp, go_simps]:
  "elems None = []" "elems (Some xs) = xs"
  by (simp_all add: elems_def)

lemma elems_slice_append [simp, go_simps]: "elems (slice_append s x) = elems s @ [x]"
  by (simp add: slice_append_def)

lemma slice_append_not_nil [simp]: "slice_append s x \<noteq> None"
  by (simp add: slice_append_def)

lemma json_omitempty_elems [simp]: "elems (json_omitempty s) = elems s"
  by (simp add: json_omitempty_def)

lemma json_omitempty_id: "elems s \<noteq> [] \<Longrightarrow> json_omitempty s = s"
  by (simp add: json_omitempty_def)

section \<open>Maps\<close>

type_synonym gomap = "(string \<times> string) list"

text \<open>\<open>reflect.DeepEqual\<close> on two maps that are both not nil: the same keys with the same values.\<close>

definition gm_equal :: "('k \<times> 'v) list \<Rightarrow> ('k \<times> 'v) list \<Rightarrow> bool" where
  "gm_equal m1 m2 = list_all (\<lambda>k. map_of m1 k = map_of m2 k) (map fst m1 @ map fst m2)"

text \<open>On maps that may be nil: a nil map equals only a nil map.\<close>

fun gm_deep_equal :: "('k \<times> 'v) list option \<Rightarrow> ('k \<times> 'v) list option \<Rightarrow> bool" where
  "gm_deep_equal None None = True"
| "gm_deep_equal (Some m1) (Some m2) = gm_equal m1 m2"
| "gm_deep_equal _ _ = False"

lemma map_of_eq_None: "k \<notin> set (map fst m) \<Longrightarrow> map_of m k = None"
  by (simp add: map_of_eq_None_iff)

lemma gm_equal_iff: "gm_equal m1 m2 \<longleftrightarrow> map_of m1 = map_of m2"
proof
  assume eq: "gm_equal m1 m2"
  show "map_of m1 = map_of m2"
  proof
    fix k
    show "map_of m1 k = map_of m2 k"
    proof (cases "k \<in> set (map fst m1 @ map fst m2)")
      case True
      with eq show ?thesis by (auto simp: gm_equal_def list_all_iff)
    next
      case False
      then show ?thesis by (simp add: map_of_eq_None)
    qed
  qed
next
  assume "map_of m1 = map_of m2"
  then show "gm_equal m1 m2" by (simp add: gm_equal_def list_all_iff)
qed

lemma gm_equal_refl [simp]: "gm_equal m m"
  by (simp add: gm_equal_iff)

lemma gm_deep_equal_refl [simp]: "gm_deep_equal m m"
  by (cases m) simp_all

lemma distinct_fst_delete: "distinct (map fst m) \<Longrightarrow> distinct (map fst (AList.delete k m))"
  by (rule distinct_delete)

lemma set_fst_delete [simp]: "fst ` set (AList.delete k m) = fst ` set m - {k}"
  by (auto simp: AList.delete_eq)

section \<open>Statements that may fail\<close>

text \<open>
  A Go function with effects maps the state before to its result and the state after; \<open>Inl\<close> is
  an error it returned (or a panic), and what it wrote before stays written. \<open>seqE\<close> is
  \<open>v, err := m(); if err != nil { return err }; k(v)\<close>.
\<close>

type_synonym ('s, 'e, 'a) prog = "'s \<Rightarrow> ('e + 'a) \<times> 's"

definition retE :: "'a \<Rightarrow> ('s, 'e, 'a) prog" where
  "retE x s = (Inr x, s)"

definition throwE :: "'e \<Rightarrow> ('s, 'e, 'a) prog" where
  "throwE e s = (Inl e, s)"

definition seqE :: "('s, 'e, 'a) prog \<Rightarrow> ('a \<Rightarrow> ('s, 'e, 'b) prog) \<Rightarrow> ('s, 'e, 'b) prog" where
  "seqE m k s = (case m s of (Inl e, s') \<Rightarrow> (Inl e, s') | (Inr x, s') \<Rightarrow> k x s')"

text \<open>A loop over a list whose body may return an error, which ends the loop.\<close>

fun forE :: "'x list \<Rightarrow> ('x \<Rightarrow> ('s, 'e, unit) prog) \<Rightarrow> ('s, 'e, unit) prog" where
  "forE [] body = retE ()"
| "forE (x # xs) body = seqE (body x) (\<lambda>_. forE xs body)"

lemma retE_apply [simp, go_simps]: "retE x s = (Inr x, s)"
  by (simp add: retE_def)

lemma throwE_apply [simp, go_simps]: "throwE e s = (Inl e, s)"
  by (simp add: throwE_def)

lemma seqE_ret [simp, go_simps]: "seqE (retE x) k = k x" "seqE (Pair (Inr x)) k = k x"
  by (simp_all add: seqE_def fun_eq_iff)

lemma seqE_throw [simp, go_simps]: "seqE (throwE e) k = throwE e" "seqE (Pair (Inl e)) k = throwE e"
  by (simp_all add: seqE_def fun_eq_iff)

lemma seqE_Inr: "m s = (Inr x, s') \<Longrightarrow> seqE m k s = k x s'"
  by (simp add: seqE_def)

lemma seqE_Inl: "m s = (Inl e, s') \<Longrightarrow> seqE m k s = (Inl e, s')"
  by (simp add: seqE_def)

lemma seqE_InrE:
  assumes "seqE m k s = (Inr y, s'')"
  obtains x s' where "m s = (Inr x, s')" "k x s' = (Inr y, s'')"
  using assms by (auto simp: seqE_def split: prod.splits sum.splits)

lemma seqE_assoc: "seqE (seqE m k) h = seqE m (\<lambda>x. seqE (k x) h)"
  by (auto simp: seqE_def fun_eq_iff split: prod.splits sum.splits)

lemma forE_append: "forE (xs @ ys) body = seqE (forE xs body) (\<lambda>_. forE ys body)"
  by (induction xs) (simp_all add: seqE_assoc)

text \<open>A state invariant that the body keeps, whatever it returns, is kept by the loop.\<close>

lemma forE_invariant:
  assumes "\<And>x s. x \<in> set xs \<Longrightarrow> P s \<Longrightarrow> P (snd (body x s))" and "P s"
  shows "P (snd (forE xs body s))"
  using assms
proof (induction xs arbitrary: s)
  case Nil
  then show ?case by simp
next
  case (Cons x xs)
  have "P (snd (body x s))" using Cons.prems by simp
  then show ?case
    using Cons.IH Cons.prems(1)
    by (auto simp: seqE_def split: prod.splits sum.splits)
qed

text \<open>
  Programs that maintain an invariant of the state, whatever they return: one rule for each way to
  compose them.
\<close>

named_theorems maintains_intros \<open>programs that maintain an invariant\<close>

definition maintains :: "('s \<Rightarrow> bool) \<Rightarrow> ('s, 'e, 'a) prog \<Rightarrow> bool" where
  "maintains P m \<longleftrightarrow> (\<forall>s. P s \<longrightarrow> P (snd (m s)))"

lemma maintainsD: "maintains P m \<Longrightarrow> m s = (r, s') \<Longrightarrow> P s \<Longrightarrow> P s'"
  by (metis maintains_def snd_conv)

lemma maintains_snd: "maintains P m \<Longrightarrow> P s \<Longrightarrow> P (snd (m s))"
  by (simp add: maintains_def)

lemma maintains_basic [maintains_intros]: "maintains P (retE x)" "maintains P (throwE e)"
  by (simp_all add: maintains_def)

lemma maintains_seqE [maintains_intros]:
  "maintains P m \<Longrightarrow> (\<And>x. maintains P (k x)) \<Longrightarrow> maintains P (seqE m k)"
  by (auto simp: maintains_def seqE_def split: prod.split sum.split)

lemma maintains_forE [maintains_intros]: "(\<And>x. maintains P (body x)) \<Longrightarrow> maintains P (forE xs body)"
  by (induction xs) (auto intro: maintains_intros)

lemma maintains_if [maintains_intros]: "maintains P m \<Longrightarrow> maintains P m' \<Longrightarrow> maintains P (if b then m else m')"
  by simp

lemma maintains_option [maintains_intros]:
  "maintains P m \<Longrightarrow> (\<And>x. maintains P (k x)) \<Longrightarrow> maintains P (case z of None \<Rightarrow> m | Some x \<Rightarrow> k x)"
  by (cases z) simp_all

lemma maintains_sum [maintains_intros]:
  "(\<And>e. maintains P (h e)) \<Longrightarrow> (\<And>x. maintains P (k x)) \<Longrightarrow> maintains P (case z of Inl e \<Rightarrow> h e | Inr x \<Rightarrow> k x)"
  by (cases z) simp_all

lemma maintains_list [maintains_intros]:
  "maintains P m \<Longrightarrow> (\<And>x xs. maintains P (k x xs)) \<Longrightarrow> maintains P (case z of [] \<Rightarrow> m | x # xs \<Rightarrow> k x xs)"
  by (cases z) simp_all

lemma maintains_pair [maintains_intros]: "(\<And>x y. maintains P (k x y)) \<Longrightarrow> maintains P (case z of (x, y) \<Rightarrow> k x y)"
  by (cases z) simp

lemma maintains_Let [maintains_intros]: "maintains P (k z) \<Longrightarrow> maintains P (let x = z in k x)"
  by simp

end
