(* ===== verification/GoNet.thy ===== *)
theory GoNet
  imports GoStrings
begin

text \<open>
  The part of Go's package \<open>net\<close> the providers call: \<open>ParseIP\<close> (dotted IPv4, IPv6 with an
  ellipsis and with a trailing IPv4 part), \<open>IP.To4\<close>, \<open>IP.String\<close>, \<open>IP.IsGlobalUnicast\<close> and
  masks. An address that parsed is a list of 16 bytes, an IPv4 address in its mapped form, as in
  the library (Go 1.13, the version go.mod names: leading zeros of an octet are accepted).
\<close>

type_synonym byte = "8 word"
type_synonym ip = "byte list"

definition v4_prefix :: "byte list" where
  "v4_prefix = replicate 10 0 @ [255, 255]"

text \<open>\<open>IP.To4\<close>: the four bytes, or nil.\<close>

definition ip_to4 :: "ip \<Rightarrow> ip option" where
  "ip_to4 a = (if length a = 4 then Some a
               else if length a = 16 \<and> take 12 a = v4_prefix then Some (drop 12 a) else None)"

text \<open>\<open>IP.To16\<close>.\<close>

definition ip_to16 :: "ip \<Rightarrow> ip option" where
  "ip_to16 a = (if length a = 4 then Some (v4_prefix @ a)
                else if length a = 16 then Some a else None)"

section \<open>ParseIP\<close>

text \<open>
  \<open>dtoi\<close>: the decimal digits at the front, at most \<open>0xFFFFFF\<close>; the value and what is left, or
  \<open>None\<close> where the library reports \<open>ok = false\<close>.
\<close>

fun dtoi_loop :: "string \<Rightarrow> nat \<Rightarrow> (nat \<times> string) option" where
  "dtoi_loop [] n = Some (n, [])"
| "dtoi_loop (c # s) n =
     (case digit_val c of None \<Rightarrow> Some (n, c # s)
      | Some d \<Rightarrow> if n * 10 + d \<ge> 16777215 then None else dtoi_loop s (n * 10 + d))"

definition dtoi :: "string \<Rightarrow> (nat \<times> string) option" where
  "dtoi s = (case s of [] \<Rightarrow> None | c # _ \<Rightarrow> if digit_val c = None then None else dtoi_loop s 0)"

definition hex_val :: "char \<Rightarrow> nat option" where
  "hex_val c = (let n = (of_char c :: nat) in
     if 48 \<le> n \<and> n \<le> 57 then Some (n - 48)
     else if 97 \<le> n \<and> n \<le> 102 then Some (n - 87)
     else if 65 \<le> n \<and> n \<le> 70 then Some (n - 55) else None)"

fun xtoi_loop :: "string \<Rightarrow> nat \<Rightarrow> (nat \<times> string) option" where
  "xtoi_loop [] n = Some (n, [])"
| "xtoi_loop (c # s) n =
     (case hex_val c of None \<Rightarrow> Some (n, c # s)
      | Some d \<Rightarrow> if n * 16 + d \<ge> 16777215 then None else xtoi_loop s (n * 16 + d))"

definition xtoi :: "string \<Rightarrow> (nat \<times> string) option" where
  "xtoi s = (case s of [] \<Rightarrow> None | c # _ \<Rightarrow> if hex_val c = None then None else xtoi_loop s 0)"

text \<open>The loop of \<open>parseIPv4\<close>: \<open>k\<close> octets are still to come; \<open>first\<close> is \<open>i = 0\<close>.\<close>

fun parse_octets :: "nat \<Rightarrow> bool \<Rightarrow> string \<Rightarrow> byte list option" where
  "parse_octets 0 first s = (if s = [] then Some [] else None)"
| "parse_octets (Suc k) first s =
     (let s' = (if first then Some s
                else (case s of [] \<Rightarrow> None | c # t \<Rightarrow> if c = CHR ''.'' then Some t else None))
      in case s' of None \<Rightarrow> None
         | Some t \<Rightarrow> (case dtoi t of None \<Rightarrow> None
             | Some (n, rest) \<Rightarrow> if n > 255 then None
                 else map_option ((#) (of_nat n)) (parse_octets k False rest)))"

definition parseIPv4 :: "string \<Rightarrow> ip option" where
  "parseIPv4 s = map_option (\<lambda>b. v4_prefix @ b) (parse_octets 4 True s)"

text \<open>
  The loop of \<open>parseIPv6\<close> over at most eight groups: \<open>acc\<close> are the bytes written, \<open>ell\<close> the
  place of the ellipsis. The result is the bytes, the ellipsis and the unread rest.
\<close>

fun parse_groups ::
  "nat \<Rightarrow> byte list \<Rightarrow> nat option \<Rightarrow> string \<Rightarrow> (byte list \<times> nat option \<times> string) option" where
  "parse_groups 0 acc ell s = Some (acc, ell, s)"
| "parse_groups (Suc k) acc ell s =
     (case xtoi s of None \<Rightarrow> None
      | Some (n, rest) \<Rightarrow>
          if n > 65535 then None
          else if rest \<noteq> [] \<and> hd rest = CHR ''.'' then
            (if ell = None \<and> length acc \<noteq> 12 then None
             else if length acc + 4 > 16 then None
             else (case parseIPv4 s of None \<Rightarrow> None
                   | Some a \<Rightarrow> Some (acc @ drop 12 a, ell, [])))
          else
            let acc' = acc @ [of_nat (n div 256), of_nat n] in
            (case rest of [] \<Rightarrow> Some (acc', ell, [])
             | c # t \<Rightarrow>
                 if c \<noteq> CHR '':'' \<or> t = [] then None
                 else if hd t = CHR '':'' then
                   (if ell \<noteq> None then None
                    else if tl t = [] then Some (acc', Some (length acc'), [])
                    else parse_groups k acc' (Some (length acc')) (tl t))
                 else parse_groups k acc' ell t))"

definition parseIPv6 :: "string \<Rightarrow> ip option" where
  "parseIPv6 s =
     (let lead = take 2 s = ''::''; s1 = (if lead then drop 2 s else s)
      in if lead \<and> s1 = [] then Some (replicate 16 0)
         else (case parse_groups 8 [] (if lead then Some 0 else None) s1 of
             None \<Rightarrow> None
           | Some (acc, ell, rest) \<Rightarrow>
               if rest \<noteq> [] then None
               else if length acc < 16 then
                 (case ell of None \<Rightarrow> None
                  | Some e \<Rightarrow> Some (take e acc @ replicate (16 - length acc) 0 @ drop e acc))
               else if ell \<noteq> None then None else Some acc))"

fun parse_scan :: "string \<Rightarrow> string \<Rightarrow> ip option" where
  "parse_scan s [] = None"
| "parse_scan s (c # t) =
     (if c = CHR ''.'' then parseIPv4 s else if c = CHR '':'' then parseIPv6 s else parse_scan s t)"

definition parseIP :: "string \<Rightarrow> ip option" where
  "parseIP s = parse_scan s s"

section \<open>String\<close>

definition hex_char :: "nat \<Rightarrow> char" where
  "hex_char d = (if d < 10 then char_of (48 + d) else char_of (87 + d))"

fun hex_str :: "nat \<Rightarrow> string" where
  "hex_str n = (if n < 16 then [hex_char n] else hex_str (n div 16) @ [hex_char (n mod 16)])"

declare hex_str.simps [simp del]

fun groups16 :: "ip \<Rightarrow> nat list" where
  "groups16 (a # b # r) = (unat a * 256 + unat b) # groups16 r"
| "groups16 _ = []"

fun zero_run :: "nat list \<Rightarrow> nat" where
  "zero_run [] = 0"
| "zero_run (g # gs) = (if g = 0 then Suc (zero_run gs) else 0)"

text \<open>The longest run of zero groups, the first one of that length: its start and its length.\<close>

fun longest_run :: "nat list \<Rightarrow> nat \<Rightarrow> nat \<times> nat" where
  "longest_run [] i = (0, 0)"
| "longest_run (g # gs) i =
     (let (s, l) = longest_run gs (Suc i); z = zero_run (g # gs)
      in if z \<ge> l then (i, z) else (s, l))"

definition ipv6_string :: "ip \<Rightarrow> string" where
  "ipv6_string a =
     (let gs = groups16 a; (s, l) = longest_run gs 0
      in if l \<le> 1 then str_join '':'' (map hex_str gs)
         else str_join '':'' (map hex_str (take s gs)) @ ''::'' @
              str_join '':'' (map hex_str (drop (s + l) gs)))"

definition ipv4_string :: "ip \<Rightarrow> string" where
  "ipv4_string b = str_join ''.'' (map (\<lambda>x. nat_str (unat x)) b)"

text \<open>\<open>IP.String\<close> on an address of 4 or 16 bytes (the library prints other lengths as \<open>?\<close> and hex).\<close>

definition ip_string :: "ip \<Rightarrow> string" where
  "ip_string a = (case ip_to4 a of Some b \<Rightarrow> ipv4_string b
                  | None \<Rightarrow> if length a = 16 then ipv6_string a else ''?'')"

section \<open>Classes of addresses and masks\<close>

text \<open>
  \<open>IP.IsGlobalUnicast\<close>: 4 or 16 bytes, and not the broadcast address, unspecified, loopback,
  multicast or link-local unicast.
\<close>

definition is_global_unicast :: "ip \<Rightarrow> bool" where
  "is_global_unicast a =
     (if length a \<noteq> 4 \<and> length a \<noteq> 16 then False
      else case ip_to4 a of
          Some b \<Rightarrow> b \<noteq> [255, 255, 255, 255] \<and> b \<noteq> [0, 0, 0, 0] \<and> b ! 0 \<noteq> 127
            \<and> and (b ! 0) 240 \<noteq> 224 \<and> \<not> (b ! 0 = 169 \<and> b ! 1 = 254)
        | None \<Rightarrow> a \<noteq> replicate 16 0 \<and> a \<noteq> replicate 15 0 @ [1] \<and> a ! 0 \<noteq> 255
            \<and> \<not> (a ! 0 = 254 \<and> and (a ! 1) 192 = 128))"

text \<open>\<open>net.IPNet\<close>, and \<open>net.Interface\<close> with what \<open>Addrs\<close> returns for it (\<open>None\<close>: an error).\<close>

record ip_net =
  net_IP :: ip
  net_Mask :: "byte list"

section \<open>Round trip\<close>

lemma length_v4_prefix [simp]: "length v4_prefix = 12"
  by (simp add: v4_prefix_def)

lemma ip_to4_mapped [simp]: "length b = 4 \<Longrightarrow> ip_to4 (v4_prefix @ b) = Some b"
  by (simp add: ip_to4_def)

lemma dtoi_loop_digits:
  "digits_val s n = Some v \<Longrightarrow> v < 16777215 \<Longrightarrow> (rest = [] \<or> digit_val (hd rest) = None)
   \<Longrightarrow> dtoi_loop (s @ rest) n = Some (v, rest)"
proof (induction s n rule: digits_val.induct)
  case (1 acc)
  then show ?case by (cases rest) auto
next
  case (2 c s acc)
  then obtain d where d: "digit_val c = Some d" "digits_val s (acc * 10 + d) = Some v"
    by (auto split: option.splits)
  have le: "m \<le> w" if "digits_val t m = Some w" for t m w
    using that
  proof (induction t m rule: digits_val.induct)
    case (2 c s acc)
    then show ?case by (fastforce split: option.splits)
  qed simp
  have "acc * 10 + d < 16777215" using le [OF d(2)] "2.prems"(2) by simp
  with d 2 show ?case by simp
qed

lemma dtoi_nat_str:
  "n < 16777215 \<Longrightarrow> (rest = [] \<or> digit_val (hd rest) = None) \<Longrightarrow> dtoi (nat_str n @ rest) = Some (n, rest)"
proof -
  assume a: "n < 16777215" "rest = [] \<or> digit_val (hd rest) = None"
  obtain c t where ct: "nat_str n = c # t" by (cases "nat_str n") auto
  with hd_nat_str [of n] have "digit_val c \<noteq> None" by auto
  moreover have "dtoi_loop (nat_str n @ rest) 0 = Some (n, rest)"
    by (rule dtoi_loop_digits) (use a in auto)
  ultimately show ?thesis using ct by (simp add: dtoi_def)
qed

lemma digit_val_dot [simp]: "digit_val (CHR ''.'') = None"
  by (simp add: digit_val_def)

lemma unat_byte_le: "unat (b :: byte) \<le> 255"
proof -
  have "unat b < 2 ^ LENGTH(8)" by (rule unsigned_less)
  then show ?thesis by simp
qed

lemma parse_octets_string:
  fixes b0 b1 b2 b3 :: byte
  shows "parse_octets 4 True (ipv4_string [b0, b1, b2, b3]) = Some [b0, b1, b2, b3]"
proof -
  have le: "unat (b :: byte) < 16777215" for b using unat_byte_le [of b] by simp
  have nle: "\<not> 255 < unat (b :: byte)" for b using unat_byte_le [of b] by simp
  have last: "dtoi (nat_str (unat b)) = Some (unat b, [])" for b :: byte
    using dtoi_nat_str [OF le, of "[]"] by simp
  have oct: "parse_octets (Suc k) True (nat_str (unat b) @ CHR ''.'' # r)
      = map_option ((#) b) (parse_octets k False (CHR ''.'' # r))"
    for k and b :: byte and r
    by (simp add: dtoi_nat_str le nle)
  have oct': "parse_octets (Suc k) False (CHR ''.'' # nat_str (unat b) @ CHR ''.'' # r)
      = map_option ((#) b) (parse_octets k False (CHR ''.'' # r))"
    for k and b :: byte and r
    by (simp add: dtoi_nat_str le nle)
  have oct'': "parse_octets (Suc 0) False (CHR ''.'' # nat_str (unat b)) = Some [b]" for b :: byte
    by (simp add: last nle)
  have four: "(4 :: nat) = Suc (Suc (Suc (Suc 0)))" by simp
  show ?thesis
    unfolding four by (simp add: ipv4_string_def oct oct' oct'' del: parse_octets.simps)
qed

lemma parse_scan_digits:
  "(\<And>c. c \<in> set u \<Longrightarrow> c \<noteq> CHR ''.'' \<and> c \<noteq> CHR '':'') \<Longrightarrow> parse_scan s (u @ CHR ''.'' # v) = parseIPv4 s"
  by (induction u) auto

text \<open>Printing an IPv4 address and parsing it gives its 16-byte form back.\<close>

lemma parseIP_ipv4_string:
  fixes b0 b1 b2 b3 :: byte
  shows "parseIP (ipv4_string [b0, b1, b2, b3]) = Some (v4_prefix @ [b0, b1, b2, b3])"
proof -
  have no: "c \<noteq> CHR ''.'' \<and> c \<noteq> CHR '':''" if "c \<in> set (nat_str (unat b0))" for c
    using nat_str_digits [OF that] digit_char_neq(3,4) by auto
  have "parse_scan s (ipv4_string [b0, b1, b2, b3]) = parseIPv4 s" for s
    by (simp add: ipv4_string_def parse_scan_digits no)
  then show ?thesis
    by (simp add: parseIP_def parseIPv4_def parse_octets_string)
qed

lemma parse_octets_length: "parse_octets k f s = Some b \<Longrightarrow> length b = k"
  by (induction k f s arbitrary: b rule: parse_octets.induct)
     (auto simp: Let_def split: if_splits option.splits list.splits prod.splits)

lemma parseIPv4_length: "parseIPv4 s = Some a \<Longrightarrow> length a = 16"
  by (auto simp: parseIPv4_def dest: parse_octets_length)

lemma parse_groups_length:
  "parse_groups k acc ell s = Some (acc', ell', rest) \<Longrightarrow> length acc + 2 * k \<le> 16 \<Longrightarrow> length acc' \<le> 16"
proof (induction k arbitrary: acc ell s)
  case 0
  then show ?case by simp
next
  case (Suc k)
  then show ?case
    by (auto simp: Let_def dest!: parseIPv4_length split: if_splits option.splits list.splits prod.splits)
qed

text \<open>Whatever parses has 16 bytes, so it has a version.\<close>

lemma parseIPv6_length: "parseIPv6 s = Some a \<Longrightarrow> length a = 16"
proof -
  assume a: "parseIPv6 s = Some a"
  have le: "parse_groups 8 [] ell t = Some (acc, ell', rest) \<Longrightarrow> length acc \<le> 16" for ell t acc ell' rest
    using parse_groups_length [of 8 "[]" ell t acc ell' rest] by simp
  from a show ?thesis
    by (auto simp: parseIPv6_def Let_def dest: le split: if_splits option.splits prod.splits)
qed

lemma parse_scan_length: "parse_scan s t = Some a \<Longrightarrow> length a = 16"
  by (induction t) (auto dest: parseIPv4_length parseIPv6_length split: if_splits)

lemma parseIP_length: "parseIP s = Some a \<Longrightarrow> length a = 16"
  unfolding parseIP_def by (rule parse_scan_length)

lemma parseIP_Nil [simp]: "parseIP [] = None"
  by (simp add: parseIP_def)

section \<open>Evaluation\<close>

lemma parse_octets_4: "parse_octets 4 = parse_octets (Suc (Suc (Suc (Suc 0))))"
  by (simp add: eval_nat_numeral)

lemma parse_groups_8:
  "parse_groups 8 = parse_groups (Suc (Suc (Suc (Suc (Suc (Suc (Suc (Suc 0))))))))"
  by (simp add: eval_nat_numeral)

lemma replicate_eval: "replicate (numeral n) x = x # replicate (pred_numeral n) x"
  by (simp add: numeral_eq_Suc)

text \<open>Evaluation of the address functions on closed arguments, by the simplifier.\<close>

lemmas ip_eval = parseIP_def parseIPv4_def parseIPv6_def parse_octets_4 parse_groups_8 dtoi_def
  digit_val_def xtoi_def hex_val_def v4_prefix_def replicate_eval ip_to4_def ip_to16_def

lemmas ip_string_eval = ip_string_def ip_to4_def ipv4_string_def ipv6_string_def hex_str.simps
  hex_char_def v4_prefix_def replicate_eval str_eval

end
