(* ===== verification/LBTypes.thy ===== *)
theory LBTypes
  imports GoNet
begin

text \<open>
  The LoadBalancer resource (package \<open>lbapi\<close>, the API types of the custom resource): one record
  per struct, with all of its fields. Of the types of Kubernetes around them (the object's metadata,
  config maps, nodes) the fields are there that the code reads. A pointer is an option; a string
  enumeration stays a string, since the API accepts any value and the code checks it. A time is the number of its instant. Names are the source's with the struct's
  initials in front, because field selectors share one name space.
\<close>

section \<open>Providers of the specification\<close>

record keepalived_bind =
  kb_Iface :: string
  kb_NodeIPAnnotation :: string

record keepalived_provider =
  kp_VIP :: string
  kp_VIPs :: "string list"
  kp_Scheduler :: string
  kp_HAMode :: string
  kp_Bind :: "keepalived_bind option"

text \<open>\<open>IpvsdrProvider\<close> embeds a \<open>KeepalivedProvider\<close> and adds the slaves.\<close>

record ipvsdr_provider = keepalived_provider +
  ip_Slaves :: "keepalived_provider list"

definition embedded :: "ipvsdr_provider \<Rightarrow> keepalived_provider" where
  "embedded p = keepalived_provider.truncate p"

record external_provider =
  ex_VIP :: string
  ex_VIPs :: "string list"

record azure_private =
  pr_IPAllocationMethod :: string
  pr_VPCID :: string
  pr_SubnetID :: string
  pr_PrivateIPAddress :: "string option"

record azure_public =
  pu_IPAllocationMethod :: string
  pu_PublicIPAddressID :: "string option"

record azure_ip_properties =
  ap_Private :: "azure_private option"
  ap_Public :: "azure_public option"

record azure_provider =
  az_Name :: string
  az_ResourceGroupName :: string
  az_Location :: string
  az_SKU :: string
  az_ClusterID :: string
  az_ReserveAzure :: "bool option"
  az_IPAddressProperties :: azure_ip_properties

text \<open>The zero value \<open>&lbapi.AzureProvider{}\<close>.\<close>

definition zero_azure_provider :: azure_provider where
  "zero_azure_provider = \<lparr> az_Name = [], az_ResourceGroupName = [], az_Location = [], az_SKU = [],
     az_ClusterID = [], az_ReserveAzure = None,
     az_IPAddressProperties = \<lparr> ap_Private = None, ap_Public = None \<rparr> \<rparr>"

record aliyun_provider =
  al_Name :: string

record providers_spec =
  ps_External :: "external_provider option"
  ps_Ipvsdr :: "ipvsdr_provider option"
  ps_Aliyun :: "aliyun_provider option"
  ps_Azure :: "azure_provider option"

section \<open>Specification and status\<close>

record nodes_spec =
  ns_Replicas :: "int option"
  ns_Names :: "string list"
  ns_Effect :: "string option"

text \<open>\<open>v1.ResourceRequirements\<close>, quantities by their text.\<close>

record resource_requirements =
  rr_Limits :: gomap
  rr_Requests :: gomap

record port_range =
  rg_Start :: int
  rg_End :: int

record proxy_spec =
  px_Type :: string
  px_Config :: "gomap option"
  px_Resources :: resource_requirements
  px_HTTPPort :: int
  px_HTTPSPort :: int
  px_PortRanges :: "port_range slice"

record interface_net =
  if_Name :: string
  if_Mac :: string
  if_IPs :: "string slice"

record node_status =
  st_Name :: string
  st_IfaceNetList :: "interface_net slice"

text \<open>\<open>NodeStatuses\<close> has the single field \<open>Nodes\<close>, a slice.\<close>

type_synonym node_statuses = "node_status slice"

record azure_status =
  as_Phase :: string
  as_Reason :: string
  as_Message :: string
  as_ProvisioningState :: string
  as_PublicIPAddress :: "string option"

record pod_status =
  po_Name :: string
  po_Ready :: bool
  po_RestartCount :: int
  po_ReadyContainers :: int
  po_TotalContainers :: int
  po_NodeName :: string
  po_Phase :: string
  po_Reason :: string
  po_Message :: string

record pod_statuses =
  pt_Replicas :: int
  pt_TotalReplicas :: int
  pt_ReadyReplicas :: int
  pt_Statuses :: "pod_status slice"

text \<open>Both embed the pods' status.\<close>

record proxy_status = pod_statuses +
  xs_Deployment :: string
  xs_IngressClass :: string
  xs_ConfigMap :: string
  xs_TCPConfigMap :: string
  xs_UDPConfigMap :: string

record ipvsdr_status = pod_statuses +
  vs_Deployment :: string
  vs_VIP :: string
  vs_VIPs :: "string slice"
  vs_Vrid :: "int option"

record external_status =
  es_VIP :: string
  es_VIPs :: "string slice"

text \<open>\<open>AliyunProviderStatus\<close> has no field.\<close>

type_synonym aliyun_status = unit

text \<open>
  A LoadBalancer with the parts of its \<open>Spec\<close> and its \<open>Status\<close>; the four statuses of \<open>ProvidersStatuses\<close> are
  fields of their own.
\<close>

record load_balancer =
  lb_Namespace :: string
  lb_Name :: string
  lb_ResourceVersion :: string
  lb_DeletionTimestamp :: "nat option"
  lb_Finalizers :: "string slice"
  lb_Nodes :: nodes_spec
  lb_Proxy :: proxy_spec
  lb_Providers :: providers_spec
  lb_Accessible :: bool
  lb_AccessIPs :: "string slice"
  lb_NodeIPs :: "string slice"
  lb_ProxyStatus :: proxy_status
  lb_ExternalStatus :: "external_status option"
  lb_IpvsdrStatus :: "ipvsdr_status option"
  lb_AliyunStatus :: "aliyun_status option"
  lb_AzureStatus :: "azure_status option"
  lb_NodeStatuses :: node_statuses

abbreviation lb_TCPConfigMap :: "load_balancer \<Rightarrow> string" where
  "lb_TCPConfigMap lb \<equiv> xs_TCPConfigMap (lb_ProxyStatus lb)"

abbreviation lb_UDPConfigMap :: "load_balancer \<Rightarrow> string" where
  "lb_UDPConfigMap lb \<equiv> xs_UDPConfigMap (lb_ProxyStatus lb)"

text \<open>\<open>LoadBalancerList\<close>, by its items.\<close>

record load_balancer_list =
  li_Items :: "load_balancer slice"

text \<open>Parts of a resource that was just created.\<close>

definition new_proxy :: "int \<Rightarrow> int \<Rightarrow> proxy_spec" where
  "new_proxy http https = \<lparr> px_Type = ''nginx'', px_Config = None, px_Resources = \<lparr> rr_Limits = [], rr_Requests = [] \<rparr>,
     px_HTTPPort = http, px_HTTPSPort = https, px_PortRanges = None \<rparr>"

definition new_proxy_status :: "string \<Rightarrow> string \<Rightarrow> proxy_status" where
  "new_proxy_status tcp udp = \<lparr> pt_Replicas = 0, pt_TotalReplicas = 0, pt_ReadyReplicas = 0, pt_Statuses = None,
     xs_Deployment = [], xs_IngressClass = [], xs_ConfigMap = [], xs_TCPConfigMap = tcp, xs_UDPConfigMap = udp \<rparr>"

definition new_ipvsdr_status :: "int option \<Rightarrow> ipvsdr_status" where
  "new_ipvsdr_status vrid = \<lparr> pt_Replicas = 0, pt_TotalReplicas = 0, pt_ReadyReplicas = 0, pt_Statuses = None,
     vs_Deployment = [], vs_VIP = [], vs_VIPs = None, vs_Vrid = vrid \<rparr>"

lemma new_parts [simp]:
  "px_Type (new_proxy http https) = ''nginx''" "px_HTTPPort (new_proxy http https) = http"
  "px_HTTPSPort (new_proxy http https) = https"
  "xs_TCPConfigMap (new_proxy_status tcp udp) = tcp" "xs_UDPConfigMap (new_proxy_status tcp udp) = udp"
  "vs_Vrid (new_ipvsdr_status vrid) = vrid"
  by (simp_all add: new_proxy_def new_proxy_status_def new_ipvsdr_status_def)

text \<open>The constants of the string types.\<close>

definition ActiveActiveHA :: string where "ActiveActiveHA = ''ActiveActive''"
definition ActivePassiveHA :: string where "ActivePassiveHA = ''ActivePassive''"

definition ipvs_schedulers :: "string list" where
  "ipvs_schedulers = [''rr'', ''wrr'', ''lc'', ''wlc'', ''lblc'', ''dh'', ''sh'']"

definition proxy_types :: "string list" where
  "proxy_types = [''nginx'', ''haproxy'', ''traefik'']"

definition AzureStandardSKU :: string where "AzureStandardSKU = ''Standard''"
definition AzureBasicSKU :: string where "AzureBasicSKU = ''Basic''"
definition AzureStaticIPAllocationMethod :: string where
  "AzureStaticIPAllocationMethod = ''Static''"
definition AzureDynamicIPAllocationMethod :: string where
  "AzureDynamicIPAllocationMethod = ''Dynamic''"
definition AzurePrivateIPAddressType :: string where "AzurePrivateIPAddressType = ''private''"
definition AzurePublicIPAddressType :: string where "AzurePublicIPAddressType = ''public''"

section \<open>Config maps and Kubernetes nodes\<close>

text \<open>A ConfigMap with its \<open>Data\<close>, which is nil when the map has no data.\<close>

record config_map =
  cm_Namespace :: string
  cm_Name :: string
  cm_ResourceVersion :: string
  cm_Data :: "gomap option"

definition cm_items :: "config_map \<Rightarrow> gomap" where
  "cm_items c = (case cm_Data c of None \<Rightarrow> [] | Some m \<Rightarrow> m)"

datatype address_type = NodeHostName | NodeInternalIP | NodeExternalIP | NodeOtherAddress string

record k8s_node =
  kn_Name :: string
  kn_Labels :: gomap
  kn_Annotations :: gomap
  kn_Addresses :: "(address_type \<times> string) list"

section \<open>A round trip through the API server\<close>

text \<open>
  What a value of the status is after it was written to the API server and read back: the
  slices \<open>Nodes\<close>, \<open>IfaceNetList\<close> and \<open>IPs\<close> carry the JSON tag \<open>omitempty\<close>.
\<close>

definition json_iface :: "interface_net \<Rightarrow> interface_net" where
  "json_iface i = i\<lparr>if_IPs := json_omitempty (if_IPs i)\<rparr>"

definition json_node_status :: "node_status \<Rightarrow> node_status" where
  "json_node_status n = n\<lparr>st_IfaceNetList :=
     json_omitempty (map_option (map json_iface) (st_IfaceNetList n))\<rparr>"

definition json_node_statuses :: "node_statuses \<Rightarrow> node_statuses" where
  "json_node_statuses ns = json_omitempty (map_option (map json_node_status) ns)"

end
