(* ===== verification/LBValidate.thy ===== *)
theory LBValidate
  imports LBTypes
begin

text \<open>
  \<open>lbapi.ValidateLoadBalancer\<close>, the check every synchronisation makes before it hands the
  resource to the backend: one definition per provider block, in the order of the source, each
  returning the error of the first check that fails.
\<close>

datatype lb_error =
    IpvsdrVip string | IpvsdrVips nat string | IpvsdrVipsEmpty | IpvsdrScheduler string
  | ExternalVip | ExternalVips nat string | ExternalVipsEmpty
  | AzureLocation | AzureGroup | AzureCluster | AzureSKUInvalid string | AzureNoIP | AzureBothIP
  | AzureSubnet | AzurePrivateNil | AzurePrivateInvalid | AzurePrivateMethod string
  | AzurePublicNil | AzurePublicMethod string
  | ProxyTypeUnknown string

text \<open>The loop over the VIPs: the first one that does not parse, with its index.\<close>

fun first_bad_vip :: "nat \<Rightarrow> string list \<Rightarrow> (nat \<times> string) option" where
  "first_bad_vip i [] = None"
| "first_bad_vip i (v # vs) = (if parseIP v = None then Some (i, v) else first_bad_vip (Suc i) vs)"

definition validate_ipvsdr :: "ipvsdr_provider \<Rightarrow> lb_error option" where
  "validate_ipvsdr p =
     (if kp_VIP p \<noteq> [] \<and> parseIP (kp_VIP p) = None then Some (IpvsdrVip (kp_VIP p))
      else case first_bad_vip 0 (kp_VIPs p) of
          Some (i, v) \<Rightarrow> Some (IpvsdrVips i v)
        | None \<Rightarrow>
            if kp_VIP p = [] \<and> kp_VIPs p = [] then Some IpvsdrVipsEmpty
            else if kp_Scheduler p \<notin> set ipvs_schedulers then Some (IpvsdrScheduler (kp_Scheduler p))
            else None)"

definition validate_external :: "external_provider \<Rightarrow> lb_error option" where
  "validate_external p =
     (if ex_VIP p \<noteq> [] \<and> parseIP (ex_VIP p) = None then Some ExternalVip
      else case first_bad_vip 0 (ex_VIPs p) of
          Some (i, v) \<Rightarrow> Some (ExternalVips i v)
        | None \<Rightarrow> if ex_VIP p = [] \<and> ex_VIPs p = [] then Some ExternalVipsEmpty else None)"

definition validate_azure_private :: "azure_private \<Rightarrow> lb_error option" where
  "validate_azure_private p =
     (if pr_SubnetID p = [] then Some AzureSubnet
      else if pr_IPAllocationMethod p = AzureStaticIPAllocationMethod then
        (case pr_PrivateIPAddress p of None \<Rightarrow> Some AzurePrivateNil
         | Some a \<Rightarrow> if parseIP a = None then Some AzurePrivateInvalid else None)
      else if pr_IPAllocationMethod p = AzureDynamicIPAllocationMethod then None
      else Some (AzurePrivateMethod (pr_IPAllocationMethod p)))"

definition validate_azure_public :: "azure_public \<Rightarrow> lb_error option" where
  "validate_azure_public p =
     (if pu_IPAllocationMethod p = AzureStaticIPAllocationMethod then
        (if pu_PublicIPAddressID p = None then Some AzurePublicNil else None)
      else if pu_IPAllocationMethod p = AzureDynamicIPAllocationMethod then None
      else Some (AzurePublicMethod (pu_IPAllocationMethod p)))"

definition validate_azure :: "azure_provider \<Rightarrow> lb_error option" where
  "validate_azure a =
     (let ips = az_IPAddressProperties a in
      if az_Location a = [] then Some AzureLocation
      else if az_ResourceGroupName a = [] then Some AzureGroup
      else if az_ClusterID a = [] then Some AzureCluster
      else if az_SKU a \<noteq> AzureStandardSKU \<and> az_SKU a \<noteq> AzureBasicSKU then Some (AzureSKUInvalid (az_SKU a))
      else if ap_Public ips = None \<and> ap_Private ips = None then Some AzureNoIP
      else if ap_Public ips \<noteq> None \<and> ap_Private ips \<noteq> None then Some AzureBothIP
      else case (case ap_Private ips of None \<Rightarrow> None | Some p \<Rightarrow> validate_azure_private p) of
          Some e \<Rightarrow> Some e
        | None \<Rightarrow> (case ap_Public ips of None \<Rightarrow> None | Some p \<Rightarrow> validate_azure_public p))"

definition first_error :: "'e option list \<Rightarrow> 'e option" where
  "first_error es = (case filter (\<lambda>e. e \<noteq> None) es of [] \<Rightarrow> None | e # _ \<Rightarrow> e)"

definition validateProviders :: "providers_spec \<Rightarrow> lb_error option" where
  "validateProviders s = first_error
     [case ps_Ipvsdr s of None \<Rightarrow> None | Some p \<Rightarrow> validate_ipvsdr p,
      case ps_External s of None \<Rightarrow> None | Some p \<Rightarrow> validate_external p,
      case ps_Azure s of None \<Rightarrow> None | Some p \<Rightarrow> validate_azure p]"

definition validateProxy :: "proxy_spec \<Rightarrow> lb_error option" where
  "validateProxy s = (if px_Type s \<in> set proxy_types then None else Some (ProxyTypeUnknown (px_Type s)))"

definition validateLoadBalancer :: "load_balancer \<Rightarrow> lb_error option" where
  "validateLoadBalancer lb =
     (case validateProviders (lb_Providers lb) of Some e \<Rightarrow> Some e
      | None \<Rightarrow> validateProxy (lb_Proxy lb))"

section \<open>What a valid resource guarantees\<close>

lemma first_bad_vip_None: "first_bad_vip i vs = None \<longleftrightarrow> (\<forall>v\<in>set vs. parseIP v \<noteq> None)"
  by (induction i vs rule: first_bad_vip.induct) auto

lemma first_bad_vip_Some:
  "first_bad_vip i vs = Some (j, v) \<Longrightarrow>
     i \<le> j \<and> j < i + length vs \<and> vs ! (j - i) = v \<and> parseIP v = None
     \<and> (\<forall>k<j - i. parseIP (vs ! k) \<noteq> None)"
proof (induction i vs rule: first_bad_vip.induct)
  case (2 i w vs)
  show ?case
  proof (cases "parseIP w = None")
    case True
    with "2.prems" show ?thesis by auto
  next
    case False
    with 2 have "Suc i \<le> j" "j < Suc i + length vs" "vs ! (j - Suc i) = v" "parseIP v = None"
      "\<forall>k<j - Suc i. parseIP (vs ! k) \<noteq> None" by auto
    moreover from this(1) have "j - i = Suc (j - Suc i)" by simp
    ultimately show ?thesis using False by (auto simp: nth_Cons split: nat.splits)
  qed
qed simp

lemma first_error_None: "first_error es = None \<longleftrightarrow> (\<forall>e\<in>set es. e = None)"
  by (induction es) (auto simp: first_error_def split: list.splits)

lemma validate_ipvsdr_None:
  "validate_ipvsdr p = None \<longleftrightarrow>
     (kp_VIP p = [] \<or> parseIP (kp_VIP p) \<noteq> None) \<and> (\<forall>v\<in>set (kp_VIPs p). parseIP v \<noteq> None)
     \<and> (kp_VIP p \<noteq> [] \<or> kp_VIPs p \<noteq> []) \<and> kp_Scheduler p \<in> set ipvs_schedulers"
  using first_bad_vip_None [of 0 "kp_VIPs p"]
  by (cases "first_bad_vip 0 (kp_VIPs p)") (auto simp: validate_ipvsdr_def)

lemma validateProviders_None:
  "validateProviders s = None \<Longrightarrow> ps_Ipvsdr s = Some p \<Longrightarrow> validate_ipvsdr p = None"
  "validateProviders s = None \<Longrightarrow> ps_Azure s = Some a \<Longrightarrow> validate_azure a = None"
  by (auto simp: validateProviders_def first_error_None)

lemma validateLoadBalancer_None:
  "validateLoadBalancer lb = None \<longleftrightarrow>
     validateProviders (lb_Providers lb) = None \<and> validateProxy (lb_Proxy lb) = None"
  by (auto simp: validateLoadBalancer_def split: option.splits)

text \<open>An accepted Azure block has exactly one kind of address.\<close>

lemma validate_azure_one_address:
  "validate_azure a = None \<Longrightarrow>
     (ap_Public (az_IPAddressProperties a) = None) \<noteq> (ap_Private (az_IPAddressProperties a) = None)"
  by (auto simp: validate_azure_def Let_def split: if_splits)

end
