(* ===== verification/Errors.thy ===== *)
theory Errors
  imports GoStrings
begin

text \<open>
  The error values that travel between the packages. A panic is an error no caller handles: it
  ends the process, so every sequence of statements stops at it.
\<close>

datatype panic_kind = NilDereference string | CloseOfClosedChannel | CallerPanic string | IndexOutOfRange

text \<open>\<open>client.ServiceError\<close>.\<close>

record service_error =
  se_StatusCode :: int
  se_Code :: string
  se_Message :: string
  se_Target :: string

text \<open>
  The error Azure's library wraps (\<open>autorest.DetailedError.Original\<close>): its service error, a
  request error with an optional service error (code, message, target), or something else.
\<close>

datatype azure_original =
    OrigService string string "string option"
  | OrigRequest "(string \<times> string \<times> string option) option"
  | OrigOther string

datatype go_error =
    Panic panic_kind
  | Errorf string                                    \<comment> \<open>fmt.Errorf or errors.New, by its text\<close>
  | KubeNotFound | KubeConflict | KubeOther string   \<comment> \<open>API server errors, by their reason\<close>
  | SvcError service_error                           \<comment> \<open>*client.ServiceError\<close>
  | Detailed "int option" "azure_original option" string
      \<comment> \<open>autorest.DetailedError: StatusCode if it is an int, Original, its text\<close>

definition is_panic :: "go_error \<Rightarrow> bool" where
  "is_panic e = (case e of Panic _ \<Rightarrow> True | _ \<Rightarrow> False)"

lemma is_panic_simps [simp]:
  "is_panic (Panic p)" "\<not> is_panic (Errorf t)" "\<not> is_panic KubeNotFound" "\<not> is_panic KubeConflict"
  "\<not> is_panic (KubeOther t)" "\<not> is_panic (SvcError s)" "\<not> is_panic (Detailed c orig t)"
  by (simp_all add: is_panic_def)

text \<open>\<open>_, _ = f()\<close> and \<open>_ = f()\<close>: the error is dropped, a panic is not.\<close>

definition ignoreE :: "('s, go_error, 'a) prog \<Rightarrow> ('s, go_error, unit) prog" where
  "ignoreE m s =
     (case m s of (Inl e, s') \<Rightarrow> (if is_panic e then Inl e else Inr (), s') | (Inr _, s') \<Rightarrow> (Inr (), s'))"

lemma ignoreE_Inr: "m s = (Inr x, s') \<Longrightarrow> ignoreE m s = (Inr (), s')"
  by (simp add: ignoreE_def)

lemma ignoreE_Inl: "m s = (Inl e, s') \<Longrightarrow> \<not> is_panic e \<Longrightarrow> ignoreE m s = (Inr (), s')"
  by (simp add: ignoreE_def)

lemma ignoreE_snd [simp]: "snd (ignoreE m s) = snd (m s)"
  by (simp add: ignoreE_def split: prod.split sum.split)

text \<open>What a lookup in an informer's store returns.\<close>

datatype 'a lookup = Found 'a | Missing | LookupErr string

end
