(* ===== verification/ObjHeap.thy ===== *)
theory ObjHeap
  imports LBValidate Errors
begin

text \<open>
  The objects shared by pointer: an informer's store hands out pointers to its own LoadBalancer
  objects, and the providers keep some of them and write through them. So LoadBalancer objects
  live in a heap, and everything that holds one holds its address. The listers
  (\<open>core.StoreLister\<close>) are what the informers' stores answer at the time of the call.
\<close>

record lb_heap =
  hp_obj :: "nat \<Rightarrow> load_balancer option"
  hp_next :: nat

definition heap_wf :: "lb_heap \<Rightarrow> bool" where
  "heap_wf h \<longleftrightarrow> (\<forall>a. hp_next h \<le> a \<longrightarrow> hp_obj h a = None)"

definition empty_heap :: lb_heap where
  "empty_heap = \<lparr> hp_obj = (\<lambda>_. None), hp_next = 0 \<rparr>"

definition heap_alloc :: "load_balancer \<Rightarrow> lb_heap \<Rightarrow> nat \<times> lb_heap" where
  "heap_alloc lb h =
     (hp_next h, h\<lparr>hp_obj := (hp_obj h)(hp_next h \<mapsto> lb), hp_next := Suc (hp_next h)\<rparr>)"

definition heap_write :: "nat \<Rightarrow> load_balancer \<Rightarrow> lb_heap \<Rightarrow> lb_heap" where
  "heap_write a lb h = h\<lparr>hp_obj := (hp_obj h)(a \<mapsto> lb)\<rparr>"

text \<open>The heap after others allocated: every object is still there, unchanged.\<close>

definition heap_extends :: "lb_heap \<Rightarrow> lb_heap \<Rightarrow> bool" where
  "heap_extends h h' \<longleftrightarrow> (\<forall>a lb. hp_obj h a = Some lb \<longrightarrow> hp_obj h' a = Some lb)"

lemma heap_extends_refl [simp]: "heap_extends h h"
  by (simp add: heap_extends_def)

lemma heap_wf_empty [simp]: "heap_wf empty_heap"
  by (simp add: heap_wf_def empty_heap_def)

lemma heap_extends_alloc: "heap_wf h \<Longrightarrow> heap_extends h (snd (heap_alloc lb h))"
  by (auto simp: heap_extends_def heap_alloc_def heap_wf_def)

lemma heap_alloc_obj: "hp_obj (snd (heap_alloc lb h)) (fst (heap_alloc lb h)) = Some lb"
  by (simp add: heap_alloc_def)

lemma heap_wf_alloc: "heap_wf h \<Longrightarrow> heap_wf (snd (heap_alloc lb h))"
  by (auto simp: heap_wf_def heap_alloc_def)

lemma hp_obj_write [simp]:
  "hp_obj (heap_write a lb h) b = (if b = a then Some lb else hp_obj h b)"
  by (simp add: heap_write_def)

lemma hp_next_write [simp]: "hp_next (heap_write a lb h) = hp_next h"
  by (simp add: heap_write_def)

text \<open>\<open>corev1.Secret\<close>, by what the Azure client reads.\<close>

record secret =
  sc_Type :: string
  sc_Data :: gomap

record store_lister =
  sl_LoadBalancer :: "string \<Rightarrow> string \<Rightarrow> nat lookup"
  sl_ConfigMap :: "string \<Rightarrow> string \<Rightarrow> config_map lookup"
  sl_Node :: "string \<Rightarrow> k8s_node lookup"
  sl_Secret :: "string \<Rightarrow> secret list lookup"

definition empty_lister :: store_lister where
  "empty_lister = \<lparr> sl_LoadBalancer = (\<lambda>_ _. Missing), sl_ConfigMap = (\<lambda>_ _. Missing),
     sl_Node = (\<lambda>_. Missing), sl_Secret = (\<lambda>_. Missing) \<rparr>"

text \<open>A lookup as an error value: \<open>IsNotFound\<close> holds exactly of \<open>KubeNotFound\<close>.\<close>

definition lookup_err :: "'a lookup \<Rightarrow> go_error + 'a" where
  "lookup_err l = (case l of Found x \<Rightarrow> Inr x | Missing \<Rightarrow> Inl KubeNotFound
                   | LookupErr t \<Rightarrow> Inl (KubeOther t))"

lemma lookup_err_simps [simp, go_simps]:
  "lookup_err (Found x) = Inr x" "lookup_err Missing = Inl KubeNotFound"
  "lookup_err (LookupErr t) = Inl (KubeOther t)"
  by (simp_all add: lookup_err_def)

end
