(* ===== verification/WorkQueue.thy ===== *)
theory WorkQueue
  imports GoPrelude
begin

text \<open>
  The rate limited work queue behind the controller: \<open>workqueue.Type\<close> (a queue, the dirty set
  and the processing set), the delaying queue (entries that wait for their time), the failure
  counter of the rate limiter, and the worker's error handling of \<open>syncqueue.SyncQueue\<close>.
  What a user of a work queue relies on is the locale \<open>work_queue\<close>; the code's queue is its
  interpretation.
\<close>

section \<open>workqueue.Type\<close>

record 'k wqueue =
  wq_queue :: "'k list"
  wq_dirty :: "'k set"
  wq_processing :: "'k set"
  wq_shuttingDown :: bool

definition newQueue :: "'k wqueue" where
  "newQueue = \<lparr> wq_queue = [], wq_dirty = {}, wq_processing = {}, wq_shuttingDown = False \<rparr>"

definition wq_Add :: "'k \<Rightarrow> 'k wqueue \<Rightarrow> 'k wqueue" where
  "wq_Add k q =
     (if wq_shuttingDown q then q
      else if k \<in> wq_dirty q then q
      else let q1 = q\<lparr>wq_dirty := insert k (wq_dirty q)\<rparr>
           in if k \<in> wq_processing q1 then q1 else q1\<lparr>wq_queue := wq_queue q1 @ [k]\<rparr>)"

text \<open>\<open>Get\<close> blocks on an empty queue, unless the queue is shutting down.\<close>

datatype ('k, 'q) got = Blocked | Quit | Item 'k 'q

definition wq_Get :: "'k wqueue \<Rightarrow> ('k, 'k wqueue) got" where
  "wq_Get q =
     (case wq_queue q of
        [] \<Rightarrow> if wq_shuttingDown q then Quit else Blocked
      | k # ks \<Rightarrow> Item k (q\<lparr>wq_queue := ks, wq_processing := insert k (wq_processing q),
                            wq_dirty := wq_dirty q - {k}\<rparr>))"

definition wq_Done :: "'k \<Rightarrow> 'k wqueue \<Rightarrow> 'k wqueue" where
  "wq_Done k q =
     (let q1 = q\<lparr>wq_processing := wq_processing q - {k}\<rparr>
      in if k \<in> wq_dirty q1 then q1\<lparr>wq_queue := wq_queue q1 @ [k]\<rparr> else q1)"

definition wq_ShutDown :: "'k wqueue \<Rightarrow> 'k wqueue" where
  "wq_ShutDown q = q\<lparr>wq_shuttingDown := True\<rparr>"

text \<open>
  The source's comment on the field \<open>queue\<close> as an invariant: every element of the queue is
  dirty and not being processed, once; and a dirty element that is not queued is in processing.
\<close>

definition wq_inv :: "'k wqueue \<Rightarrow> bool" where
  "wq_inv q \<longleftrightarrow> distinct (wq_queue q) \<and> set (wq_queue q) = wq_dirty q - wq_processing q"

section \<open>The interface\<close>

text \<open>
  \<open>pend\<close> is what has to be processed, \<open>busy\<close> what is being processed: an added item stays
  pending until a worker takes it, and no item is given to two workers at once.
\<close>

locale work_queue =
  fixes qadd :: "'k \<Rightarrow> 'q \<Rightarrow> 'q" and qget :: "'q \<Rightarrow> ('k, 'q) got" and qdone :: "'k \<Rightarrow> 'q \<Rightarrow> 'q"
    and pend :: "'q \<Rightarrow> 'k set" and busy :: "'q \<Rightarrow> 'k set" and closed :: "'q \<Rightarrow> bool"
    and inv :: "'q \<Rightarrow> bool"
  assumes add_inv: "inv q \<Longrightarrow> inv (qadd k q)"
    and add_pend: "pend (qadd k q) = (if closed q then pend q else insert k (pend q))"
    and add_busy: "busy (qadd k q) = busy q"
    and add_closed: "closed (qadd k q) = closed q"
    and get_item: "inv q \<Longrightarrow> qget q = Item k q' \<Longrightarrow>
          k \<in> pend q \<and> k \<notin> busy q \<and> pend q' = pend q - {k} \<and> busy q' = insert k (busy q)
          \<and> inv q' \<and> closed q' = closed q"
    and get_blocked: "inv q \<Longrightarrow> qget q = Blocked \<Longrightarrow> pend q \<subseteq> busy q"
    and done_inv: "inv q \<Longrightarrow> k \<in> busy q \<Longrightarrow> inv (qdone k q)"
    and done_pend: "pend (qdone k q) = pend q"
    and done_busy: "busy (qdone k q) = busy q - {k}"
    and done_closed: "closed (qdone k q) = closed q"
begin

text \<open>Operations other than \<open>Get\<close>, in the order they are called.\<close>

fun between :: "('k + 'k) list \<Rightarrow> 'q \<Rightarrow> 'q" where
  "between [] q = q"
| "between (Inl k # es) q = between es (qadd k q)"
| "between (Inr k # es) q = between es (qdone k q)"

text \<open>What was added stays pending through any adds and dones of other workers.\<close>

lemma pend_between: "k \<in> pend q \<Longrightarrow> k \<in> pend (between es q)"
  by (induction es q rule: between.induct) (auto simp: add_pend done_pend)

lemma added_not_lost: "\<not> closed q \<Longrightarrow> k \<in> pend (between es (qadd k q))"
  by (rule pend_between) (simp add: add_pend)

text \<open>
  An item added while a worker processes it is there for another round when the worker is done:
  \<open>Get\<close> cannot block after \<open>Done\<close>.
\<close>

lemma readded_is_available:
  assumes "inv q" "\<not> closed q" "busy q = {k}"
  shows "qget (qdone k (qadd k q)) \<noteq> Blocked"
proof
  assume b: "qget (qdone k (qadd k q)) = Blocked"
  have "inv (qdone k (qadd k q))" by (intro done_inv add_inv) (simp_all add: assms add_busy)
  from get_blocked [OF this b] show False
    by (simp add: done_pend done_busy add_pend add_busy assms)
qed

text \<open>A single worker that finished everything it took leaves nothing pending when it blocks.\<close>

lemma blocked_idle: "inv q \<Longrightarrow> busy q = {} \<Longrightarrow> qget q = Blocked \<Longrightarrow> pend q = {}"
  using get_blocked by fastforce

end

lemma wq_Get_Item:
  assumes inv: "wq_inv q" and get: "wq_Get q = Item k q'"
  shows "k \<in> wq_dirty q \<and> k \<notin> wq_processing q \<and> wq_dirty q' = wq_dirty q - {k}
      \<and> wq_processing q' = insert k (wq_processing q) \<and> wq_inv q' \<and> wq_shuttingDown q' = wq_shuttingDown q"
proof -
  from get obtain ks where ks: "wq_queue q = k # ks"
    and q': "q' = q\<lparr>wq_queue := ks, wq_processing := insert k (wq_processing q),
                    wq_dirty := wq_dirty q - {k}\<rparr>"
    by (auto simp: wq_Get_def split: list.splits if_splits)
  have eq: "insert k (set ks) = wq_dirty q - wq_processing q" and d: "distinct (k # ks)"
    using inv ks by (auto simp: wq_inv_def)
  then have "k \<in> wq_dirty q - wq_processing q" by (metis insertI1)
  moreover have "set ks = wq_dirty q - {k} - insert k (wq_processing q)"
    using eq d by (metis Diff_insert Diff_insert2 Diff_insert_absorb distinct.simps(2) insert_absorb2)
  ultimately show ?thesis using d by (simp add: q' wq_inv_def)
qed

interpretation wq: work_queue wq_Add wq_Get wq_Done wq_dirty wq_processing wq_shuttingDown wq_inv
proof unfold_locales
  fix q q' :: "'a wqueue" and k :: 'a
  show "wq_inv q \<Longrightarrow> wq_inv (wq_Add k q)"
    by (auto simp: wq_inv_def wq_Add_def Let_def)
  show "wq_dirty (wq_Add k q) = (if wq_shuttingDown q then wq_dirty q else insert k (wq_dirty q))"
    by (auto simp: wq_Add_def Let_def)
  show "wq_processing (wq_Add k q) = wq_processing q"
    by (auto simp: wq_Add_def Let_def)
  show "wq_shuttingDown (wq_Add k q) = wq_shuttingDown q"
    by (auto simp: wq_Add_def Let_def)
  show "wq_inv q \<Longrightarrow> wq_Get q = Item k q' \<Longrightarrow>
      k \<in> wq_dirty q \<and> k \<notin> wq_processing q \<and> wq_dirty q' = wq_dirty q - {k}
      \<and> wq_processing q' = insert k (wq_processing q) \<and> wq_inv q' \<and> wq_shuttingDown q' = wq_shuttingDown q"
    by (rule wq_Get_Item)
  show "wq_inv q \<Longrightarrow> wq_Get q = Blocked \<Longrightarrow> wq_dirty q \<subseteq> wq_processing q"
    by (auto simp: wq_inv_def wq_Get_def split: list.splits if_splits)
  show "wq_inv q \<Longrightarrow> k \<in> wq_processing q \<Longrightarrow> wq_inv (wq_Done k q)"
    by (auto simp: wq_inv_def wq_Done_def Let_def)
  show "wq_dirty (wq_Done k q) = wq_dirty q"
    by (auto simp: wq_Done_def Let_def)
  show "wq_processing (wq_Done k q) = wq_processing q - {k}"
    by (auto simp: wq_Done_def Let_def)
  show "wq_shuttingDown (wq_Done k q) = wq_shuttingDown q"
    by (auto simp: wq_Done_def Let_def)
qed

lemma wq_inv_new: "wq_inv newQueue"
  by (simp add: wq_inv_def newQueue_def)

section \<open>Delays and retries\<close>

text \<open>
  The rate limited queue: the work queue, the entries that wait for their time (each item once),
  and the number of failures of each item. When an entry's time has come is a step of the environment
  here; the clock, the delays and the loop that waits for them are in \<open>DelayingQueue\<close>, which refines this.
\<close>

record 'k rlqueue =
  rl_q :: "'k wqueue"
  rl_waiting :: "'k list"
  rl_failures :: "'k \<Rightarrow> nat"

definition newRateLimitingQueue :: "'k rlqueue" where
  "newRateLimitingQueue = \<lparr> rl_q = newQueue, rl_waiting = [], rl_failures = (\<lambda>_. 0) \<rparr>"

definition rl_Add :: "'k \<Rightarrow> 'k rlqueue \<Rightarrow> 'k rlqueue" where
  "rl_Add k r = r\<lparr>rl_q := wq_Add k (rl_q r)\<rparr>"

definition rl_Done :: "'k \<Rightarrow> 'k rlqueue \<Rightarrow> 'k rlqueue" where
  "rl_Done k r = r\<lparr>rl_q := wq_Done k (rl_q r)\<rparr>"

text \<open>\<open>insert\<close> of the delaying queue: an item that already waits is not inserted again.\<close>

definition rl_AddAfter :: "'k \<Rightarrow> 'k rlqueue \<Rightarrow> 'k rlqueue" where
  "rl_AddAfter k r =
     (if wq_shuttingDown (rl_q r) then r
      else if k \<in> set (rl_waiting r) then r else r\<lparr>rl_waiting := rl_waiting r @ [k]\<rparr>)"

text \<open>\<open>When\<close> counts the failure before the delay is used.\<close>

definition rl_AddRateLimited :: "'k \<Rightarrow> 'k rlqueue \<Rightarrow> 'k rlqueue" where
  "rl_AddRateLimited k r = rl_AddAfter k (r\<lparr>rl_failures := (rl_failures r)(k := Suc (rl_failures r k))\<rparr>)"

definition rl_NumRequeues :: "'k rlqueue \<Rightarrow> 'k \<Rightarrow> nat" where
  "rl_NumRequeues r k = rl_failures r k"

definition rl_Forget :: "'k \<Rightarrow> 'k rlqueue \<Rightarrow> 'k rlqueue" where
  "rl_Forget k r = r\<lparr>rl_failures := (rl_failures r)(k := 0)\<rparr>"

text \<open>One entry's time has come: \<open>waitingLoop\<close> pops it and adds it, unless shutting down.\<close>

definition rl_Fire :: "'k \<Rightarrow> 'k rlqueue \<Rightarrow> 'k rlqueue" where
  "rl_Fire k r =
     (if wq_shuttingDown (rl_q r) \<or> k \<notin> set (rl_waiting r) then r
      else rl_Add k (r\<lparr>rl_waiting := removeAll k (rl_waiting r)\<rparr>))"

text \<open>
  What the time does to the queue: an entry fires; or an older entry of an item fires while a newer one
  is still on its way to \<open>waitingLoop\<close>, so that the item is added and goes on waiting.
\<close>

inductive rl_timer :: "'k rlqueue \<Rightarrow> 'k rlqueue \<Rightarrow> bool" where
  fires: "rl_timer r (rl_Fire k r)"
| fires_early: "k \<in> set (rl_waiting r) \<Longrightarrow> rl_timer r (rl_Add k r)"

definition rl_ShutDown :: "'k rlqueue \<Rightarrow> 'k rlqueue" where
  "rl_ShutDown r = r\<lparr>rl_q := wq_ShutDown (rl_q r)\<rparr>"

section \<open>syncqueue.SyncQueue\<close>

definition maxRetries :: nat where "maxRetries = 3"

text \<open>\<open>Enqueue\<close>, with the key already computed by the key function.\<close>

definition sq_Enqueue :: "'k \<Rightarrow> 'k rlqueue \<Rightarrow> 'k rlqueue" where
  "sq_Enqueue k r = (if wq_shuttingDown (rl_q r) then r else rl_Add k r)"

definition sq_handleSyncError :: "'e option \<Rightarrow> 'k \<Rightarrow> 'k rlqueue \<Rightarrow> 'k rlqueue" where
  "sq_handleSyncError err k r =
     (case err of
        None \<Rightarrow> rl_Forget k r
      | Some e \<Rightarrow> if rl_NumRequeues r k < maxRetries then rl_AddRateLimited k r else rl_Forget k r)"

text \<open>The end of \<open>processNextWorkItem\<close>: the handler's result, then the deferred \<open>Done\<close>.\<close>

definition sq_finish :: "'e option \<Rightarrow> 'k \<Rightarrow> 'k rlqueue \<Rightarrow> 'k rlqueue" where
  "sq_finish err k r = rl_Done k (sq_handleSyncError err k r)"

definition rl_inv :: "'k rlqueue \<Rightarrow> bool" where
  "rl_inv r \<longleftrightarrow> wq_inv (rl_q r) \<and> distinct (rl_waiting r) \<and> (\<forall>k. rl_failures r k \<le> maxRetries)"

lemma rl_inv_new: "rl_inv newRateLimitingQueue"
  by (simp add: rl_inv_def newRateLimitingQueue_def wq_inv_new)

lemma rl_inv_Enqueue: "rl_inv r \<Longrightarrow> rl_inv (sq_Enqueue k r)"
  by (simp add: rl_inv_def sq_Enqueue_def rl_Add_def wq.add_inv)

lemma rl_inv_Fire: "rl_inv r \<Longrightarrow> rl_inv (rl_Fire k r)"
  by (simp add: rl_inv_def rl_Fire_def rl_Add_def wq.add_inv distinct_removeAll)

lemma rl_inv_timer: "rl_timer r r' \<Longrightarrow> rl_inv r \<Longrightarrow> rl_inv r'"
  by (erule rl_timer.cases) (simp_all add: rl_inv_Fire, simp add: rl_inv_def rl_Add_def wq.add_inv)

lemma processing_timer: "rl_timer r r' \<Longrightarrow> wq_processing (rl_q r') = wq_processing (rl_q r)"
  by (erule rl_timer.cases) (simp_all add: rl_Fire_def rl_Add_def wq.add_busy)

lemma rl_inv_ShutDown: "rl_inv r \<Longrightarrow> rl_inv (rl_ShutDown r)"
  by (simp add: rl_inv_def rl_ShutDown_def wq_ShutDown_def wq_inv_def)

lemma rl_q_handleSyncError [simp]: "rl_q (sq_handleSyncError e k r) = rl_q r"
  by (simp add: sq_handleSyncError_def rl_Forget_def rl_AddRateLimited_def rl_AddAfter_def
      split: option.split)

lemma rl_inv_finish: "rl_inv r \<Longrightarrow> k \<in> wq_processing (rl_q r) \<Longrightarrow> rl_inv (sq_finish e k r)"
  by (auto simp: rl_inv_def sq_finish_def rl_Done_def wq.done_inv)
     (auto simp: sq_handleSyncError_def rl_Forget_def rl_AddRateLimited_def rl_AddAfter_def
       rl_NumRequeues_def maxRetries_def split: option.splits)

text \<open>A queue in use: what its users, its worker and the time do to it. An error is a text here.\<close>

inductive rl_op :: "'k rlqueue \<Rightarrow> 'k rlqueue \<Rightarrow> bool" where
  op_enqueue: "rl_op r (sq_Enqueue k r)"
| op_take: "wq_Get (rl_q r) = Item k q \<Longrightarrow> rl_op r (r\<lparr>rl_q := q\<rparr>)"
| op_finish: "k \<in> wq_processing (rl_q r) \<Longrightarrow> rl_op r (sq_finish (e :: string option) k r)"
| op_shutdown: "rl_op r (rl_ShutDown r)"
| op_timer: "rl_timer r r' \<Longrightarrow> rl_op r r'"

lemma rl_inv_op: "rl_op r r' \<Longrightarrow> rl_inv r \<Longrightarrow> rl_inv r'"
  by (erule rl_op.cases)
     (auto simp: rl_inv_Enqueue rl_inv_finish rl_inv_ShutDown rl_inv_timer, auto simp: rl_inv_def dest: wq_Get_Item)

text \<open>What a failed attempt leaves: another attempt is scheduled while fewer than three were.\<close>

lemma finish_failed_waiting:
  "\<not> wq_shuttingDown (rl_q r) \<Longrightarrow> rl_failures r k < maxRetries \<Longrightarrow>
     k \<in> set (rl_waiting (sq_finish (Some e) k r)) \<and>
     rl_failures (sq_finish (Some e) k r) k = Suc (rl_failures r k)"
  by (simp add: sq_finish_def sq_handleSyncError_def rl_Done_def rl_AddRateLimited_def
      rl_AddAfter_def rl_NumRequeues_def)

lemma finish_failed_dropped:
  "maxRetries \<le> rl_failures r k \<Longrightarrow>
     rl_waiting (sq_finish (Some e) k r) = rl_waiting r \<and> rl_failures (sq_finish (Some e) k r) k = 0"
  by (simp add: sq_finish_def sq_handleSyncError_def rl_Done_def rl_Forget_def rl_NumRequeues_def)

lemma finish_ok_forgets: "rl_failures (sq_finish None k r) k = 0"
  by (simp add: sq_finish_def sq_handleSyncError_def rl_Done_def rl_Forget_def)

text \<open>
  One attempt at an item that is the only one: its entry fires, a worker takes it, the handler
  fails or succeeds.
\<close>

definition attempt :: "'e option \<Rightarrow> 'k \<Rightarrow> 'k rlqueue \<Rightarrow> 'k rlqueue option" where
  "attempt err k r =
     (case wq_Get (rl_q (rl_Fire k r)) of
        Item k' q' \<Rightarrow> Some (sq_finish err k' ((rl_Fire k r)\<lparr>rl_q := q'\<rparr>))
      | _ \<Rightarrow> None)"

fun attempts :: "'e option list \<Rightarrow> 'k \<Rightarrow> 'k rlqueue \<Rightarrow> 'k rlqueue option" where
  "attempts [] k r = Some r"
| "attempts (e # es) k r = (case attempt e k r of None \<Rightarrow> None | Some r' \<Rightarrow> attempts es k r')"

end
