(* ===== verification/Controller.thy ===== *)
theory Controller
  imports ObjHeap WorkQueue
begin

text \<open>
  \<open>core/provider/controller.go\<close> and \<open>types.go\<close>: the generic controller around a provider. Event
  handlers of the informers put the key of the watched LoadBalancer into the work queue, one
  worker takes keys out and calls \<open>OnUpdate\<close> of the provider, and \<open>Stop\<close> ends everything once.
  The interface \<open>Provider\<close> is the record \<open>backend\<close>; what the controller keeps of any provider is
  the locale \<open>provider_backend\<close>, which every provider of the development interprets; a provider whose
  updates never panic is an instance of \<open>provider_total\<close>, and then the worker never gets stuck.
\<close>

section \<open>State\<close>

text \<open>\<open>Provider\<close>: its methods as functions of the listers, the provider's state and the heap.\<close>

type_synonym 'b bstate = "'b \<times> lb_heap"

record 'b backend =
  be_OnUpdate :: "store_lister \<Rightarrow> nat \<Rightarrow> ('b bstate, go_error, unit) prog"
  be_Start :: "('b bstate, go_error, unit) prog"
  be_WaitForStart :: "'b \<Rightarrow> bool"
  be_Stop :: "store_lister \<Rightarrow> ('b bstate, go_error, unit) prog"

text \<open>\<open>Configuration\<close>.\<close>

record lb_config =
  cfg_LoadBalancerName :: string
  cfg_LoadBalancerNamespace :: string
  cfg_TCPConfigMap :: string
  cfg_UDPConfigMap :: string

text \<open>\<open>GenericProvider\<close>, with the informers' stores and the provider it drives.\<close>

record 'b ctl =
  ct_cfg :: lb_config
  ct_queue :: "string rlqueue"
  ct_lister :: store_lister
  ct_heap :: lb_heap
  ct_back :: 'b
  ct_shutdown :: bool
  ct_stopClosed :: bool
  ct_running :: bool

definition NewLoadBalancerProvider :: "lb_config \<Rightarrow> store_lister \<Rightarrow> lb_heap \<Rightarrow> 'b \<Rightarrow> 'b ctl" where
  "NewLoadBalancerProvider cfg L h b =
     \<lparr> ct_cfg = cfg, ct_queue = newRateLimitingQueue, ct_lister = L, ct_heap = h, ct_back = b,
       ct_shutdown = False, ct_stopClosed = False, ct_running = False \<rparr>"

section \<open>Keys\<close>

text \<open>\<open>cache.MetaNamespaceKeyFunc\<close> and \<open>cache.SplitMetaNamespaceKey\<close>.\<close>

definition meta_key :: "string \<Rightarrow> string \<Rightarrow> string" where
  "meta_key ns name = (if ns \<noteq> [] then ns @ CHR ''/'' # name else name)"

definition explicit_key :: "lb_config \<Rightarrow> string" where
  "explicit_key cfg = cfg_LoadBalancerNamespace cfg @ CHR ''/'' # cfg_LoadBalancerName cfg"

definition SplitMetaNamespaceKey :: "string \<Rightarrow> go_error + string \<times> string" where
  "SplitMetaNamespaceKey key =
     (case split_on (CHR ''/'') key of
        [n] \<Rightarrow> Inr ([], n)
      | [ns, n] \<Rightarrow> Inr (ns, n)
      | _ \<Rightarrow> Inl (Errorf ''unexpected key format''))"

section \<open>Event handlers\<close>

definition filterLoadBalancer :: "lb_config \<Rightarrow> load_balancer \<Rightarrow> bool" where
  "filterLoadBalancer cfg lb =
     (\<not> (lb_Namespace lb = cfg_LoadBalancerNamespace cfg \<and> lb_Name lb = cfg_LoadBalancerName cfg))"

definition filterConfigMap :: "lb_config \<Rightarrow> config_map \<Rightarrow> bool" where
  "filterConfigMap cfg cm =
     (\<not> (cm_Namespace cm = cfg_LoadBalancerNamespace cfg
         \<and> (cm_Name cm = cfg_TCPConfigMap cfg \<or> cm_Name cm = cfg_UDPConfigMap cfg)))"

definition enqueue_lb :: "load_balancer \<Rightarrow> 'b ctl \<Rightarrow> 'b ctl" where
  "enqueue_lb lb s = s\<lparr>ct_queue := sq_Enqueue (meta_key (lb_Namespace lb) (lb_Name lb)) (ct_queue s)\<rparr>"

definition addLoadBalancer :: "load_balancer \<Rightarrow> 'b ctl \<Rightarrow> 'b ctl" where
  "addLoadBalancer lb s = (if filterLoadBalancer (ct_cfg s) lb then s else enqueue_lb lb s)"

definition updateLoadBalancer :: "load_balancer \<Rightarrow> load_balancer \<Rightarrow> 'b ctl \<Rightarrow> 'b ctl" where
  "updateLoadBalancer old cur s =
     (if lb_ResourceVersion old = lb_ResourceVersion cur then s
      else if filterLoadBalancer (ct_cfg s) cur then s
      else enqueue_lb cur s)"

text \<open>
  What a delete event carries: the object, a tombstone with the last known object or something
  else in it, or something else altogether.
\<close>

datatype deleted = DelObject load_balancer | DelTombstone string "load_balancer option" | DelOther

definition deleteLoadBalancer :: "deleted \<Rightarrow> 'b ctl \<Rightarrow> 'b ctl" where
  "deleteLoadBalancer obj s =
     (case (case obj of DelObject lb \<Rightarrow> Some lb | DelTombstone k olb \<Rightarrow> olb | DelOther \<Rightarrow> None) of
        None \<Rightarrow> s
      | Some lb \<Rightarrow> if filterLoadBalancer (ct_cfg s) lb then s else enqueue_lb lb s)"

definition updateConfigMap :: "config_map \<Rightarrow> config_map \<Rightarrow> 'b ctl \<Rightarrow> 'b ctl" where
  "updateConfigMap old cur s =
     (if cm_ResourceVersion old = cm_ResourceVersion cur then s
      else if filterConfigMap (ct_cfg s) cur then s
      else s\<lparr>ct_queue := sq_Enqueue (explicit_key (ct_cfg s)) (ct_queue s)\<rparr>)"

section \<open>The sync handler\<close>

text \<open>Calling a method of the provider on the controller's state.\<close>

definition with_backend :: "('b bstate, go_error, unit) prog \<Rightarrow> ('b ctl, go_error, unit) prog" where
  "with_backend m s =
     (case m (ct_back s, ct_heap s) of
        (r, (b, h)) \<Rightarrow> (r, s\<lparr>ct_back := b, ct_heap := h\<rparr>))"

text \<open>The right config maps are cached once, from the first resource that names them.\<close>

definition cache_config_maps :: "load_balancer \<Rightarrow> lb_config \<Rightarrow> lb_config" where
  "cache_config_maps lb cfg =
     (let c1 = (if cfg_TCPConfigMap cfg = [] then cfg\<lparr>cfg_TCPConfigMap := lb_TCPConfigMap lb\<rparr> else cfg)
      in if cfg_UDPConfigMap c1 = [] then c1\<lparr>cfg_UDPConfigMap := lb_UDPConfigMap lb\<rparr> else c1)"

definition syncLoadBalancer :: "'b backend \<Rightarrow> string \<Rightarrow> ('b ctl, go_error, unit) prog" where
  "syncLoadBalancer be key s =
     (case SplitMetaNamespaceKey key of
        Inl e \<Rightarrow> (Inl e, s)
      | Inr (ns, name) \<Rightarrow>
         (case lookup_err (sl_LoadBalancer (ct_lister s) ns name) of
            Inl KubeNotFound \<Rightarrow> (Inr (), s)
          | Inl e \<Rightarrow> (Inl e, s)
          | Inr a \<Rightarrow>
             (case hp_obj (ct_heap s) a of
                None \<Rightarrow> (Inl (Panic (NilDereference ''lb'')), s)
              | Some lb \<Rightarrow>
                 (case validateLoadBalancer lb of
                    Some e \<Rightarrow> (Inl (Errorf ''invalid loadbalancer scheme''), s)
                  | None \<Rightarrow>
                     with_backend (be_OnUpdate be (ct_lister s) a)
                       (s\<lparr>ct_cfg := cache_config_maps lb (ct_cfg s)\<rparr>)))))"

section \<open>Start and Stop\<close>

text \<open>\<open>Start\<close> up to the wait for \<open>stopCh\<close>: the worker runs when the provider says it started.\<close>

definition Start :: "'b backend \<Rightarrow> ('b ctl, go_error, unit) prog" where
  "Start be = seqE (with_backend (be_Start be))
     (\<lambda>_ s. (Inr (), if be_WaitForStart be (ct_back s) then s\<lparr>ct_running := True\<rparr> else s))"

text \<open>
  \<open>Stop\<close>: the channel is closed, the provider stopped (its error is ignored, a panic is not) and
  the queue shut down, the first time only.
\<close>

definition close_stopCh :: "('b ctl, go_error, unit) prog" where
  "close_stopCh s =
     (if ct_stopClosed s then (Inl (Panic CloseOfClosedChannel), s)
      else (Inr (), s\<lparr>ct_stopClosed := True\<rparr>))"

definition Stop :: "'b backend \<Rightarrow> ('b ctl, go_error, unit) prog" where
  "Stop be s =
     (if \<not> ct_shutdown s then
        seqE close_stopCh
          (\<lambda>_. seqE (\<lambda>s. ignoreE (with_backend (be_Stop be (ct_lister s))) s)
            (\<lambda>_ s. (Inr (), s\<lparr>ct_queue := rl_ShutDown (ct_queue s)\<rparr>)))
          (s\<lparr>ct_shutdown := True\<rparr>)
      else (Inl (Errorf ''shutdown already in progress''), s))"

section \<open>Steps\<close>

text \<open>
  What can happen to a running controller: its work goes on (an event is delivered, the informers
  change their stores, an entry of the delaying queue fires, the single worker takes a key or
  finishes the one it has), or \<open>Start\<close> or \<open>Stop\<close> is called. A panic ends the process, so a step that
  panics is no step.
\<close>

definition sync_result :: "go_error + unit \<Rightarrow> go_error option" where
  "sync_result r = (case r of Inl e \<Rightarrow> Some e | Inr _ \<Rightarrow> None)"

inductive ctl_work :: "'b backend \<Rightarrow> 'b ctl \<Rightarrow> 'b ctl \<Rightarrow> bool" for be :: "'b backend" where
  ev_add: "ctl_work be s (addLoadBalancer lb s)"
| ev_update: "ctl_work be s (updateLoadBalancer old cur s)"
| ev_delete: "ctl_work be s (deleteLoadBalancer obj s)"
| ev_config_map: "ctl_work be s (updateConfigMap old_cm cur_cm s)"
| store: "heap_extends (ct_heap s) h \<Longrightarrow> ctl_work be s (s\<lparr>ct_lister := L, ct_heap := h\<rparr>)"
| fire: "rl_timer (ct_queue s) q \<Longrightarrow> ctl_work be s (s\<lparr>ct_queue := q\<rparr>)"
| take_key: "ct_running s \<Longrightarrow> wq_processing (rl_q (ct_queue s)) = {} \<Longrightarrow>
     wq_Get (rl_q (ct_queue s)) = Item k q \<Longrightarrow>
     ctl_work be s (s\<lparr>ct_queue := (ct_queue s)\<lparr>rl_q := q\<rparr>\<rparr>)"
| finish: "k \<in> wq_processing (rl_q (ct_queue s)) \<Longrightarrow> syncLoadBalancer be k s = (r, s') \<Longrightarrow>
     \<forall>e. r = Inl e \<longrightarrow> \<not> is_panic e \<Longrightarrow>
     ctl_work be s (s'\<lparr>ct_queue := sq_finish (sync_result r) k (ct_queue s')\<rparr>)"

inductive ctl_step :: "'b backend \<Rightarrow> 'b ctl \<Rightarrow> 'b ctl \<Rightarrow> bool" for be :: "'b backend" where
  work: "ctl_work be s s' \<Longrightarrow> ctl_step be s s'"
| start: "Start be s = (Inr u, s') \<Longrightarrow> ctl_step be s s'"
| stop: "Stop be s = (r, s') \<Longrightarrow> \<forall>e. r = Inl e \<longrightarrow> \<not> is_panic e \<Longrightarrow> ctl_step be s s'"

inductive ctl_reach :: "'b backend \<Rightarrow> 'b ctl \<Rightarrow> 'b ctl \<Rightarrow> bool" for be :: "'b backend" and s0 where
  reach_start: "ctl_reach be s0 s0"
| reach_step: "ctl_reach be s0 s \<Longrightarrow> ctl_step be s s' \<Longrightarrow> ctl_reach be s0 s'"

section \<open>Keys round trip\<close>

lemma split_meta_key:
  "CHR ''/'' \<notin> set ns \<Longrightarrow> CHR ''/'' \<notin> set name \<Longrightarrow> SplitMetaNamespaceKey (meta_key ns name) = Inr (ns, name)"
  by (simp add: SplitMetaNamespaceKey_def meta_key_def split_on_sep split_on_no_sep)

lemma split_explicit_key:
  "CHR ''/'' \<notin> set (cfg_LoadBalancerNamespace cfg) \<Longrightarrow> CHR ''/'' \<notin> set (cfg_LoadBalancerName cfg) \<Longrightarrow>
     SplitMetaNamespaceKey (explicit_key cfg) = Inr (cfg_LoadBalancerNamespace cfg, cfg_LoadBalancerName cfg)"
  by (simp add: SplitMetaNamespaceKey_def explicit_key_def split_on_sep split_on_no_sep)

section \<open>What the handlers keep\<close>

text \<open>The names of the watched LoadBalancer never change.\<close>

definition same_lb :: "lb_config \<Rightarrow> lb_config \<Rightarrow> bool" where
  "same_lb c c' \<longleftrightarrow> cfg_LoadBalancerNamespace c' = cfg_LoadBalancerNamespace c
     \<and> cfg_LoadBalancerName c' = cfg_LoadBalancerName c"

lemma same_lb_refl [simp]: "same_lb c c"
  by (simp add: same_lb_def)

lemma cache_config_maps_keeps [simp]:
  "same_lb c (cache_config_maps lb c)"
  by (simp add: cache_config_maps_def Let_def same_lb_def)

text \<open>All keys the queue knows of.\<close>

definition queue_keys :: "string rlqueue \<Rightarrow> string set" where
  "queue_keys r = set (wq_queue (rl_q r)) \<union> wq_dirty (rl_q r) \<union> wq_processing (rl_q r)
     \<union> set (rl_waiting r)"

definition watched_keys :: "lb_config \<Rightarrow> string set" where
  "watched_keys cfg =
     {meta_key (cfg_LoadBalancerNamespace cfg) (cfg_LoadBalancerName cfg), explicit_key cfg}"

lemma queue_keys_Enqueue: "queue_keys (sq_Enqueue k r) \<subseteq> insert k (queue_keys r)"
  by (auto simp: queue_keys_def sq_Enqueue_def rl_Add_def wq_Add_def Let_def)

lemma queue_keys_timer: "rl_timer r r' \<Longrightarrow> queue_keys r' \<subseteq> queue_keys r"
  by (erule rl_timer.cases) (auto simp: queue_keys_def rl_Fire_def rl_Add_def wq_Add_def Let_def)

lemma queue_keys_ShutDown [simp]: "queue_keys (rl_ShutDown r) = queue_keys r"
  by (simp add: queue_keys_def rl_ShutDown_def wq_ShutDown_def)

lemma queue_keys_Get:
  "wq_Get (rl_q r) = Item k q \<Longrightarrow> queue_keys (r\<lparr>rl_q := q\<rparr>) \<subseteq> queue_keys r"
  by (auto simp: queue_keys_def wq_Get_def split: list.splits if_splits)

lemma queue_keys_finish: "queue_keys (sq_finish e k r) \<subseteq> insert k (queue_keys r)"
  by (auto simp: queue_keys_def sq_finish_def rl_Done_def wq_Done_def Let_def sq_handleSyncError_def
      rl_Forget_def rl_AddRateLimited_def rl_AddAfter_def split: option.splits if_splits)

lemma watched_keys_same: "same_lb c c' \<Longrightarrow> watched_keys c' = watched_keys c"
  by (simp add: same_lb_def watched_keys_def explicit_key_def)

lemma with_backend_frame:
  "with_backend m s = (r, s') \<Longrightarrow>
     ct_cfg s' = ct_cfg s \<and> ct_queue s' = ct_queue s \<and> ct_lister s' = ct_lister s
     \<and> ct_shutdown s' = ct_shutdown s \<and> ct_stopClosed s' = ct_stopClosed s \<and> ct_running s' = ct_running s"
  by (auto simp: with_backend_def split: prod.splits)

lemma sync_frame:
  "syncLoadBalancer be k s = (r, s') \<Longrightarrow>
     same_lb (ct_cfg s) (ct_cfg s') \<and> ct_queue s' = ct_queue s
     \<and> ct_shutdown s' = ct_shutdown s \<and> ct_stopClosed s' = ct_stopClosed s"
  by (auto simp: syncLoadBalancer_def dest!: with_backend_frame
      split: sum.splits prod.splits go_error.splits option.splits)

text \<open>
  What \<open>Stop\<close> leaves, in one fact: closed exactly once, and the second call changes nothing.
\<close>

lemma Stop_second: "ct_shutdown s \<Longrightarrow> Stop be s = (Inl (Errorf ''shutdown already in progress''), s)"
  by (simp add: Stop_def)

lemma Stop_first:
  assumes "\<not> ct_shutdown s" "\<not> ct_stopClosed s" "Stop be s = (r, s')"
  shows "ct_shutdown s' \<and> ct_stopClosed s' \<and> same_lb (ct_cfg s) (ct_cfg s') \<and> ct_cfg s' = ct_cfg s
    \<and> (ct_queue s' = ct_queue s \<or> ct_queue s' = rl_ShutDown (ct_queue s))
    \<and> (case r of Inl e \<Rightarrow> is_panic e | Inr _ \<Rightarrow> ct_queue s' = rl_ShutDown (ct_queue s))"
  using assms
  by (auto simp: Stop_def seqE_def close_stopCh_def ignoreE_def
      dest!: with_backend_frame split: prod.splits sum.splits if_splits)

lemma Start_frame:
  "Start be s = (r, s') \<Longrightarrow> ct_cfg s' = ct_cfg s \<and> ct_queue s' = ct_queue s
     \<and> ct_shutdown s' = ct_shutdown s \<and> ct_stopClosed s' = ct_stopClosed s"
  by (auto simp: Start_def seqE_def dest!: with_backend_frame split: prod.splits sum.splits if_splits)

section \<open>The controller's invariant\<close>

definition at_most_one :: "string set \<Rightarrow> bool" where
  "at_most_one A \<longleftrightarrow> (\<exists>k. A \<subseteq> {k})"

lemma at_most_one_intros [simp]: "at_most_one {}" "at_most_one {k}" "at_most_one A \<Longrightarrow> at_most_one (A - B)"
  by (auto simp: at_most_one_def)

definition ctl_inv :: "lb_config \<Rightarrow> 'b ctl \<Rightarrow> bool" where
  "ctl_inv cfg s \<longleftrightarrow> same_lb cfg (ct_cfg s) \<and> queue_keys (ct_queue s) \<subseteq> watched_keys cfg
     \<and> rl_inv (ct_queue s) \<and> ct_stopClosed s = ct_shutdown s
     \<and> at_most_one (wq_processing (rl_q (ct_queue s)))"

lemma ctl_inv_init: "ctl_inv cfg (NewLoadBalancerProvider cfg L h b)"
  by (simp add: ctl_inv_def NewLoadBalancerProvider_def rl_inv_new queue_keys_def
      newRateLimitingQueue_def newQueue_def)
     (simp add: rl_inv_new [unfolded newRateLimitingQueue_def newQueue_def])

lemma processing_Enqueue: "wq_processing (rl_q (sq_Enqueue k r)) = wq_processing (rl_q r)"
  by (simp add: sq_Enqueue_def rl_Add_def wq.add_busy)

lemma ctl_inv_enqueue:
  "ctl_inv cfg s \<Longrightarrow> k \<in> watched_keys cfg \<Longrightarrow> ctl_inv cfg (s\<lparr>ct_queue := sq_Enqueue k (ct_queue s)\<rparr>)"
  using queue_keys_Enqueue [of k "ct_queue s"] rl_inv_Enqueue [of "ct_queue s" k]
  by (auto simp: ctl_inv_def processing_Enqueue)

lemma filter_watched:
  "same_lb cfg c \<Longrightarrow> \<not> filterLoadBalancer c lb \<Longrightarrow> meta_key (lb_Namespace lb) (lb_Name lb) \<in> watched_keys cfg"
  by (simp add: filterLoadBalancer_def watched_keys_def same_lb_def)

lemma ctl_inv_enqueue_lb:
  "ctl_inv cfg s \<Longrightarrow> \<not> filterLoadBalancer (ct_cfg s) lb \<Longrightarrow> ctl_inv cfg (enqueue_lb lb s)"
  unfolding enqueue_lb_def
  by (rule ctl_inv_enqueue) (auto simp: ctl_inv_def intro: filter_watched)

lemma ctl_inv_handlers:
  assumes "ctl_inv cfg s"
  shows "ctl_inv cfg (addLoadBalancer lb s)" "ctl_inv cfg (updateLoadBalancer old cur s)"
    "ctl_inv cfg (deleteLoadBalancer obj s)" "ctl_inv cfg (updateConfigMap old_cm cur_cm s)"
proof -
  have "explicit_key (ct_cfg s) \<in> watched_keys cfg"
    using assms by (simp add: ctl_inv_def watched_keys_def same_lb_def explicit_key_def)
  then show "ctl_inv cfg (updateConfigMap old_cm cur_cm s)"
    using assms by (simp add: updateConfigMap_def ctl_inv_enqueue)
qed (use assms in \<open>simp_all add: addLoadBalancer_def updateLoadBalancer_def deleteLoadBalancer_def
       ctl_inv_enqueue_lb split: option.split\<close>)

lemma processing_finish: "wq_processing (rl_q (sq_finish e k r)) = wq_processing (rl_q r) - {k}"
  by (simp add: sq_finish_def rl_Done_def wq.done_busy)

lemma ctl_inv_work:
  assumes step: "ctl_work be s s'" and inv: "ctl_inv cfg s"
  shows "ctl_inv cfg s'"
  using step
proof cases
  case (store h L)
  then show ?thesis using inv by (simp add: ctl_inv_def)
next
  case (fire q)
  then show ?thesis using inv queue_keys_timer [OF fire(2)] rl_inv_timer [OF fire(2)] processing_timer [OF fire(2)]
    by (auto simp: ctl_inv_def)
next
  case (take_key k q)
  have "wq_inv (rl_q (ct_queue s))" using inv by (simp add: ctl_inv_def rl_inv_def)
  note g = wq_Get_Item [OF this take_key(4)]
  then show ?thesis using take_key inv queue_keys_Get [OF take_key(4)]
    by (auto simp: ctl_inv_def rl_inv_def)
next
  case (finish k r s1)
  note fr = sync_frame [OF finish(3)]
  have "k \<in> queue_keys (ct_queue s)" using finish(2) by (simp add: queue_keys_def)
  then have "queue_keys (sq_finish (sync_result r) k (ct_queue s)) \<subseteq> watched_keys cfg"
    using queue_keys_finish [of "sync_result r" k "ct_queue s"] inv by (auto simp: ctl_inv_def)
  moreover have "rl_inv (sq_finish (sync_result r) k (ct_queue s))"
    using inv finish(2) by (intro rl_inv_finish) (auto simp: ctl_inv_def)
  ultimately show ?thesis using finish(1) fr inv
    by (auto simp: ctl_inv_def same_lb_def processing_finish)
qed (use inv ctl_inv_handlers in simp_all)

lemma ctl_inv_step:
  assumes step: "ctl_step be s s'" and inv: "ctl_inv cfg s"
  shows "ctl_inv cfg s'"
  using step
proof cases
  case work
  then show ?thesis using inv by (rule ctl_inv_work)
next
  case (start u)
  then show ?thesis using inv Start_frame by (fastforce simp: ctl_inv_def)
next
  case (stop r)
  show ?thesis
  proof (cases "ct_shutdown s")
    case True
    then show ?thesis using stop inv by (simp add: Stop_second)
  next
    case False
    then have "\<not> ct_stopClosed s" using inv by (simp add: ctl_inv_def)
    note Stop_first [OF False this stop(1)]
    then show ?thesis using inv rl_inv_ShutDown
      by (auto simp: ctl_inv_def rl_ShutDown_def wq_ShutDown_def queue_keys_def)
  qed
qed

lemma ctl_inv_reach: "ctl_reach be s0 s \<Longrightarrow> ctl_inv cfg s0 \<Longrightarrow> ctl_inv cfg s"
  by (induction rule: ctl_reach.induct) (auto intro: ctl_inv_step)

section \<open>Driving a provider\<close>

text \<open>
  The contract of a provider, in two parts. While the controller works, it only calls \<open>OnUpdate\<close>,
  for a resource that passed validation: a \<open>provider_worker\<close> has an invariant over its state and the
  shared objects that \<open>OnUpdate\<close> keeps and that other parties' allocations do not break. A
  \<open>provider_backend\<close> keeps its invariant when it is started and stopped, too. The client lemmas: the
  invariant holds whenever the controller runs the provider.
\<close>

locale provider_worker =
  fixes be :: "'b backend" and binv :: "'b bstate \<Rightarrow> bool"
  assumes onUpdate_inv: "binv s \<Longrightarrow> hp_obj (snd s) a = Some lb \<Longrightarrow> validateLoadBalancer lb = None \<Longrightarrow>
            binv (snd (be_OnUpdate be L a s))"
    and extend_inv: "binv (b, h) \<Longrightarrow> heap_extends h h' \<Longrightarrow> binv (b, h')"
begin

definition ctl_binv :: "'b ctl \<Rightarrow> bool" where
  "ctl_binv s \<longleftrightarrow> binv (ct_back s, ct_heap s)"

lemma with_backend_binv:
  "binv (snd (m (ct_back s, ct_heap s))) \<Longrightarrow> with_backend m s = (r, s') \<Longrightarrow> ctl_binv s'"
  by (auto simp: with_backend_def ctl_binv_def split: prod.splits)

lemma sync_binv:
  assumes "syncLoadBalancer be k s = (r, s')" "ctl_binv s"
  shows "ctl_binv s'"
proof -
  have "s' = s \<or> (\<exists>a lb c. hp_obj (ct_heap s) a = Some lb \<and> validateLoadBalancer lb = None
      \<and> with_backend (be_OnUpdate be (ct_lister s) a) (s\<lparr>ct_cfg := c\<rparr>) = (r, s'))"
    using assms(1) unfolding syncLoadBalancer_def
    by (simp split: sum.splits prod.splits go_error.splits option.splits) blast+
  then show ?thesis
  proof (elim disjE exE conjE)
    fix a lb c
    assume ok: "hp_obj (ct_heap s) a = Some lb" "validateLoadBalancer lb = None"
      and run: "with_backend (be_OnUpdate be (ct_lister s) a) (s\<lparr>ct_cfg := c\<rparr>) = (r, s')"
    have "binv (snd (be_OnUpdate be (ct_lister s) a (ct_back s, ct_heap s)))"
      by (rule onUpdate_inv) (use assms(2) ok in \<open>simp_all add: ctl_binv_def\<close>)
    then show ?thesis using with_backend_binv [OF _ run] by simp
  qed (use assms(2) in simp)
qed

lemma handlers_back:
  "ct_back (addLoadBalancer lb s) = ct_back s" "ct_heap (addLoadBalancer lb s) = ct_heap s"
  "ct_back (updateLoadBalancer old cur s) = ct_back s" "ct_heap (updateLoadBalancer old cur s) = ct_heap s"
  "ct_back (deleteLoadBalancer obj s) = ct_back s" "ct_heap (deleteLoadBalancer obj s) = ct_heap s"
  "ct_back (updateConfigMap o1 c1 s) = ct_back s" "ct_heap (updateConfigMap o1 c1 s) = ct_heap s"
  by (simp_all add: addLoadBalancer_def updateLoadBalancer_def deleteLoadBalancer_def
      updateConfigMap_def enqueue_lb_def split: option.split)

lemma work_binv: "ctl_work be s s' \<Longrightarrow> ctl_binv s \<Longrightarrow> ctl_binv s'"
proof (induction rule: ctl_work.induct)
  case (store s h L)
  then show ?case using extend_inv by (simp add: ctl_binv_def)
next
  case (finish k s r s')
  then have "ctl_binv s'" using sync_binv by blast
  then show ?case by (simp add: ctl_binv_def)
qed (simp_all add: ctl_binv_def handlers_back)

end

text \<open>
  A \<open>provider_total\<close> does not panic either: then the worker is never stuck, it can finish every key it
  has taken, as long as the informers' stores hand out objects that exist.
\<close>

definition store_ok :: "store_lister \<Rightarrow> lb_heap \<Rightarrow> bool" where
  "store_ok L h \<longleftrightarrow> (\<forall>ns n a. sl_LoadBalancer L ns n = Found a \<longrightarrow> hp_obj h a \<noteq> None)"

locale provider_total = provider_worker be binv for be :: "'b backend" and binv :: "'b bstate \<Rightarrow> bool" +
  assumes onUpdate_total: "binv s \<Longrightarrow> hp_obj (snd s) a = Some lb \<Longrightarrow> validateLoadBalancer lb = None \<Longrightarrow>
            be_OnUpdate be L a s = (Inl e, s') \<Longrightarrow> \<not> is_panic e"
begin

lemma sync_total:
  assumes "ctl_binv s" "store_ok (ct_lister s) (ct_heap s)" "syncLoadBalancer be k s = (Inl e, s')"
  shows "\<not> is_panic e"
proof -
  have update: "\<not> is_panic e"
    if "hp_obj (ct_heap s) a = Some lb" "validateLoadBalancer lb = None"
      and run: "with_backend (be_OnUpdate be (ct_lister s) a) (s\<lparr>ct_cfg := c\<rparr>) = (Inl e, s')" for a lb c
  proof -
    obtain t where "be_OnUpdate be (ct_lister s) a (ct_back s, ct_heap s) = (Inl e, t)"
      using run by (auto simp: with_backend_def split: prod.splits)
    then show ?thesis using onUpdate_total that(1,2) assms(1) by (fastforce simp: ctl_binv_def)
  qed
  show ?thesis
  proof (cases "SplitMetaNamespaceKey k")
    case (Inl e')
    then show ?thesis using assms(3) by (auto simp: syncLoadBalancer_def SplitMetaNamespaceKey_def split: list.splits)
  next
    case (Inr x)
    obtain ns name where key: "SplitMetaNamespaceKey k = Inr (ns, name)" using Inr by (cases x) simp
    show ?thesis
    proof (cases "sl_LoadBalancer (ct_lister s) ns name")
      case (Found a)
      then obtain lb where lb: "hp_obj (ct_heap s) a = Some lb" using assms(2) by (fastforce simp: store_ok_def)
      show ?thesis
        using assms(3) update [OF lb]
        by (auto simp: syncLoadBalancer_def key Found lb split: option.splits)
    qed (use assms(3) in \<open>auto simp: syncLoadBalancer_def key\<close>)
  qed
qed

lemma finish_enabled:
  assumes "ctl_binv s" "store_ok (ct_lister s) (ct_heap s)" "k \<in> wq_processing (rl_q (ct_queue s))"
  shows "\<exists>s'. ctl_work be s s' \<and> wq_processing (rl_q (ct_queue s')) = wq_processing (rl_q (ct_queue s)) - {k}"
proof -
  obtain r s1 where run: "syncLoadBalancer be k s = (r, s1)" by fastforce
  have "\<forall>e. r = Inl e \<longrightarrow> \<not> is_panic e" using sync_total [OF assms(1,2)] run by blast
  from ctl_work.finish [OF assms(3) run this] sync_frame [OF run] show ?thesis
    by (auto simp: processing_finish)
qed

end

locale provider_backend = provider_worker be binv for be :: "'b backend" and binv :: "'b bstate \<Rightarrow> bool" +
  assumes start_inv: "binv s \<Longrightarrow> binv (snd (be_Start be s))"
    and stop_inv: "binv s \<Longrightarrow> binv (snd (be_Stop be L s))"
begin

lemma Stop_binv:
  assumes "Stop be s = (r, s')" "ctl_binv s"
  shows "ctl_binv s'"
proof -
  obtain q b h where run: "be_Stop be (ct_lister s) (ct_back s, ct_heap s) = (q, b, h)"
    by (rule prod_cases3)
  have "binv (b, h)" using stop_inv assms(2) run unfolding ctl_binv_def by (metis snd_conv)
  then show ?thesis using assms run
    by (simp add: Stop_def seqE_def close_stopCh_def ignoreE_def with_backend_def ctl_binv_def
        split: sum.splits if_splits) auto
qed

lemma Start_binv:
  assumes "Start be s = (r, s')" "ctl_binv s"
  shows "ctl_binv s'"
proof -
  obtain q b h where run: "be_Start be (ct_back s, ct_heap s) = (q, b, h)"
    by (rule prod_cases3)
  have "binv (b, h)" using start_inv assms(2) run unfolding ctl_binv_def by (metis snd_conv)
  then show ?thesis using assms run
    by (simp add: Start_def seqE_def with_backend_def ctl_binv_def split: sum.splits if_splits) auto
qed

lemma step_binv: "ctl_step be s s' \<Longrightarrow> ctl_binv s \<Longrightarrow> ctl_binv s'"
  by (induction rule: ctl_step.induct) (blast intro: work_binv Start_binv Stop_binv)+

lemma reach_binv:
  "ctl_reach be s0 s \<Longrightarrow> binv (ct_back s0, ct_heap s0) \<Longrightarrow> binv (ct_back s, ct_heap s)"
proof (induction rule: ctl_reach.induct)
  case reach_start
  then show ?case by simp
next
  case (reach_step s s')
  then show ?case using step_binv unfolding ctl_binv_def by blast
qed

end

end
