(* ===== verification/NodeNetwork.thy ===== *)
theory NodeNetwork
  imports LBTypes Errors
begin

text \<open>
  \<open>providers/ipvsdr/util.go\<close> and \<open>nodenetwork.go\<close>: VRRP priorities, the addresses of a
  Kubernetes node, which interfaces of the host a bind selects, and which interface and address
  of a node a keepalived instance uses.
\<close>

section \<open>Priorities\<close>

fun pos_from :: "int \<Rightarrow> string list \<Rightarrow> string \<Rightarrow> int" where
  "pos_from p [] x = -1"
| "pos_from p (v # vs) x = (if v = x then p else pos_from (p + 1) vs x)"

definition pos :: "string list \<Rightarrow> string \<Rightarrow> int" where
  "pos nodes x = pos_from 0 nodes x"

definition getNodePriority :: "string \<Rightarrow> string list \<Rightarrow> int" where
  "getNodePriority node nodes = 100 + pos nodes node * 60"

section \<open>Addresses of a node\<close>

definition ipv4Version :: string where "ipv4Version = ''4''"
definition ipv6Version :: string where "ipv6Version = ''6''"

text \<open>A \<open>net.IP\<close> that may be nil.\<close>

definition getIPVersion :: "ip option \<Rightarrow> string" where
  "getIPVersion ip =
     (case ip of None \<Rightarrow> ''unknown''
      | Some a \<Rightarrow> if ip_to4 a \<noteq> None then ipv4Version
                  else if ip_to16 a \<noteq> None then ipv6Version else ''unknown'')"

fun first_parsed :: "string list \<Rightarrow> ip option" where
  "first_parsed [] = None"
| "first_parsed (s # ss) = (case parseIP s of Some ip \<Rightarrow> Some ip | None \<Rightarrow> first_parsed ss)"

definition getK8sNodeIP :: "k8s_node \<Rightarrow> go_error + ip" where
  "getK8sNodeIP node =
     (let of_type = (\<lambda>t. map snd (filter (\<lambda>a. fst a = t) (kn_Addresses node)))
      in case first_parsed (of_type NodeExternalIP) of
           Some ip \<Rightarrow> Inr ip
         | None \<Rightarrow> (case first_parsed (of_type NodeInternalIP) of
               Some ip \<Rightarrow> Inr ip
             | None \<Rightarrow> Inl (Errorf ''host IP unknown'')))"

definition getIPFromMap :: "gomap \<Rightarrow> string \<Rightarrow> ip option" where
  "getIPFromMap source key =
     (if source = [] then None
      else case map_of source key of None \<Rightarrow> None | Some v \<Rightarrow> parseIP v)"

definition getK8sNodeMetadataIP :: "k8s_node \<Rightarrow> string \<Rightarrow> ip option" where
  "getK8sNodeMetadataIP node key =
     (case getIPFromMap (kn_Labels node) key of
        Some ip \<Rightarrow> Some ip
      | None \<Rightarrow> getIPFromMap (kn_Annotations node) key)"

definition isMaskAllFF :: "ip_net \<Rightarrow> bool" where
  "isMaskAllFF n = list_all (\<lambda>c. c = 255) (net_Mask n)"

section \<open>Selecting the interfaces of the host\<close>

text \<open>\<open>nodeNetSelector\<close>: the map \<open>ifaces\<close> is used as a set of names.\<close>

record node_net_selector =
  nn_k8sNodeIP :: string
  nn_ifaces :: "string list"
  nn_ips :: gomap

text \<open>
  \<open>net.Interface\<close>: name, printed hardware address, the two flags that are read, and what
  \<open>Addrs\<close> returns (\<open>None\<close> for an error; an entry \<open>None\<close> is a nil \<open>*net.IPNet\<close>).
\<close>

record host_iface =
  hi_Name :: string
  hi_Mac :: string
  hi_Loopback :: bool
  hi_PointToPoint :: bool
  hi_Addrs :: "ip_net option list option"

definition usable_addr :: "ip_net option \<Rightarrow> bool" where
  "usable_addr addr =
     (case addr of None \<Rightarrow> False | Some n \<Rightarrow> is_global_unicast (net_IP n) \<and> \<not> isMaskAllFF n)"

text \<open>The loop of \<open>selectIface\<close> over the addresses, with \<open>ips\<close> and \<open>selected\<close>.\<close>

fun select_loop ::
  "node_net_selector \<Rightarrow> ip_net option list \<Rightarrow> string list \<Rightarrow> bool \<Rightarrow> string list \<times> bool" where
  "select_loop nns [] ips selected = (ips, selected)"
| "select_loop nns (addr # addrs) ips selected =
     (if \<not> usable_addr addr then select_loop nns addrs ips selected
      else let ip = ip_string (net_IP (the addr));
               selected1 = (selected \<or> ip = nn_k8sNodeIP nns);
               selected2 = (if \<not> selected1 then list_ex (\<lambda>v. snd v = ip) (nn_ips nns) else selected1)
           in select_loop nns addrs (ips @ [ip]) selected2)"

definition selectIface ::
  "node_net_selector \<Rightarrow> host_iface \<Rightarrow> ip_net option list \<Rightarrow> interface_net option" where
  "selectIface nns iface addrs =
     (case select_loop nns addrs [] (hi_Name iface \<in> set (nn_ifaces nns)) of
        (ips, selected) \<Rightarrow>
          if selected
          then Some \<lparr> if_Name = hi_Name iface, if_Mac = hi_Mac iface, if_IPs = Some (sort ips) \<rparr>
          else None)"

fun collect_ifaces :: "node_net_selector \<Rightarrow> host_iface list \<Rightarrow> interface_net slice \<Rightarrow> interface_net slice" where
  "collect_ifaces nns [] res = res"
| "collect_ifaces nns (iface # ifaces) res =
     (if hi_Loopback iface \<or> hi_PointToPoint iface then collect_ifaces nns ifaces res
      else case hi_Addrs iface of
          None \<Rightarrow> collect_ifaces nns ifaces res
        | Some addrs \<Rightarrow>
            (case selectIface nns iface addrs of
               None \<Rightarrow> collect_ifaces nns ifaces res
             | Some i \<Rightarrow> collect_ifaces nns ifaces (slice_append res i)))"

text \<open>
  \<open>net.Interfaces()\<close> is the argument, \<open>None\<close> for an error. The names of a host's interfaces are
  distinct, so the unstable \<open>sort.Slice\<close> by name has one result.
\<close>

definition getCurrentNodeIfaceIPs ::
  "host_iface list option \<Rightarrow> string \<Rightarrow> node_net_selector \<Rightarrow> go_error + node_status" where
  "getCurrentNodeIfaceIPs ifaces nodeName nns =
     (case ifaces of
        None \<Rightarrow> Inl (Errorf ''net.Interfaces'')
      | Some is \<Rightarrow>
          Inr \<lparr> st_Name = nodeName,
                st_IfaceNetList = map_option (sort_key if_Name) (collect_ifaces nns is None) \<rparr>)"

section \<open>The network of a node\<close>

definition getAllBinds :: "ipvsdr_provider \<Rightarrow> keepalived_bind list" where
  "getAllBinds p =
     (case kp_Bind p of None \<Rightarrow> [] | Some b \<Rightarrow> [b])
     @ concat (map (\<lambda>kl. case kp_Bind kl of None \<Rightarrow> [] | Some b \<Rightarrow> [b]) (ip_Slaves p))"

record iface_preferred =
  fp_Net :: interface_net
  fp_preferredIP :: string

text \<open>The receiver's method \<open>getIP\<close>; \<open>range p.IPs\<close> looks for the first address of the version.\<close>

definition getIP :: "iface_preferred \<Rightarrow> string \<Rightarrow> string" where
  "getIP p ipVersion =
     (if fp_preferredIP p \<noteq> [] \<and> getIPVersion (parseIP (fp_preferredIP p)) = ipVersion
      then fp_preferredIP p
      else case find (\<lambda>ip. getIPVersion (parseIP ip) = ipVersion) (elems (if_IPs (fp_Net p))) of
          Some ip \<Rightarrow> ip
        | None \<Rightarrow> [])"

definition lookup_str :: "gomap \<Rightarrow> string \<Rightarrow> string" where
  "lookup_str m k = (case map_of m k of None \<Rightarrow> [] | Some v \<Rightarrow> v)"

definition getNodeNetwork ::
  "node_net_selector \<Rightarrow> interface_net list \<Rightarrow> keepalived_bind option \<Rightarrow> iface_preferred option" where
  "getNodeNetwork nns ips bind =
     (let bindIface = (case bind of None \<Rightarrow> [] | Some b \<Rightarrow> kb_Iface b);
          preferredIP = (case bind of None \<Rightarrow> nn_k8sNodeIP nns
                         | Some b \<Rightarrow> lookup_str (nn_ips nns) (kb_NodeIPAnnotation b))
      in if bindIface \<noteq> [] then
           map_option (\<lambda>iface. \<lparr> fp_Net = iface,
               fp_preferredIP = (if preferredIP \<in> set (elems (if_IPs iface)) then preferredIP else []) \<rparr>)
             (find (\<lambda>iface. bindIface = if_Name iface) ips)
         else if preferredIP \<noteq> [] then
           map_option (\<lambda>iface. \<lparr> fp_Net = iface, fp_preferredIP = preferredIP \<rparr>)
             (find (\<lambda>iface. preferredIP \<in> set (elems (if_IPs iface))) ips)
         else None)"

section \<open>Selectors of the nodes\<close>

type_synonym all_selectors = "(string \<times> node_net_selector) list"

text \<open>The loop over the binds that fills a selector.\<close>

fun fill_selector :: "k8s_node \<Rightarrow> keepalived_bind list \<Rightarrow> node_net_selector \<Rightarrow> node_net_selector" where
  "fill_selector n [] nns = nns"
| "fill_selector n (b # bs) nns =
     fill_selector n bs
       (if kb_NodeIPAnnotation b \<noteq> [] then
          (case getK8sNodeMetadataIP n (kb_NodeIPAnnotation b) of
             Some ip \<Rightarrow> nns\<lparr>nn_ips := AList.update (kb_NodeIPAnnotation b) (ip_string ip) (nn_ips nns)\<rparr>
           | None \<Rightarrow> nns)
        else nns\<lparr>nn_ifaces := List.insert (kb_Iface b) (nn_ifaces nns)\<rparr>)"

definition new_selector :: "k8s_node \<Rightarrow> keepalived_bind list \<Rightarrow> node_net_selector" where
  "new_selector n binds =
     fill_selector n binds
       \<lparr> nn_k8sNodeIP = (case getK8sNodeIP n of Inr ip \<Rightarrow> ip_string ip | Inl _ \<Rightarrow> []),
         nn_ifaces = [], nn_ips = [] \<rparr>"

text \<open>\<open>getNodeNetSelector\<close> writes the selector into the map its caller passes.\<close>

definition getNodeNetSelector ::
  "(string \<Rightarrow> k8s_node lookup) \<Rightarrow> string \<Rightarrow> keepalived_bind list
   \<Rightarrow> (all_selectors, go_error, node_net_selector) prog" where
  "getNodeNetSelector nodes nodeName binds sels =
     (case map_of sels nodeName of
        Some nns \<Rightarrow> (Inr nns, sels)
      | None \<Rightarrow>
          (case nodes nodeName of
             Missing \<Rightarrow> (Inl KubeNotFound, sels)
           | LookupErr t \<Rightarrow> (Inl (KubeOther t), sels)
           | Found n \<Rightarrow>
               (let nns = new_selector n binds in (Inr nns, AList.update nodeName nns sels))))"

text \<open>\<open>getIPs\<close>: the network of this node and of all nodes; a missing selector is a nil pointer.\<close>

fun getIPs ::
  "string \<Rightarrow> string list \<Rightarrow> all_selectors \<Rightarrow> (string \<times> node_status) list \<Rightarrow> keepalived_bind option
   \<Rightarrow> iface_preferred option \<Rightarrow> iface_preferred list
   \<Rightarrow> go_error + iface_preferred option \<times> iface_preferred list" where
  "getIPs me [] allbinds allNodeIPs bind myIface nodeIPs = Inr (myIface, nodeIPs)"
| "getIPs me (node # nodes) allbinds allNodeIPs bind myIface nodeIPs =
     (case map_of allNodeIPs node of
        None \<Rightarrow> getIPs me nodes allbinds allNodeIPs bind myIface nodeIPs
      | Some oneNodeIPs \<Rightarrow>
         (case map_of allbinds node of
            None \<Rightarrow> Inl (Panic (NilDereference ''nns''))
          | Some nns \<Rightarrow>
             (let nodeIface = getNodeNetwork nns (elems (st_IfaceNetList oneNodeIPs)) bind
              in getIPs me nodes allbinds allNodeIPs bind
                   (if node = me then nodeIface else myIface)
                   (case nodeIface of None \<Rightarrow> nodeIPs | Some i \<Rightarrow> nodeIPs @ [i]))))"

section \<open>Priorities: bounds and order\<close>

lemma pos_from_absent: "x \<notin> set vs \<Longrightarrow> pos_from p vs x = -1"
  by (induction vs arbitrary: p) auto

lemma pos_from_nth: "distinct vs \<Longrightarrow> i < length vs \<Longrightarrow> pos_from p vs (vs ! i) = p + int i"
proof (induction vs arbitrary: p i)
  case (Cons v vs)
  then show ?case by (cases i) (auto simp: nth_mem)
qed simp

lemma priority_nth:
  "distinct nodes \<Longrightarrow> i < length nodes \<Longrightarrow> getNodePriority (nodes ! i) nodes = 100 + 60 * int i"
  by (simp add: getNodePriority_def pos_def pos_from_nth)

lemma priority_absent: "x \<notin> set nodes \<Longrightarrow> getNodePriority x nodes = 40"
  by (simp add: getNodePriority_def pos_def pos_from_absent)

lemma priority_inj:
  assumes "distinct nodes" "x \<in> set nodes" "y \<in> set nodes"
    "getNodePriority x nodes = getNodePriority y nodes"
  shows "x = y"
proof -
  obtain i j where "i < length nodes" "x = nodes ! i" "j < length nodes" "y = nodes ! j"
    using assms by (metis in_set_conv_nth)
  then show ?thesis using assms by (simp add: priority_nth)
qed

lemma priority_last:
  assumes "distinct nodes" "x \<in> set nodes" "x \<noteq> last nodes"
  shows "getNodePriority x nodes < getNodePriority (last nodes) nodes"
proof -
  obtain i where i: "i < length nodes" "x = nodes ! i" using assms by (metis in_set_conv_nth)
  have last: "last nodes = nodes ! (length nodes - 1)" "length nodes - 1 < length nodes"
    using i by (cases nodes; simp add: last_conv_nth)+
  have "i \<noteq> length nodes - 1" using assms(3) i last by auto
  then show ?thesis using i last assms(1) by (simp add: priority_nth)
qed

section \<open>Addresses\<close>

lemma getIPVersion_unknown [simp]: "getIPVersion None = ''unknown''"
  by (simp add: getIPVersion_def)

lemma getIPVersion_parse: "parseIP s = Some a \<Longrightarrow> getIPVersion (parseIP s) \<in> {ipv4Version, ipv6Version}"
  using parseIP_length [of s a] by (simp add: getIPVersion_def ip_to16_def)

lemma first_parsed_Some: "first_parsed ss = Some ip \<Longrightarrow> \<exists>s \<in> set ss. parseIP s = Some ip"
  by (induction ss) (auto split: option.splits)

lemma first_parsed_None: "first_parsed ss = None \<longleftrightarrow> (\<forall>s \<in> set ss. parseIP s = None)"
  by (induction ss) (auto split: option.splits)

lemma k8s_node_ip_known:
  "getK8sNodeIP n = Inr ip \<Longrightarrow>
     \<exists>t s. (t, s) \<in> set (kn_Addresses n) \<and> t \<in> {NodeExternalIP, NodeInternalIP} \<and> parseIP s = Some ip"
  by (auto simp: getK8sNodeIP_def Let_def dest!: first_parsed_Some split: option.splits) blast+

section \<open>Selected interfaces\<close>

definition usable_ips :: "ip_net option list \<Rightarrow> string list" where
  "usable_ips addrs = map (\<lambda>a. ip_string (net_IP (the a))) (filter usable_addr addrs)"

definition wants :: "node_net_selector \<Rightarrow> string \<Rightarrow> bool" where
  "wants nns ip \<longleftrightarrow> ip = nn_k8sNodeIP nns \<or> ip \<in> snd ` set (nn_ips nns)"

lemma select_loop_eq:
  "select_loop nns addrs ips sel =
     (ips @ usable_ips addrs, sel \<or> (\<exists>ip \<in> set (usable_ips addrs). wants nns ip))"
proof (induction addrs arbitrary: ips sel)
  case (Cons addr addrs)
  have "list_ex (\<lambda>v. snd v = ip) (nn_ips nns) \<longleftrightarrow> ip \<in> snd ` set (nn_ips nns)" for ip
    by (auto simp: list_ex_iff)
  then show ?case using Cons.IH by (simp add: usable_ips_def wants_def Let_def)
qed (simp add: usable_ips_def)

text \<open>An interface is taken by its name or by one of its usable addresses, with all of those, sorted.\<close>

lemma selectIface_eq:
  "selectIface nns iface addrs =
     (if hi_Name iface \<in> set (nn_ifaces nns) \<or> (\<exists>ip \<in> set (usable_ips addrs). wants nns ip)
      then Some \<lparr> if_Name = hi_Name iface, if_Mac = hi_Mac iface, if_IPs = Some (sort (usable_ips addrs)) \<rparr>
      else None)"
  by (simp add: selectIface_def select_loop_eq)

definition iface_of :: "node_net_selector \<Rightarrow> host_iface \<Rightarrow> interface_net option" where
  "iface_of nns iface =
     (if hi_Loopback iface \<or> hi_PointToPoint iface then None
      else Option.bind (hi_Addrs iface) (selectIface nns iface))"

lemma collect_ifaces_eq:
  "elems (collect_ifaces nns ifaces res) = elems res @ List.map_filter (iface_of nns) ifaces"
  by (induction nns ifaces res rule: collect_ifaces.induct)
     (auto simp: iface_of_def List.map_filter_simps split: option.splits)

lemma elems_map_option [simp]: "elems (map_option (map f) s) = map f (elems s)"
  by (cases s) simp_all

lemma elems_sort_key [simp]: "elems (map_option (sort_key f) s) = sort_key f (elems s)"
  by (cases s) simp_all

lemma set_map_filter_Some: "set (List.map_filter f xs) = {y. \<exists>x \<in> set xs. f x = Some y}"
  by (induction xs) (auto simp: List.map_filter_simps split: option.splits)

lemma current_ifaces:
  "getCurrentNodeIfaceIPs (Some is) me nns = Inr st \<Longrightarrow>
     st_Name st = me \<and> sorted (map if_Name (elems (st_IfaceNetList st)))
     \<and> set (elems (st_IfaceNetList st)) = {i. \<exists>h \<in> set is. iface_of nns h = Some i}"
  by (auto simp: getCurrentNodeIfaceIPs_def collect_ifaces_eq set_map_filter_Some)

section \<open>The network of a node\<close>

text \<open>The address \<open>getIP\<close> answers is one of the interface's, of the version asked for.\<close>

definition preferred_ok :: "iface_preferred \<Rightarrow> bool" where
  "preferred_ok p \<longleftrightarrow> fp_preferredIP p = [] \<or> fp_preferredIP p \<in> set (elems (if_IPs (fp_Net p)))"

lemma getNodeNetwork_ok:
  assumes "getNodeNetwork nns ips bind = Some n"
  shows "fp_Net n \<in> set ips \<and> preferred_ok n"
  using assms
  by (auto simp: getNodeNetwork_def preferred_ok_def Let_def find_Some_iff in_set_conv_nth
      split: if_splits)

lemma getNodeNetwork_iface:
  "getNodeNetwork nns ips (Some b) = Some n \<Longrightarrow> kb_Iface b \<noteq> [] \<Longrightarrow> if_Name (fp_Net n) = kb_Iface b"
  by (auto simp: getNodeNetwork_def Let_def find_Some_iff)

lemma getIP_ok:
  assumes "preferred_ok p" "getIP p v \<noteq> []"
  shows "getIP p v \<in> set (elems (if_IPs (fp_Net p))) \<and> getIPVersion (parseIP (getIP p v)) = v"
proof (cases "fp_preferredIP p \<noteq> [] \<and> getIPVersion (parseIP (fp_preferredIP p)) = v")
  case True
  then show ?thesis using assms by (auto simp: getIP_def preferred_ok_def)
next
  case False
  then obtain ip where "find (\<lambda>ip. getIPVersion (parseIP ip) = v) (elems (if_IPs (fp_Net p))) = Some ip"
      "getIP p v = ip"
    using assms(2) by (auto simp: getIP_def split: option.splits if_splits)
  then show ?thesis by (auto simp: find_Some_iff)
qed

lemma getIP_none:
  "getIP p v = [] \<Longrightarrow> v \<noteq> ''unknown'' \<Longrightarrow> ip \<in> set (elems (if_IPs (fp_Net p))) \<Longrightarrow>
     getIPVersion (parseIP ip) \<noteq> v"
  by (auto simp: getIP_def find_None_iff find_Some_iff split: if_splits option.splits)

section \<open>Selectors\<close>

lemma fill_ifaces:
  "set (nn_ifaces (fill_selector n bs nns)) =
     set (nn_ifaces nns) \<union> kb_Iface ` {b \<in> set bs. kb_NodeIPAnnotation b = []}"
  by (induction n bs nns rule: fill_selector.induct) (auto split: option.splits)

lemma fill_k8sNodeIP [simp]: "nn_k8sNodeIP (fill_selector n bs nns) = nn_k8sNodeIP nns"
  by (induction n bs nns rule: fill_selector.induct) (auto split: option.splits)

lemma fill_ips:
  "map_of (nn_ips (fill_selector n bs nns)) a =
     (if a \<in> kb_NodeIPAnnotation ` set bs \<and> a \<noteq> [] \<and> getK8sNodeMetadataIP n a \<noteq> None
      then map_option ip_string (getK8sNodeMetadataIP n a) else map_of (nn_ips nns) a)"
  by (induction n bs nns rule: fill_selector.induct) (auto simp: update_conv split: option.splits)

text \<open>What the map of selectors may hold: for each node the selector of that node.\<close>

definition selectors_ok :: "(string \<Rightarrow> k8s_node lookup) \<Rightarrow> keepalived_bind list \<Rightarrow> all_selectors \<Rightarrow> bool" where
  "selectors_ok nodes binds sels \<longleftrightarrow>
     (\<forall>k nns. map_of sels k = Some nns \<longrightarrow> (\<exists>n. nodes k = Found n \<and> nns = new_selector n binds))"

lemma selectors_ok_Nil [simp]: "selectors_ok nodes binds []"
  by (simp add: selectors_ok_def)

lemma getNodeNetSelector_ok:
  assumes "getNodeNetSelector nodes k binds sels = (r, sels')" "selectors_ok nodes binds sels"
  shows "selectors_ok nodes binds sels' \<and> dom (map_of sels) \<subseteq> dom (map_of sels')
    \<and> (case r of Inr nns \<Rightarrow> map_of sels' k = Some nns | Inl e \<Rightarrow> (\<forall>n. nodes k \<noteq> Found n) \<and> \<not> is_panic e)"
proof (cases "map_of sels k")
  case None
  then show ?thesis using assms
    by (auto simp: getNodeNetSelector_def selectors_ok_def Let_def update_conv' split: lookup.splits if_splits)
next
  case (Some nns)
  then show ?thesis using assms by (auto simp: getNodeNetSelector_def)
qed

text \<open>When every node has its selector, \<open>getIPs\<close> does not panic and its loop is two list functions.\<close>

definition node_ifaces ::
  "all_selectors \<Rightarrow> (string \<times> node_status) list \<Rightarrow> keepalived_bind option \<Rightarrow> string \<Rightarrow> iface_preferred option" where
  "node_ifaces allbinds allNodeIPs bind node =
     Option.bind (map_of allNodeIPs node)
       (\<lambda>st. getNodeNetwork (the (map_of allbinds node)) (elems (st_IfaceNetList st)) bind)"

lemma getIPs_eq:
  assumes "set nodes \<subseteq> dom (map_of allbinds)"
  shows "getIPs me nodes allbinds allNodeIPs bind my ns =
    Inr (if me \<in> set nodes \<and> map_of allNodeIPs me \<noteq> None then node_ifaces allbinds allNodeIPs bind me else my,
         ns @ List.map_filter (node_ifaces allbinds allNodeIPs bind) nodes)"
  using assms
proof (induction me nodes allbinds allNodeIPs bind my ns rule: getIPs.induct)
  case (2 me node nodes allbinds allNodeIPs bind my ns)
  then obtain nns where "map_of allbinds node = Some nns" by auto
  with 2 show ?case
    by (auto simp: node_ifaces_def List.map_filter_simps Let_def split: option.splits)
qed (simp add: List.map_filter_simps)

end
