(* ===== verification/Ports.thy ===== *)
theory Ports
  imports LBTypes
begin

text \<open>
  \<open>core/provider/ports.go\<close>: the ports a load balancer exposes. The ports come out in the
  iteration order of the config maps; the callers sort them, and the lemmas show that the sorted
  list does not depend on that order.
\<close>

definition ReservedTCPPorts :: "string list" where
  "ReservedTCPPorts = [''450'', ''451'']"

definition ReservedUDPPorts :: "string list" where
  "ReservedUDPPorts = []"

definition GetHTTPPort :: "load_balancer \<Rightarrow> int" where
  "GetHTTPPort lb =
     (let h = px_HTTPPort (lb_Proxy lb) in if 1 < h \<and> h < 65535 then h else 80)"

definition GetHTTPSPort :: "load_balancer \<Rightarrow> int" where
  "GetHTTPSPort lb =
     (let h = px_HTTPSPort (lb_Proxy lb) in if 1 < h \<and> h < 65535 then h else 443)"

text \<open>A config map that was not found is a nil pointer, here \<open>None\<close>.\<close>

definition cm_ports :: "config_map option \<Rightarrow> string list" where
  "cm_ports c = (case c of None \<Rightarrow> [] | Some m \<Rightarrow> map fst (cm_items m))"

definition GetExportedPorts ::
  "load_balancer \<Rightarrow> config_map option \<Rightarrow> config_map option \<Rightarrow> string list \<times> string list" where
  "GetExportedPorts lb tcpcm udpcm =
     (ReservedTCPPorts @ [itoa (GetHTTPPort lb), itoa (GetHTTPSPort lb)] @ cm_ports tcpcm,
      ReservedUDPPorts @ cm_ports udpcm)"

lemma GetHTTPPort_range: "1 < GetHTTPPort lb \<and> GetHTTPPort lb < 65535"
  by (simp add: GetHTTPPort_def Let_def)

lemma GetHTTPSPort_range: "1 < GetHTTPSPort lb \<and> GetHTTPSPort lb < 65535"
  by (simp add: GetHTTPSPort_def Let_def)

lemma exported_tcp_set:
  "set (fst (GetExportedPorts lb t u)) =
     {''450'', ''451'', itoa (GetHTTPPort lb), itoa (GetHTTPSPort lb)} \<union> set (cm_ports t)"
  by (auto simp: GetExportedPorts_def ReservedTCPPorts_def)

lemma exported_udp: "snd (GetExportedPorts lb t u) = cm_ports u"
  by (simp add: GetExportedPorts_def ReservedUDPPorts_def)

lemma exported_tcp_not_Nil [simp]: "fst (GetExportedPorts lb t u) \<noteq> []"
  by (simp add: GetExportedPorts_def ReservedTCPPorts_def)

text \<open>The order of iteration of the maps is lost by sorting.\<close>

lemma sort_eq_of_mset: "mset xs = mset ys \<Longrightarrow> sort xs = sort (ys :: string list)"
  by (metis mset_sort properties_for_sort sorted_sort)

lemma mset_fst_eq:
  assumes "map_of m = map_of m'" "distinct (map fst m)" "distinct (map fst m')"
  shows "mset (map fst m) = mset (map fst m')"
proof -
  have "set (map fst m) = set (map fst m')"
    using assms(1) by (metis dom_map_of_conv_image_fst set_map)
  with assms(2,3) show ?thesis by (metis set_eq_iff_mset_eq_distinct)
qed

end
