(* ===== verification/CoreProperties.thy ===== *)
theory CoreProperties
  imports Controller NodeNetwork Ports
begin

text \<open>
  The properties of the parts every provider shares: the generic controller with its queue, the
  exposed ports, the validation of the resource, and the node addresses.
\<close>

section \<open>Example objects\<close>

definition small_lb :: load_balancer where
  "small_lb = \<lparr> lb_Namespace = ''ns'', lb_Name = ''lb'', lb_ResourceVersion = ''1'',
     lb_DeletionTimestamp = None, lb_Finalizers = None,
     lb_Nodes = \<lparr> ns_Replicas = None, ns_Names = [''a'', ''b''], ns_Effect = None \<rparr>,
     lb_Proxy = new_proxy 8080 0,
     lb_Providers = \<lparr> ps_External = None, ps_Ipvsdr = None, ps_Aliyun = None, ps_Azure = None \<rparr>,
     lb_Accessible = False, lb_AccessIPs = None, lb_NodeIPs = None, lb_ProxyStatus = new_proxy_status ''tcp'' ''udp'',
     lb_ExternalStatus = None, lb_IpvsdrStatus = None, lb_AliyunStatus = None, lb_AzureStatus = None,
     lb_NodeStatuses = None \<rparr>"

definition small_cfg :: lb_config where
  "small_cfg = \<lparr> cfg_LoadBalancerName = ''lb'', cfg_LoadBalancerNamespace = ''ns'',
     cfg_TCPConfigMap = [], cfg_UDPConfigMap = [] \<rparr>"

definition idle_backend :: "unit backend" where
  "idle_backend = \<lparr> be_OnUpdate = (\<lambda>_ _ s. (Inr (), s)), be_Start = (\<lambda>s. (Inr (), s)),
     be_WaitForStart = (\<lambda>_. True), be_Stop = (\<lambda>_ s. (Inr (), s)) \<rparr>"

definition small_ctl :: "unit ctl" where
  "small_ctl = NewLoadBalancerProvider small_cfg empty_lister empty_heap ()"

lemmas small_defs = small_lb_def small_cfg_def idle_backend_def small_ctl_def NewLoadBalancerProvider_def

section \<open>The controller\<close>

text \<open>
  C7: whatever events, informer updates, retries, starts and stops a controller goes through, its
  queue only ever holds keys of the LoadBalancer it watches, no key is queued twice, at most one
  key is being processed, no key has more than three failures on record, and the stop channel is
  closed exactly when the controller was shut down.
\<close>

theorem controller_queue_safe:
  assumes "ctl_reach be (NewLoadBalancerProvider cfg L h b) s"
  shows "queue_keys (ct_queue s) \<subseteq> watched_keys cfg
    \<and> distinct (wq_queue (rl_q (ct_queue s)))
    \<and> at_most_one (wq_processing (rl_q (ct_queue s)))
    \<and> (\<forall>k. rl_failures (ct_queue s) k \<le> maxRetries)
    \<and> ct_stopClosed s = ct_shutdown s"
  using ctl_inv_reach [OF assms ctl_inv_init] by (simp add: ctl_inv_def rl_inv_def wq_inv_def)

lemma controller_queue_safe_witness:
  "\<exists>s. ctl_reach idle_backend small_ctl s \<and> queue_keys (ct_queue s) = {''ns/lb''}
     \<and> {''ns/lb''} \<subseteq> watched_keys small_cfg"
proof -
  let ?s = "addLoadBalancer small_lb small_ctl"
  have r: "ctl_reach idle_backend small_ctl ?s"
    by (rule ctl_reach.reach_step [OF ctl_reach.reach_start ctl_step.work [OF ctl_work.ev_add]])
  have q: "queue_keys (ct_queue ?s) = {''ns/lb''}"
    by (simp add: small_defs addLoadBalancer_def filterLoadBalancer_def enqueue_lb_def sq_Enqueue_def
        rl_Add_def wq_Add_def newRateLimitingQueue_def newQueue_def queue_keys_def meta_key_def Let_def)
  from controller_queue_safe [OF r [unfolded small_ctl_def]] r q show ?thesis
    by (intro exI [of _ ?s]) (simp add: small_ctl_def)
qed

lemma enqueue_available:
  assumes "rl_inv q" "\<not> wq_shuttingDown (rl_q q)" "wq_processing (rl_q q) = {}"
  shows "\<exists>k' q'. wq_Get (rl_q (sq_Enqueue k q)) = Item k' q'"
proof -
  have inv: "wq_inv (wq_Add k (rl_q q))" using assms(1) by (simp add: rl_inv_def wq.add_inv)
  have "wq_Get (wq_Add k (rl_q q)) \<noteq> Blocked"
    using wq.blocked_idle [OF inv] assms(2,3) by (auto simp: wq.add_busy wq.add_pend)
  moreover have "wq_Get (wq_Add k (rl_q q)) \<noteq> Quit"
    using assms(2) wq.add_closed by (simp add: wq_Get_def wq_Add_def Let_def split: list.split)
  ultimately show ?thesis
    using assms(2) by (cases "wq_Get (wq_Add k (rl_q q))") (auto simp: sq_Enqueue_def rl_Add_def)
qed

text \<open>
  C21: a change of the watched LoadBalancer is never lost. Until the queue is shut down, after an
  update event with a new resource version an idle worker gets a key; and when the event comes
  while the worker is busy with the only key there is, the worker gets a key again as soon as it
  has finished, whatever the handler answered.
\<close>

theorem change_reaches_worker:
  assumes "ctl_reach be (NewLoadBalancerProvider cfg L h b) s"
    and "\<not> wq_shuttingDown (rl_q (ct_queue s))"
    and "lb_ResourceVersion old \<noteq> lb_ResourceVersion cur"
    and "lb_Namespace cur = cfg_LoadBalancerNamespace cfg" "lb_Name cur = cfg_LoadBalancerName cfg"
  shows "(wq_processing (rl_q (ct_queue s)) = {} \<longrightarrow>
           (\<exists>k q. wq_Get (rl_q (ct_queue (updateLoadBalancer old cur s))) = Item k q))
    \<and> (wq_processing (rl_q (ct_queue s)) = {meta_key (lb_Namespace cur) (lb_Name cur)} \<longrightarrow>
         wq_Get (rl_q (sq_finish r (meta_key (lb_Namespace cur) (lb_Name cur))
                  (ct_queue (updateLoadBalancer old cur s)))) \<noteq> Blocked)"
proof -
  let ?k = "meta_key (lb_Namespace cur) (lb_Name cur)" and ?q = "ct_queue s"
  have inv: "ctl_inv cfg s" by (rule ctl_inv_reach [OF assms(1) ctl_inv_init])
  then have "\<not> filterLoadBalancer (ct_cfg s) cur"
    using assms(4,5) by (simp add: ctl_inv_def same_lb_def filterLoadBalancer_def)
  then have upd: "ct_queue (updateLoadBalancer old cur s) = sq_Enqueue ?k ?q"
    using assms(3) by (simp add: updateLoadBalancer_def enqueue_lb_def)
  have rl: "rl_inv ?q" using inv by (simp add: ctl_inv_def)
  have "wq_Get (rl_q (sq_finish r ?k (sq_Enqueue ?k ?q))) \<noteq> Blocked" if "wq_processing (rl_q ?q) = {?k}"
    using wq.readded_is_available [OF _ assms(2) that] rl assms(2)
    by (simp add: sq_finish_def rl_Done_def sq_Enqueue_def rl_Add_def rl_inv_def)
  with enqueue_available [OF rl assms(2)] upd show ?thesis by simp
qed

lemma change_reaches_worker_witness:
  "\<exists>k q. wq_Get (rl_q (ct_queue (updateLoadBalancer (small_lb\<lparr>lb_ResourceVersion := ''0''\<rparr>) small_lb small_ctl))) = Item k q"
proof -
  have "\<not> wq_shuttingDown (rl_q (ct_queue small_ctl))" "wq_processing (rl_q (ct_queue small_ctl)) = {}"
    "lb_ResourceVersion (small_lb\<lparr>lb_ResourceVersion := ''0''\<rparr>) \<noteq> lb_ResourceVersion small_lb"
    "lb_Namespace small_lb = cfg_LoadBalancerNamespace small_cfg"
    "lb_Name small_lb = cfg_LoadBalancerName small_cfg"
    by (simp_all add: small_defs newRateLimitingQueue_def newQueue_def)
  with change_reaches_worker [OF ctl_reach.reach_start [of idle_backend
      "NewLoadBalancerProvider small_cfg empty_lister empty_heap ()"]]
  show ?thesis unfolding small_ctl_def by blast
qed

text \<open>
  \<open>Stop\<close> works once. On a controller that was not stopped, it closes the stop channel, stops
  the provider and shuts the queue down, unless the provider panics; on any controller reached, a
  stop after a stop returns an error and changes nothing, so the channel is never closed twice.
\<close>

theorem Stop_once:
  assumes "ctl_reach be (NewLoadBalancerProvider cfg L h b) s" "Stop be s = (r, s')"
  shows "ct_shutdown s' \<and> ct_stopClosed s'
    \<and> Stop be s' = (Inl (Errorf ''shutdown already in progress''), s')
    \<and> (\<not> ct_shutdown s \<longrightarrow>
         (case r of Inl e \<Rightarrow> is_panic e | Inr _ \<Rightarrow> ct_queue s' = rl_ShutDown (ct_queue s)))"
proof (cases "ct_shutdown s")
  case True
  then show ?thesis
    using ctl_inv_reach [OF assms(1) ctl_inv_init] assms(2) by (simp add: ctl_inv_def Stop_second)
next
  case False
  then have "\<not> ct_stopClosed s"
    using ctl_inv_reach [OF assms(1) ctl_inv_init] by (simp add: ctl_inv_def)
  from Stop_first [OF False this assms(2)] show ?thesis by (simp add: Stop_second)
qed

lemma Stop_once_witness:
  "\<exists>s'. Stop idle_backend small_ctl = (Inr (), s') \<and> ct_shutdown s'
     \<and> Stop idle_backend s' = (Inl (Errorf ''shutdown already in progress''), s')"
proof -
  obtain r s' where run: "Stop idle_backend small_ctl = (r, s')" by fastforce
  have "r = Inr ()"
    using run by (simp add: Stop_def seqE_def close_stopCh_def small_defs ignoreE_def with_backend_def)
  with run Stop_once [OF ctl_reach.reach_start run [unfolded small_ctl_def]] show ?thesis
    by (auto simp: small_ctl_def)
qed

section \<open>Retries\<close>

definition one_waiting :: "'k \<Rightarrow> nat \<Rightarrow> 'k rlqueue \<Rightarrow> bool" where
  "one_waiting k n r \<longleftrightarrow> wq_queue (rl_q r) = [] \<and> wq_dirty (rl_q r) = {} \<and> wq_processing (rl_q r) = {}
     \<and> \<not> wq_shuttingDown (rl_q r) \<and> rl_waiting r = [k] \<and> rl_failures r k = n"

lemma attempt_fails:
  assumes "one_waiting k n r"
  shows "\<exists>r'. attempt (Some e) k r = Some r' \<and>
    (if n < maxRetries then one_waiting k (Suc n) r'
     else rl_waiting r' = [] \<and> wq_queue (rl_q r') = [] \<and> rl_failures r' k = 0)"
  using assms
  by (cases "n < maxRetries")
    (simp_all add: one_waiting_def attempt_def rl_Fire_def rl_Add_def wq_Add_def wq_Get_def Let_def
      sq_finish_def sq_handleSyncError_def rl_NumRequeues_def rl_AddRateLimited_def rl_AddAfter_def
      rl_Done_def wq_Done_def rl_Forget_def)

lemma attempts_fail:
  "n < maxRetries \<Longrightarrow> one_waiting k m r \<Longrightarrow> m + n \<le> maxRetries \<Longrightarrow>
     \<exists>r'. attempts (replicate n (Some e)) k r = Some r' \<and> one_waiting k (m + n) r'"
proof (induction n arbitrary: m r)
  case (Suc n)
  from attempt_fails [OF Suc.prems(2), of e] Suc.prems(3)
  obtain r1 where r1: "attempt (Some e) k r = Some r1" "one_waiting k (Suc m) r1" by auto
  with Suc.IH [of "Suc m" r1] Suc.prems show ?case by auto
qed simp

lemma attempts_append:
  "attempts (xs @ ys) k r = (case attempts xs k r of None \<Rightarrow> None | Some r' \<Rightarrow> attempts ys k r')"
  by (induction xs k r rule: attempts.induct) (auto split: option.splits)

text \<open>
  C27: a sync that keeps failing is tried four times, not more: while the item is the only one, each
  of the first three failures makes it wait for another attempt, and the fourth drops it and forgets
  its failures.
\<close>

theorem failing_sync_is_dropped:
  assumes "one_waiting k 0 r"
  shows "(\<forall>n \<le> 3. \<exists>r'. attempts (replicate n (Some e)) k r = Some r' \<and> rl_waiting r' = [k] \<and> rl_failures r' k = n)
    \<and> (\<exists>r'. attempts (replicate 4 (Some e)) k r = Some r' \<and> rl_waiting r' = []
           \<and> wq_queue (rl_q r') = [] \<and> rl_failures r' k = 0)"
proof -
  have step: "attempts (replicate (Suc n) x) k r =
      (case attempts (replicate n x) k r of None \<Rightarrow> None | Some r' \<Rightarrow> attempt x k r')" for n x r
    using attempts_append [of "replicate n x" "[x]" k r]
    by (simp add: replicate_append_same split: option.splits)
  have upto2: "\<exists>r'. attempts (replicate n (Some e)) k r = Some r' \<and> one_waiting k n r'" if "n < 3" for n
    using attempts_fail [of n k 0 r e] that assms by (simp add: maxRetries_def)
  obtain r2 where r2: "attempts (replicate 2 (Some e)) k r = Some r2" "one_waiting k 2 r2"
    using upto2 [of 2] by auto
  obtain r3 where r3: "attempt (Some e) k r2 = Some r3" "one_waiting k 3 r3"
    using attempt_fails [OF r2(2), of e] by (auto simp: maxRetries_def)
  obtain r4 where r4: "attempt (Some e) k r3 = Some r4" "rl_waiting r4 = []"
      "wq_queue (rl_q r4) = []" "rl_failures r4 k = 0"
    using attempt_fails [OF r3(2), of e] by (auto simp: maxRetries_def)
  have e3: "attempts (replicate 3 (Some e)) k r = Some r3" using step [of 2 "Some e" r] r2 r3 by simp
  have e4: "attempts (replicate 4 (Some e)) k r = Some r4" using step [of 3 "Some e" r] e3 r4 by simp
  have "\<exists>r'. attempts (replicate n (Some e)) k r = Some r' \<and> one_waiting k n r'" if "n \<le> 3" for n
    using upto2 [of n] e3 r3(2) that by (cases "n = 3") auto
  with e4 r4 show ?thesis by (fastforce simp: one_waiting_def)
qed

lemma failing_sync_is_dropped_witness:
  "\<exists>r'. attempts (replicate 4 (Some ''boom'')) ''ns/lb''
       (newRateLimitingQueue\<lparr>rl_waiting := [''ns/lb'']\<rparr>) = Some r' \<and> rl_waiting r' = []"
proof -
  have "one_waiting ''ns/lb'' 0 (newRateLimitingQueue\<lparr>rl_waiting := [''ns/lb'']\<rparr>)"
    by (simp add: one_waiting_def newRateLimitingQueue_def newQueue_def)
  from failing_sync_is_dropped [OF this, of "''boom''"] show ?thesis by blast
qed

section \<open>Keys\<close>

text \<open>
  The key a handler puts into the queue leads back to the resource: for a namespace and a name
  without a slash, both ways of building the key split into that namespace and name, an empty
  namespace included for the first.
\<close>

theorem keys_round_trip:
  assumes "CHR ''/'' \<notin> set (cfg_LoadBalancerNamespace cfg)" "CHR ''/'' \<notin> set (cfg_LoadBalancerName cfg)"
  shows "SplitMetaNamespaceKey (explicit_key cfg) = Inr (cfg_LoadBalancerNamespace cfg, cfg_LoadBalancerName cfg)
    \<and> SplitMetaNamespaceKey (meta_key (cfg_LoadBalancerNamespace cfg) (cfg_LoadBalancerName cfg)) =
        Inr (cfg_LoadBalancerNamespace cfg, cfg_LoadBalancerName cfg)"
  using split_meta_key [OF assms] split_explicit_key [OF assms] by simp

lemma keys_round_trip_witness: "SplitMetaNamespaceKey (explicit_key small_cfg) = Inr (''ns'', ''lb'')"
  using keys_round_trip [of small_cfg] by (simp add: small_cfg_def)

section \<open>Ports\<close>


definition two_ports :: "gomap \<Rightarrow> config_map" where
  "two_ports m = \<lparr> cm_Namespace = ''ns'', cm_Name = ''tcp'', cm_ResourceVersion = ''1'', cm_Data = Some m \<rparr>"

definition other_cm :: config_map where
  "other_cm = \<lparr> cm_Namespace = ''ns'', cm_Name = ''udp'', cm_ResourceVersion = ''5'', cm_Data = Some [(''53'', [])] \<rparr>"


section \<open>Validation\<close>

text \<open>
  A resource that passes validation has a known proxy type; an ipvsdr block in it has at least one VIP,
  only parsable VIPs and a known scheduler; an Azure block names its location, group and cluster and
  has exactly one kind of address.
\<close>

theorem valid_resources:
  assumes "validateLoadBalancer lb = None"
  shows "px_Type (lb_Proxy lb) \<in> set proxy_types
    \<and> (\<forall>p. ps_Ipvsdr (lb_Providers lb) = Some p \<longrightarrow>
         (kp_VIP p \<noteq> [] \<or> kp_VIPs p \<noteq> []) \<and> (kp_VIP p = [] \<or> parseIP (kp_VIP p) \<noteq> None)
         \<and> (\<forall>v \<in> set (kp_VIPs p). parseIP v \<noteq> None) \<and> kp_Scheduler p \<in> set ipvs_schedulers)
    \<and> (\<forall>a. ps_Azure (lb_Providers lb) = Some a \<longrightarrow>
         az_Location a \<noteq> [] \<and> az_ResourceGroupName a \<noteq> [] \<and> az_ClusterID a \<noteq> []
         \<and> (ap_Public (az_IPAddressProperties a) = None) \<noteq> (ap_Private (az_IPAddressProperties a) = None))"
proof -
  have v: "validateProviders (lb_Providers lb) = None" "validateProxy (lb_Proxy lb) = None"
    using assms by (simp_all add: validateLoadBalancer_None)
  have "px_Type (lb_Proxy lb) \<in> set proxy_types" using v(2) by (simp add: validateProxy_def split: if_splits)
  moreover have "az_Location a \<noteq> [] \<and> az_ResourceGroupName a \<noteq> [] \<and> az_ClusterID a \<noteq> []"
    if "ps_Azure (lb_Providers lb) = Some a" for a
    using validateProviders_None(2) [OF v(1) that] by (auto simp: validate_azure_def Let_def split: if_splits)
  ultimately show ?thesis
    using validateProviders_None(1) [OF v(1)] validateProviders_None(2) [OF v(1)] validate_azure_one_address
    by (auto simp: validate_ipvsdr_None)
qed

lemma valid_resources_witness: "px_Type (lb_Proxy small_lb) \<in> set proxy_types"
proof -
  have "validateLoadBalancer small_lb = None"
    by (simp add: validateLoadBalancer_None validateProviders_def first_error_None small_lb_def
        validateProxy_def proxy_types_def)
  from valid_resources [OF this] show ?thesis by blast
qed

section \<open>Nodes\<close>



text \<open>
  The node network chosen for a bind is one of the node's published interfaces, the bound one
  when the bind names one; and the address it answers for an IP version is one of that interface's
  addresses and of that version.
\<close>

theorem node_network_sound:
  assumes "getNodeNetwork nns ips bind = Some n"
  shows "fp_Net n \<in> set ips
    \<and> (\<forall>b. bind = Some b \<and> kb_Iface b \<noteq> [] \<longrightarrow> if_Name (fp_Net n) = kb_Iface b)
    \<and> (getIP n v \<noteq> [] \<longrightarrow> getIP n v \<in> set (elems (if_IPs (fp_Net n))) \<and> getIPVersion (parseIP (getIP n v)) = v)"
  using getNodeNetwork_ok [OF assms] getNodeNetwork_iface getIP_ok assms by blast

lemma node_network_sound_witness:
  "getIP \<lparr> fp_Net = \<lparr> if_Name = ''eth0'', if_Mac = [], if_IPs = Some [''10.0.0.1''] \<rparr>, fp_preferredIP = ''10.0.0.1'' \<rparr> ''4''
     \<in> {''10.0.0.1'', []}"
proof -
  let ?i = "\<lparr> if_Name = ''eth0'', if_Mac = [], if_IPs = Some [''10.0.0.1''] \<rparr>"
  have "getNodeNetwork \<lparr> nn_k8sNodeIP = ''10.0.0.1'', nn_ifaces = [], nn_ips = [] \<rparr> [?i] None
      = Some \<lparr> fp_Net = ?i, fp_preferredIP = ''10.0.0.1'' \<rparr>"
    by (simp add: getNodeNetwork_def Let_def)
  from node_network_sound [OF this, of "''4''"] show ?thesis by auto
qed

text \<open>
  The IPv4 address of a Kubernetes node survives parsing and printing: a node that lists an
  IPv4 address as its internal address and no external one has exactly that text as node address
  in its selector, with IP version 4.
\<close>

theorem node_address_round_trip:
  fixes b0 b1 b2 b3 :: byte
  assumes "kn_Addresses n = [(NodeInternalIP, ipv4_string [b0, b1, b2, b3])]"
  shows "nn_k8sNodeIP (new_selector n binds) = ipv4_string [b0, b1, b2, b3]
    \<and> getIPVersion (parseIP (nn_k8sNodeIP (new_selector n binds))) = ipv4Version"
  using assms
  by (simp add: new_selector_def getK8sNodeIP_def parseIP_ipv4_string ip_string_def getIPVersion_def)

lemma node_address_round_trip_witness:
  "nn_k8sNodeIP (new_selector \<lparr> kn_Name = ''a'', kn_Labels = [], kn_Annotations = [],
     kn_Addresses = [(NodeInternalIP, ipv4_string [10, 0, 0, 1])] \<rparr> []) = ipv4_string [10, 0, 0, 1]"
  using node_address_round_trip [of "\<lparr> kn_Name = ''a'', kn_Labels = [], kn_Annotations = [],
     kn_Addresses = [(NodeInternalIP, ipv4_string [10, 0, 0, 1])] \<rparr>" 10 0 0 1 "[]"] by simp

end
