(* ===== verification/Iptables.thy ===== *)
theory Iptables
  imports Errors GoPrelude
begin

text \<open>
  The iptables package the ipvsdr provider drives: the interface \<open>iptables.Interface\<close>, its runner
  over the \<open>iptables\<close> and \<open>ip6tables\<close> commands, and what those commands are documented to do. The
  command itself (and the kernel's tables behind it) is a parameter, \<open>exec\<close>; the locale
  \<open>iptables_tool\<close> names what the runner relies on, \<open>iptables_api\<close> what the runner in turn promises
  to its callers.
\<close>

section \<open>The runner\<close>

type_synonym rule = "string list"

datatype protocol = ProtocolIpv4 | ProtocolIpv6

datatype rule_position = Prepend | Append

definition position_flag :: "rule_position \<Rightarrow> string" where
  "position_flag pos = (case pos of Prepend \<Rightarrow> ''-I'' | Append \<Rightarrow> ''-A'')"

text \<open>The outcome of a command: no error, an exit status, or no exit status (it did not run).\<close>

datatype cmd_out = CmdOk | CmdExit int | CmdFailed

type_synonym 'w exec = "protocol \<Rightarrow> string \<Rightarrow> string list \<Rightarrow> 'w \<Rightarrow> cmd_out \<times> 'w"

definition makeFullArgs :: "string \<Rightarrow> string \<Rightarrow> rule \<Rightarrow> string list" where
  "makeFullArgs t c args = [c, ''-t'', t] @ args"

definition runner_EnsureChain ::
  "'w exec \<Rightarrow> protocol \<Rightarrow> string \<Rightarrow> string \<Rightarrow> ('w, go_error, bool) prog" where
  "runner_EnsureChain exec p t c w =
     (case exec p ''-N'' (makeFullArgs t c []) w of
        (CmdOk, w') \<Rightarrow> (Inr False, w')
      | (CmdExit s, w') \<Rightarrow> (if s = 1 then Inr True else Inl (Errorf ''error creating chain''), w')
      | (CmdFailed, w') \<Rightarrow> (Inl (Errorf ''error creating chain''), w'))"

definition runner_FlushChain ::
  "'w exec \<Rightarrow> protocol \<Rightarrow> string \<Rightarrow> string \<Rightarrow> ('w, go_error, unit) prog" where
  "runner_FlushChain exec p t c w =
     (case exec p ''-F'' (makeFullArgs t c []) w of
        (out, w') \<Rightarrow> (if out = CmdOk then Inr () else Inl (Errorf ''error flushing chain''), w'))"

definition runner_DeleteChain ::
  "'w exec \<Rightarrow> protocol \<Rightarrow> string \<Rightarrow> string \<Rightarrow> ('w, go_error, unit) prog" where
  "runner_DeleteChain exec p t c w =
     (case exec p ''-X'' (makeFullArgs t c []) w of
        (out, w') \<Rightarrow> (if out = CmdOk then Inr () else Inl (Errorf ''error deleting chain''), w'))"

definition checkRuleUsingCheck ::
  "'w exec \<Rightarrow> protocol \<Rightarrow> string list \<Rightarrow> ('w, go_error, bool) prog" where
  "checkRuleUsingCheck exec p args w =
     (case exec p ''-C'' args w of
        (CmdOk, w') \<Rightarrow> (Inr True, w')
      | (CmdExit s, w') \<Rightarrow> (if s = 1 then Inr False else Inl (Errorf ''error checking rule''), w')
      | (CmdFailed, w') \<Rightarrow> (Inl (Errorf ''error checking rule''), w'))"

text \<open>
  \<open>checkRule\<close> is an argument of the two operations that call it: which of the two checks it is depends on
  the version of iptables (\<open>IptablesRunner\<close>).
\<close>

type_synonym 'w check = "string \<Rightarrow> string \<Rightarrow> rule \<Rightarrow> ('w, go_error, bool) prog"

definition runner_EnsureRule ::
  "'w check \<Rightarrow> 'w exec \<Rightarrow> protocol \<Rightarrow> rule_position \<Rightarrow> string \<Rightarrow> string \<Rightarrow> rule \<Rightarrow> ('w, go_error, bool) prog" where
  "runner_EnsureRule checkRule exec p pos t c args =
     seqE (checkRule t c args)
       (\<lambda>exists w. if exists then (Inr True, w)
          else case exec p (position_flag pos) (makeFullArgs t c args) w of
              (out, w') \<Rightarrow> (if out = CmdOk then Inr False else Inl (Errorf ''error appending rule''), w'))"

definition runner_DeleteRule ::
  "'w check \<Rightarrow> 'w exec \<Rightarrow> protocol \<Rightarrow> string \<Rightarrow> string \<Rightarrow> rule \<Rightarrow> ('w, go_error, unit) prog" where
  "runner_DeleteRule checkRule exec p t c args =
     seqE (checkRule t c args)
       (\<lambda>exists w. if \<not> exists then (Inr (), w)
          else case exec p ''-D'' (makeFullArgs t c args) w of
              (out, w') \<Rightarrow> (if out = CmdOk then Inr () else Inl (Errorf ''error deleting rule''), w'))"

text \<open>\<open>iptables.Interface\<close>, by the methods the provider calls.\<close>

record 'w ipt_iface =
  ipt_EnsureChain :: "string \<Rightarrow> string \<Rightarrow> ('w, go_error, bool) prog"
  ipt_FlushChain :: "string \<Rightarrow> string \<Rightarrow> ('w, go_error, unit) prog"
  ipt_DeleteChain :: "string \<Rightarrow> string \<Rightarrow> ('w, go_error, unit) prog"
  ipt_EnsureRule :: "rule_position \<Rightarrow> string \<Rightarrow> string \<Rightarrow> rule \<Rightarrow> ('w, go_error, bool) prog"
  ipt_DeleteRule :: "string \<Rightarrow> string \<Rightarrow> rule \<Rightarrow> ('w, go_error, unit) prog"

definition runner_with :: "'w check \<Rightarrow> 'w exec \<Rightarrow> protocol \<Rightarrow> 'w ipt_iface" where
  "runner_with checkRule exec p =
     \<lparr> ipt_EnsureChain = runner_EnsureChain exec p, ipt_FlushChain = runner_FlushChain exec p,
       ipt_DeleteChain = runner_DeleteChain exec p, ipt_EnsureRule = runner_EnsureRule checkRule exec p,
       ipt_DeleteRule = runner_DeleteRule checkRule exec p \<rparr>"

text \<open>The runner of an iptables that has \<open>-C\<close>.\<close>

abbreviation check_with :: "'w exec \<Rightarrow> protocol \<Rightarrow> 'w check" where
  "check_with exec p t c args \<equiv> checkRuleUsingCheck exec p (makeFullArgs t c args)"

definition newRunner :: "'w exec \<Rightarrow> protocol \<Rightarrow> 'w ipt_iface" where
  "newRunner exec p = runner_with (check_with exec p) exec p"

lemma newRunner_simps [simp]:
  "ipt_EnsureChain (newRunner exec p) = runner_EnsureChain exec p"
  "ipt_FlushChain (newRunner exec p) = runner_FlushChain exec p"
  "ipt_DeleteChain (newRunner exec p) = runner_DeleteChain exec p"
  "ipt_EnsureRule (newRunner exec p) = runner_EnsureRule (check_with exec p) exec p"
  "ipt_DeleteRule (newRunner exec p) = runner_DeleteRule (check_with exec p) exec p"
  by (simp_all add: newRunner_def runner_with_def)

section \<open>What the command is documented to do\<close>

text \<open>The tables of a protocol: the rules of each chain, by table and chain, if it exists.\<close>

type_synonym tables = "string \<times> string \<Rightarrow> rule list option"

text \<open>The rules here are lists of options with one argument each; \<open>-j\<close> names the target.\<close>

fun rule_target :: "rule \<Rightarrow> string option" where
  "rule_target (x # y # r) = (if x = ''-j'' then Some y else rule_target r)"
| "rule_target _ = None"

definition builtin_targets :: "string list" where
  "builtin_targets = [''ACCEPT'', ''DROP'', ''RETURN'', ''MARK'']"

definition builtin_chains :: "string list" where
  "builtin_chains = [''PREROUTING'', ''INPUT'', ''FORWARD'', ''OUTPUT'', ''POSTROUTING'']"

definition referenced :: "tables \<Rightarrow> string \<Rightarrow> string \<Rightarrow> bool" where
  "referenced T t c \<longleftrightarrow> (\<exists>c' rs. T (t, c') = Some rs \<and> Some c \<in> rule_target ` set rs)"

definition target_ok :: "tables \<Rightarrow> string \<Rightarrow> rule \<Rightarrow> bool" where
  "target_ok T t r \<longleftrightarrow>
     (case rule_target r of None \<Rightarrow> True
      | Some c \<Rightarrow> c \<in> set builtin_targets \<or> T (t, c) \<noteq> None)"

text \<open>\<open>same\<close> is when the command takes two rules for the same; \<open>-C\<close> and \<open>-D\<close> go by it.\<close>

definition has_rule :: "(rule \<Rightarrow> rule \<Rightarrow> bool) \<Rightarrow> rule \<Rightarrow> rule list \<Rightarrow> bool" where
  "has_rule same r rs = list_ex (same r) rs"

fun drop_first :: "(rule \<Rightarrow> rule \<Rightarrow> bool) \<Rightarrow> rule \<Rightarrow> rule list \<Rightarrow> rule list" where
  "drop_first same r [] = []"
| "drop_first same r (x # xs) = (if same r x then xs else x # drop_first same r xs)"

definition add_rule :: "(rule \<Rightarrow> rule \<Rightarrow> bool) \<Rightarrow> rule_position \<Rightarrow> rule \<Rightarrow> rule list \<Rightarrow> rule list" where
  "add_rule same pos r rs =
     (if has_rule same r rs then rs else case pos of Prepend \<Rightarrow> r # rs | Append \<Rightarrow> rs @ [r])"

text \<open>The effect of one invocation on the tables; \<open>None\<close> is exit status 1 with nothing changed.\<close>

definition tool_spec ::
  "(rule \<Rightarrow> rule \<Rightarrow> bool) \<Rightarrow> string \<Rightarrow> string \<Rightarrow> string \<Rightarrow> rule \<Rightarrow> tables \<Rightarrow> tables option" where
  "tool_spec same op t c r T =
     (case T (t, c) of
        None \<Rightarrow> (if op = ''-N'' then Some (T((t, c) \<mapsto> [])) else None)
      | Some rs \<Rightarrow>
          if op = ''-F'' then Some (T((t, c) \<mapsto> []))
          else if op = ''-X'' then
            (if rs \<noteq> [] \<or> c \<in> set builtin_chains \<or> referenced T t c then None
             else Some (T((t, c) := None)))
          else if op = ''-L'' then Some T
          else if op = ''-C'' then (if has_rule same r rs then Some T else None)
          else if op = ''-D'' then
            (if has_rule same r rs then Some (T((t, c) \<mapsto> drop_first same r rs)) else None)
          else if op = ''-A'' then (if target_ok T t r then Some (T((t, c) \<mapsto> rs @ [r])) else None)
          else if op = ''-I'' then (if target_ok T t r then Some (T((t, c) \<mapsto> r # rs)) else None)
          else None)"

text \<open>
  The contract of the two commands: each works on the tables of its own protocol, as documented,
  and does not fail for reasons outside of them.
\<close>

locale iptables_tool =
  fixes exec :: "'w exec" and view :: "protocol \<Rightarrow> 'w \<Rightarrow> tables" and same :: "rule \<Rightarrow> rule \<Rightarrow> bool"
  assumes exec_ok: "tool_spec same op t c r (view p w) = Some T \<Longrightarrow>
            \<exists>w'. exec p op (makeFullArgs t c r) w = (CmdOk, w') \<and> view p w' = T"
    and exec_no: "tool_spec same op t c r (view p w) = None \<Longrightarrow>
            \<exists>w'. exec p op (makeFullArgs t c r) w = (CmdExit 1, w') \<and> view p w' = view p w"
    and exec_other: "p' \<noteq> p \<Longrightarrow> view p' (snd (exec p op args w)) = view p' w"
    and same_refl: "same r r"

section \<open>What the interface promises\<close>

text \<open>
  The contract of \<open>iptables.Interface\<close>, of the two objects the provider holds: \<open>view\<close> is the
  tables of the protocol of the object.
\<close>

locale iptables_api =
  fixes ipt :: "protocol \<Rightarrow> 'w ipt_iface" and view :: "protocol \<Rightarrow> 'w \<Rightarrow> tables"
    and same :: "rule \<Rightarrow> rule \<Rightarrow> bool"
  assumes ensure_chain: "\<exists>w'. ipt_EnsureChain (ipt p) t c w = (Inr (view p w (t, c) \<noteq> None), w')
            \<and> view p w' = (if view p w (t, c) = None then (view p w)((t, c) \<mapsto> []) else view p w)"
    and flush_chain: "\<exists>w'. ignoreE (ipt_FlushChain (ipt p) t c) w = (Inr (), w')
            \<and> view p w' = (if view p w (t, c) = None then view p w else (view p w)((t, c) \<mapsto> []))"
    and delete_chain: "view p w (t, c) = Some [] \<Longrightarrow> c \<notin> set builtin_chains \<Longrightarrow> \<not> referenced (view p w) t c \<Longrightarrow>
            \<exists>w'. ipt_DeleteChain (ipt p) t c w = (Inr (), w') \<and> view p w' = (view p w)((t, c) := None)"
    and ensure_rule: "view p w (t, c) = Some rs \<Longrightarrow> target_ok (view p w) t r \<Longrightarrow>
            \<exists>b w'. ipt_EnsureRule (ipt p) pos t c r w = (Inr b, w')
              \<and> view p w' = (view p w)((t, c) \<mapsto> add_rule same pos r rs)"
    and delete_rule: "view p w (t, c) = Some rs \<Longrightarrow>
            \<exists>w'. ipt_DeleteRule (ipt p) t c r w = (Inr (), w')
              \<and> view p w' = (view p w)((t, c) \<mapsto> drop_first same r rs)"
    and other_chain: "p' \<noteq> p \<Longrightarrow> view p' (snd (ipt_EnsureChain (ipt p) t c w)) = view p' w"
    and other_flush: "p' \<noteq> p \<Longrightarrow> view p' (snd (ipt_FlushChain (ipt p) t c w)) = view p' w"
    and other_delete: "p' \<noteq> p \<Longrightarrow> view p' (snd (ipt_DeleteChain (ipt p) t c w)) = view p' w"
    and other_rule: "p' \<noteq> p \<Longrightarrow> view p' (snd (ipt_EnsureRule (ipt p) pos t c r w)) = view p' w"
    and other_delete_rule: "p' \<noteq> p \<Longrightarrow> view p' (snd (ipt_DeleteRule (ipt p) t c r w)) = view p' w"
    and api_same_refl: "same r r"

lemma drop_first_absent: "\<not> has_rule same r rs \<Longrightarrow> drop_first same r rs = rs"
  by (induction rs) (auto simp: has_rule_def)

lemma drop_first_snoc: "same r r \<Longrightarrow> \<not> has_rule same r rs \<Longrightarrow> drop_first same r (rs @ [r]) = rs"
  by (induction rs) (auto simp: has_rule_def)

text \<open>The runner keeps the interface's contract whenever the commands keep theirs.\<close>

context iptables_tool
begin

lemma runner_ensure_chain:
  "\<exists>w'. runner_EnsureChain exec p t c w = (Inr (view p w (t, c) \<noteq> None), w')
     \<and> view p w' = (if view p w (t, c) = None then (view p w)((t, c) \<mapsto> []) else view p w)"
proof (cases "view p w (t, c)")
  case None
  then have "tool_spec same ''-N'' t c [] (view p w) = Some ((view p w)((t, c) \<mapsto> []))"
    by (simp add: tool_spec_def)
  from exec_ok [OF this] None show ?thesis by (auto simp: runner_EnsureChain_def)
next
  case (Some rs)
  then have "tool_spec same ''-N'' t c [] (view p w) = None" by (simp add: tool_spec_def)
  from exec_no [OF this] Some show ?thesis by (auto simp: runner_EnsureChain_def)
qed

lemma runner_flush_chain:
  "\<exists>w'. ignoreE (runner_FlushChain exec p t c) w = (Inr (), w')
     \<and> view p w' = (if view p w (t, c) = None then view p w else (view p w)((t, c) \<mapsto> []))"
proof (cases "view p w (t, c)")
  case None
  then have "tool_spec same ''-F'' t c [] (view p w) = None" by (simp add: tool_spec_def)
  from exec_no [OF this] None show ?thesis by (auto simp: runner_FlushChain_def ignoreE_def)
next
  case (Some rs)
  then have "tool_spec same ''-F'' t c [] (view p w) = Some ((view p w)((t, c) \<mapsto> []))"
    by (simp add: tool_spec_def)
  from exec_ok [OF this] Some show ?thesis by (auto simp: runner_FlushChain_def ignoreE_def)
qed

lemma runner_delete_chain:
  assumes "view p w (t, c) = Some []" "c \<notin> set builtin_chains" "\<not> referenced (view p w) t c"
  shows "\<exists>w'. runner_DeleteChain exec p t c w = (Inr (), w') \<and> view p w' = (view p w)((t, c) := None)"
proof -
  have "tool_spec same ''-X'' t c [] (view p w) = Some ((view p w)((t, c) := None))"
    using assms by (simp add: tool_spec_def)
  from exec_ok [OF this] show ?thesis by (auto simp: runner_DeleteChain_def)
qed

lemma check_rule:
  assumes "view p w (t, c) = Some rs"
  shows "\<exists>w'. checkRuleUsingCheck exec p (makeFullArgs t c r) w = (Inr (has_rule same r rs), w')
    \<and> view p w' = view p w"
proof (cases "has_rule same r rs")
  case True
  then have "tool_spec same ''-C'' t c r (view p w) = Some (view p w)"
    using assms by (simp add: tool_spec_def)
  from exec_ok [OF this] True show ?thesis by (auto simp: checkRuleUsingCheck_def)
next
  case False
  then have "tool_spec same ''-C'' t c r (view p w) = None" using assms by (simp add: tool_spec_def)
  from exec_no [OF this] False show ?thesis by (auto simp: checkRuleUsingCheck_def)
qed

lemma runner_ensure_rule:
  assumes "view p w (t, c) = Some rs" "target_ok (view p w) t r"
  shows "\<exists>b w'. runner_EnsureRule (check_with exec p) exec p pos t c r w = (Inr b, w')
    \<and> view p w' = (view p w)((t, c) \<mapsto> add_rule same pos r rs)"
proof -
  obtain w1 where w1: "checkRuleUsingCheck exec p (makeFullArgs t c r) w = (Inr (has_rule same r rs), w1)"
      "view p w1 = view p w"
    using check_rule [OF assms(1)] by blast
  show ?thesis
  proof (cases "has_rule same r rs")
    case True
    then have "add_rule same pos r rs = rs" by (simp add: add_rule_def)
    then show ?thesis using w1 True assms(1)
      by (intro exI [of _ True] exI [of _ w1]) (simp add: runner_EnsureRule_def seqE_def fun_upd_idem)
  next
    case False
    then have "tool_spec same (position_flag pos) t c r (view p w1) =
        Some ((view p w)((t, c) \<mapsto> add_rule same pos r rs))"
      using assms w1 by (simp add: tool_spec_def add_rule_def position_flag_def split: rule_position.split)
    from exec_ok [OF this] show ?thesis using w1 False
      by (auto simp: runner_EnsureRule_def seqE_def)
  qed
qed

lemma runner_delete_rule:
  assumes "view p w (t, c) = Some rs"
  shows "\<exists>w'. runner_DeleteRule (check_with exec p) exec p t c r w = (Inr (), w')
    \<and> view p w' = (view p w)((t, c) \<mapsto> drop_first same r rs)"
proof -
  obtain w1 where w1: "checkRuleUsingCheck exec p (makeFullArgs t c r) w = (Inr (has_rule same r rs), w1)"
      "view p w1 = view p w"
    using check_rule [OF assms(1)] by blast
  show ?thesis
  proof (cases "has_rule same r rs")
    case False
    then show ?thesis using w1 assms(1)
      by (simp add: runner_DeleteRule_def seqE_def drop_first_absent fun_upd_idem)
  next
    case True
    then have "tool_spec same ''-D'' t c r (view p w1) =
        Some ((view p w)((t, c) \<mapsto> drop_first same r rs))"
      using assms w1 by (simp add: tool_spec_def)
    from exec_ok [OF this] show ?thesis using w1 True
      by (auto simp: runner_DeleteRule_def seqE_def)
  qed
qed

lemma check_other: "p' \<noteq> p \<Longrightarrow> view p' (snd (checkRuleUsingCheck exec p args w)) = view p' w"
  using exec_other [of p' p "''-C''" args w]
  by (auto simp: checkRuleUsingCheck_def split: prod.split cmd_out.split)

lemma rule_other:
  assumes "p' \<noteq> p"
  shows "view p' (snd (runner_EnsureRule (check_with exec p) exec p pos t c r w)) = view p' w"
    and "view p' (snd (runner_DeleteRule (check_with exec p) exec p t c r w)) = view p' w"
proof -
  obtain q w1 where w1: "checkRuleUsingCheck exec p (makeFullArgs t c r) w = (q, w1)" by fastforce
  then have eq: "view p' w1 = view p' w" using check_other [OF assms, of "makeFullArgs t c r" w] by simp
  show "view p' (snd (runner_EnsureRule (check_with exec p) exec p pos t c r w)) = view p' w"
    using eq w1 exec_other [OF assms, of "position_flag pos" "makeFullArgs t c r" w1]
    by (auto simp: runner_EnsureRule_def seqE_def split: sum.split prod.split)
  show "view p' (snd (runner_DeleteRule (check_with exec p) exec p t c r w)) = view p' w"
    using eq w1 exec_other [OF assms, of "''-D''" "makeFullArgs t c r" w1]
    by (auto simp: runner_DeleteRule_def seqE_def split: sum.split prod.split)
qed

lemma chain_other:
  assumes "p' \<noteq> p"
  shows "view p' (snd (runner_EnsureChain exec p t c w)) = view p' w"
    and "view p' (snd (runner_FlushChain exec p t c w)) = view p' w"
    and "view p' (snd (runner_DeleteChain exec p t c w)) = view p' w"
  using exec_other [OF assms, of "''-N''" "makeFullArgs t c []" w]
    exec_other [OF assms, of "''-F''" "makeFullArgs t c []" w]
    exec_other [OF assms, of "''-X''" "makeFullArgs t c []" w]
  by (auto simp: runner_EnsureChain_def runner_FlushChain_def runner_DeleteChain_def
      split: prod.split cmd_out.split)

end

sublocale iptables_tool \<subseteq> iptables_api "newRunner exec" view same
  by (unfold_locales; (simp only: newRunner_simps)?;
      rule runner_ensure_chain runner_flush_chain runner_delete_chain runner_ensure_rule
        runner_delete_rule chain_other rule_other same_refl; assumption)

context iptables_tool
begin

lemma runner_api: "iptables_api (newRunner exec) view same"
  by (rule iptables_api_axioms)

end

section \<open>The documented command\<close>

text \<open>The command that does exactly what is documented, on a pair of tables; rules are compared by text.\<close>

type_synonym table_pair = "protocol \<Rightarrow> tables"

definition reference_exec :: "table_pair exec" where
  "reference_exec p op args w =
     (case args of
        c # _ # t # r \<Rightarrow>
          (case tool_spec (=) op t c r (w p) of
             Some T \<Rightarrow> (CmdOk, w(p := T))
           | None \<Rightarrow> (CmdExit 1, w))
      | _ \<Rightarrow> (CmdExit 2, w))"

interpretation ref_tool: iptables_tool reference_exec "\<lambda>p w. w p" "(=)"
  by unfold_locales
     (auto simp: reference_exec_def makeFullArgs_def split: list.split option.split)

end
