(* ===== verification/IpvsdrTables.thy ===== *)
theory IpvsdrTables
  imports Iptables NodeNetwork
begin

text \<open>
  The iptables part of \<open>providers/ipvsdr/ipvsdr.go\<close>: the two chains of the provider are created at
  \<open>Start\<close>, filled by \<open>onUpdateIPtables\<close> and deleted at \<open>Stop\<close>. A packet to a virtual address gets
  mark 1 when it goes to an exposed port, and mark 0 when it comes from another director, so that
  it is not balanced twice.

  The operations are programs over the world that the iptables objects act on. Each is shown to
  refine a function on the rules of the two chains, and those rules are shown to mark packets as
  meant.
\<close>

section \<open>The operations\<close>

definition tableFilter :: string where "tableFilter = ''filter''"
definition tableMangle :: string where "tableMangle = ''mangle''"
definition iptablesChain :: string where "iptablesChain = ''LOADBALANCER-IPVS-DR''"
definition iptablesOutputChain :: string where "iptablesOutputChain = ''LOADBALANCER-IPVS-DR-OUTPUT''"
definition ChainPrerouting :: string where "ChainPrerouting = ''PREROUTING''"
definition ChainOutput :: string where "ChainOutput = ''OUTPUT''"
definition acceptMark :: int where "acceptMark = 1"
definition dropMark :: int where "dropMark = 0"
definition mark_mask :: string where "mark_mask = ''0x00000001''"

text \<open>\<open>p.ipt\<close> and \<open>p.ip6t\<close> are \<open>ipt ProtocolIpv4\<close> and \<open>ipt ProtocolIpv6\<close>; \<open>log.Fatalf\<close> ends the process.\<close>

definition fatal :: "('w, go_error, 'a) prog \<Rightarrow> ('w, go_error, 'a) prog" where
  "fatal m w = (case m w of (Inl e, w') \<Rightarrow> (Inl (Panic (CallerPanic ''unexpected error'')), w')
                | (Inr x, w') \<Rightarrow> (Inr x, w'))"

definition ensureChain_on :: "'w ipt_iface \<Rightarrow> ('w, go_error, unit) prog" where
  "ensureChain_on ipt =
     seqE (fatal (ipt_EnsureChain ipt tableMangle iptablesChain)) (\<lambda>_.
     seqE (ignoreE (ipt_EnsureRule ipt Append tableMangle ChainPrerouting [''-j'', iptablesChain])) (\<lambda>_.
     seqE (fatal (ipt_EnsureChain ipt tableFilter iptablesOutputChain)) (\<lambda>_.
     ignoreE (ipt_EnsureRule ipt Append tableFilter ChainOutput [''-j'', iptablesOutputChain]))))"

definition ensureChain :: "(protocol \<Rightarrow> 'w ipt_iface) \<Rightarrow> ('w, go_error, unit) prog" where
  "ensureChain ipt = forE [ProtocolIpv4, ProtocolIpv6] (\<lambda>p. ensureChain_on (ipt p))"

definition flushChain :: "(protocol \<Rightarrow> 'w ipt_iface) \<Rightarrow> ('w, go_error, unit) prog" where
  "flushChain ipt =
     seqE (ignoreE (ipt_FlushChain (ipt ProtocolIpv4) tableMangle iptablesChain)) (\<lambda>_.
     seqE (ignoreE (ipt_FlushChain (ipt ProtocolIpv6) tableMangle iptablesChain)) (\<lambda>_.
     seqE (ignoreE (ipt_FlushChain (ipt ProtocolIpv4) tableFilter iptablesOutputChain)) (\<lambda>_.
     ignoreE (ipt_FlushChain (ipt ProtocolIpv6) tableFilter iptablesOutputChain))))"

definition deleteChain_on :: "'w ipt_iface \<Rightarrow> ('w, go_error, unit) prog" where
  "deleteChain_on ipt =
     seqE (ignoreE (ipt_DeleteRule ipt tableMangle ChainPrerouting [''-j'', iptablesChain])) (\<lambda>_.
     seqE (ignoreE (ipt_DeleteChain ipt tableMangle iptablesChain)) (\<lambda>_.
     seqE (ignoreE (ipt_DeleteRule ipt tableFilter ChainOutput [''-j'', iptablesOutputChain])) (\<lambda>_.
     ignoreE (ipt_DeleteChain ipt tableFilter iptablesOutputChain))))"

definition deleteChain :: "(protocol \<Rightarrow> 'w ipt_iface) \<Rightarrow> ('w, go_error, unit) prog" where
  "deleteChain ipt =
     seqE (flushChain ipt) (\<lambda>_. forE [ProtocolIpv4, ProtocolIpv6] (\<lambda>p. deleteChain_on (ipt p)))"

definition buildIptablesArgs ::
  "string \<Rightarrow> string \<Rightarrow> string \<Rightarrow> int \<Rightarrow> string \<Rightarrow> string \<Rightarrow> rule" where
  "buildIptablesArgs vip protocol iface mark mac port =
     [''-i'', iface, ''-d'', vip, ''-p'', protocol]
     @ (if port \<noteq> [] then [''-m'', ''multiport'', ''--dports'', port] else [])
     @ (if mac \<noteq> [] then [''-m'', ''mac'', ''--mac-source'', mac] else [])
     @ [''-j'', ''MARK'', ''--set-xmark'', itoa mark @ ''/'' @ mark_mask]"

text \<open>Which of the two objects serves an address.\<close>

definition proto_of :: "ip option \<Rightarrow> protocol" where
  "proto_of ip = (if getIPVersion ip = ipv6Version then ProtocolIpv6 else ProtocolIpv4)"

definition setIptablesMark ::
  "(protocol \<Rightarrow> 'w ipt_iface) \<Rightarrow> rule_position \<Rightarrow> ip \<Rightarrow> string \<Rightarrow> string \<Rightarrow> int \<Rightarrow> string \<Rightarrow> string list
   \<Rightarrow> ('w, go_error, bool) prog" where
  "setIptablesMark ipt position ip protocol iface mark mac ports =
     (let it = ipt (proto_of (Some ip)); vip = ip_string ip in
      if ports = [] then
        ipt_EnsureRule it position tableMangle iptablesChain (buildIptablesArgs vip protocol iface mark mac [])
      else seqE (forE ports (\<lambda>port.
             seqE (ipt_EnsureRule it position tableMangle iptablesChain
                     (buildIptablesArgs vip protocol iface mark mac port)) (\<lambda>_. retE ())))
           (\<lambda>_. retE True))"

definition output_drop_rule :: "string \<Rightarrow> string \<Rightarrow> string \<Rightarrow> rule" where
  "output_drop_rule iface vip proto =
     [''-o'', iface, ''-d'', vip, ''-p'', proto,
      ''-m'', ''mark'', ''--mark'', itoa dropMark @ ''/'' @ mark_mask, ''-j'', ''DROP'']"

definition ensureIptablesOutputDrop ::
  "(protocol \<Rightarrow> 'w ipt_iface) \<Rightarrow> string \<Rightarrow> string \<Rightarrow> ('w, go_error, unit) prog" where
  "ensureIptablesOutputDrop ipt vip iface =
     forE [''udp'', ''tcp''] (\<lambda>proto.
       ignoreE (ipt_EnsureRule (ipt (proto_of (parseIP vip))) Append tableFilter iptablesOutputChain
         (output_drop_rule iface vip proto)))"

definition ensureIptablesMark ::
  "(protocol \<Rightarrow> 'w ipt_iface) \<Rightarrow> string \<Rightarrow> string \<Rightarrow> iface_preferred list \<Rightarrow> string list \<Rightarrow> string list
   \<Rightarrow> ('w, go_error, unit) prog" where
  "ensureIptablesMark ipt vip iface nodeIPs tcpPorts udpPorts =
     (case parseIP vip of
        None \<Rightarrow> retE ()
      | Some ip \<Rightarrow>
          seqE (forE nodeIPs (\<lambda>neighbor.
                  let mac = if_Mac (fp_Net neighbor) in
                  if mac = [] then retE ()
                  else ignoreE (setIptablesMark ipt Append ip ''ip'' iface dropMark mac []))) (\<lambda>_.
          seqE (if tcpPorts \<noteq> []
                then ignoreE (setIptablesMark ipt Prepend ip ''tcp'' iface acceptMark [] tcpPorts)
                else retE ()) (\<lambda>_.
          if udpPorts \<noteq> []
          then ignoreE (setIptablesMark ipt Prepend ip ''udp'' iface acceptMark [] udpPorts)
          else retE ())))"

definition getVIPs :: "('a) keepalived_provider_scheme \<Rightarrow> string list" where
  "getVIPs kl = (if kp_VIPs kl \<noteq> [] then kp_VIPs kl else [kp_VIP kl])"

definition onUpdateIPtables ::
  "(protocol \<Rightarrow> 'w ipt_iface) \<Rightarrow> string \<Rightarrow> string list \<Rightarrow> ipvsdr_provider \<Rightarrow> all_selectors
   \<Rightarrow> (string \<times> node_status) list \<Rightarrow> string list \<Rightarrow> string list \<Rightarrow> ('w, go_error, unit) prog" where
  "onUpdateIPtables ipt me nodes ipvs nodeNetSelectors allNodeIPs tcps udps =
     (case getIPs me nodes nodeNetSelectors allNodeIPs (kp_Bind ipvs) None [] of
        Inl e \<Rightarrow> throwE e
      | Inr (None, nodeIPs) \<Rightarrow> throwE (Errorf ''Cannot get self iface '')
      | Inr (Some myIface, nodeIPs) \<Rightarrow>
          seqE (flushChain ipt) (\<lambda>_.
            if kp_HAMode ipvs \<noteq> ActivePassiveHA then
              forE (getVIPs ipvs) (\<lambda>vip.
                if vip \<noteq> [] then
                  seqE (ensureIptablesMark ipt vip (if_Name (fp_Net myIface)) nodeIPs tcps udps)
                    (\<lambda>_. ensureIptablesOutputDrop ipt vip (if_Name (fp_Net myIface)))
                else retE ())
            else retE ()))"

section \<open>The rules as functions\<close>

text \<open>The marking rules of one virtual address, by protocol, in the order they are added.\<close>

definition drop_rules :: "ip \<Rightarrow> string \<Rightarrow> iface_preferred list \<Rightarrow> rule list" where
  "drop_rules ip iface nodeIPs =
     map (\<lambda>mac. buildIptablesArgs (ip_string ip) ''ip'' iface dropMark mac [])
       (filter (\<lambda>m. m \<noteq> []) (map (\<lambda>n. if_Mac (fp_Net n)) nodeIPs))"

definition accept_rules :: "ip \<Rightarrow> string \<Rightarrow> string list \<Rightarrow> string list \<Rightarrow> rule list" where
  "accept_rules ip iface tcps udps =
     map (\<lambda>port. buildIptablesArgs (ip_string ip) ''tcp'' iface acceptMark [] port) tcps
     @ map (\<lambda>port. buildIptablesArgs (ip_string ip) ''udp'' iface acceptMark [] port) udps"

definition add_marks ::
  "(rule \<Rightarrow> rule \<Rightarrow> bool) \<Rightarrow> rule list \<Rightarrow> rule list \<Rightarrow> rule list \<Rightarrow> rule list" where
  "add_marks same drops accepts rs = fold (add_rule same Prepend) accepts (fold (add_rule same Append) drops rs)"

text \<open>The state of the provider's chains in both protocols: mark rules and output rules.\<close>

type_synonym chains = "protocol \<Rightarrow> rule list \<times> rule list"

definition set_marks :: "protocol \<Rightarrow> (rule list \<Rightarrow> rule list) \<Rightarrow> chains \<Rightarrow> chains" where
  "set_marks p f V = V(p := (f (fst (V p)), snd (V p)))"

definition set_output :: "protocol \<Rightarrow> (rule list \<Rightarrow> rule list) \<Rightarrow> chains \<Rightarrow> chains" where
  "set_output p f V = V(p := (fst (V p), f (snd (V p))))"

definition vip_chains ::
  "(rule \<Rightarrow> rule \<Rightarrow> bool) \<Rightarrow> string \<Rightarrow> iface_preferred list \<Rightarrow> string list \<Rightarrow> string list \<Rightarrow> string
   \<Rightarrow> chains \<Rightarrow> chains" where
  "vip_chains same iface nodeIPs tcps udps vip V =
     (if vip = [] then V
      else set_output (proto_of (parseIP vip))
        (fold (\<lambda>proto. add_rule same Append (output_drop_rule iface vip proto)) [''udp'', ''tcp''])
        (case parseIP vip of None \<Rightarrow> V
         | Some ip \<Rightarrow> set_marks (proto_of (Some ip))
             (add_marks same (drop_rules ip iface nodeIPs) (accept_rules ip iface tcps udps)) V))"

text \<open>Reading the chains out of the tables, and the tables with other chains in them.\<close>

definition own_chain :: "string \<times> string \<Rightarrow> bool" where
  "own_chain k \<longleftrightarrow> k = (tableMangle, iptablesChain) \<or> k = (tableFilter, iptablesOutputChain)"

definition holds_chains :: "(protocol \<Rightarrow> tables) \<Rightarrow> chains \<Rightarrow> bool" where
  "holds_chains T V \<longleftrightarrow> (\<forall>p. T p (tableMangle, iptablesChain) = Some (fst (V p))
     \<and> T p (tableFilter, iptablesOutputChain) = Some (snd (V p)))"

definition same_others :: "(protocol \<Rightarrow> tables) \<Rightarrow> (protocol \<Rightarrow> tables) \<Rightarrow> bool" where
  "same_others T T' \<longleftrightarrow> (\<forall>p k. \<not> own_chain k \<longrightarrow> T' p k = T p k)"

lemma chain_names [simp]:
  "iptablesChain \<notin> set builtin_chains" "iptablesOutputChain \<notin> set builtin_chains"
  "iptablesChain \<notin> set builtin_targets" "iptablesOutputChain \<notin> set builtin_targets"
  "tableMangle \<noteq> tableFilter" "tableFilter \<noteq> tableMangle"
  "ChainPrerouting \<noteq> iptablesChain" "ChainOutput \<noteq> iptablesOutputChain"
  "iptablesChain \<noteq> ChainPrerouting" "iptablesOutputChain \<noteq> ChainOutput"
  by (simp_all add: iptablesChain_def iptablesOutputChain_def builtin_chains_def builtin_targets_def
      tableMangle_def tableFilter_def ChainPrerouting_def ChainOutput_def)

lemma rule_target_build [simp]:
  "rule_target (buildIptablesArgs vip protocol iface mark mac port) = Some ''MARK''"
  "rule_target (output_drop_rule iface vip proto) = Some ''DROP''"
  by (simp_all add: buildIptablesArgs_def output_drop_rule_def)

lemma set_marks_id: "set_marks p (\<lambda>rs. rs) = (\<lambda>V. V)" "set_marks p id = (\<lambda>V. V)"
  by (simp_all add: set_marks_def fun_eq_iff)

lemma set_marks_comp: "set_marks p f (set_marks p g V) = set_marks p (\<lambda>rs. f (g rs)) V"
  by (simp add: set_marks_def)

text \<open>Creating the chains: they exist afterwards, and the jumps into them.\<close>

definition jump_to :: "string \<Rightarrow> rule" where
  "jump_to c = [''-j'', c]"

text \<open>What is asked of the tables before \<open>Start\<close>: the built-in chains are there, the provider's are not.\<close>

definition fresh_tables :: "(rule \<Rightarrow> rule \<Rightarrow> bool) \<Rightarrow> tables \<Rightarrow> bool" where
  "fresh_tables same T \<longleftrightarrow>
     (\<exists>rs. T (tableMangle, ChainPrerouting) = Some rs \<and> \<not> has_rule same (jump_to iptablesChain) rs)
     \<and> (\<exists>rs. T (tableFilter, ChainOutput) = Some rs \<and> \<not> has_rule same (jump_to iptablesOutputChain) rs)
     \<and> T (tableMangle, iptablesChain) = None \<and> T (tableFilter, iptablesOutputChain) = None
     \<and> \<not> referenced T tableMangle iptablesChain \<and> \<not> referenced T tableFilter iptablesOutputChain"

text \<open>The tables of one protocol with the provider's chains in place.\<close>

definition with_chains :: "tables \<Rightarrow> rule list \<Rightarrow> rule list \<Rightarrow> tables" where
  "with_chains T ms os = T
     ((tableMangle, iptablesChain) \<mapsto> ms,
      (tableMangle, ChainPrerouting) \<mapsto> the (T (tableMangle, ChainPrerouting)) @ [jump_to iptablesChain],
      (tableFilter, iptablesOutputChain) \<mapsto> os,
      (tableFilter, ChainOutput) \<mapsto> the (T (tableFilter, ChainOutput)) @ [jump_to iptablesOutputChain])"

section \<open>Refinement\<close>

context iptables_api
begin

definition views :: "'w \<Rightarrow> protocol \<Rightarrow> tables" where
  "views w p = view p w"

text \<open>\<open>m\<close> does \<open>f\<close> to the provider's chains, and nothing to any other.\<close>

definition refines :: "('w, go_error, 'a) prog \<Rightarrow> (chains \<Rightarrow> chains) \<Rightarrow> bool" where
  "refines m f \<longleftrightarrow> (\<forall>w V. holds_chains (views w) V \<longrightarrow>
     (\<exists>x w'. m w = (Inr x, w') \<and> holds_chains (views w') (f V) \<and> same_others (views w) (views w')))"

lemma refinesD:
  assumes "refines m f" "holds_chains (\<lambda>p. view p w) V"
  shows "\<exists>x w'. m w = (Inr x, w') \<and> holds_chains (\<lambda>p. view p w') (f V)
    \<and> same_others (\<lambda>p. view p w) (\<lambda>p. view p w')"
proof -
  have "views w = (\<lambda>p. view p w)" for w by (simp add: views_def fun_eq_iff)
  then show ?thesis using assms unfolding refines_def by simp
qed

lemma refines_ret: "refines (retE x) (\<lambda>V. V)" "refines (Pair (Inr x)) (\<lambda>V. V)"
  by (auto simp: refines_def same_others_def)

lemma refines_seq: "refines m f \<Longrightarrow> (\<And>x. refines (k x) g) \<Longrightarrow> refines (seqE m k) (\<lambda>V. g (f V))"
  unfolding refines_def
proof (intro allI impI)
  fix w V
  assume m: "\<forall>w V. holds_chains (views w) V \<longrightarrow>
      (\<exists>x w'. m w = (Inr x, w') \<and> holds_chains (views w') (f V) \<and> same_others (views w) (views w'))"
    and k: "\<And>x. \<forall>w V. holds_chains (views w) V \<longrightarrow>
      (\<exists>y w'. k x w = (Inr y, w') \<and> holds_chains (views w') (g V) \<and> same_others (views w) (views w'))"
    and V: "holds_chains (views w) V"
  obtain x w1 where 1: "m w = (Inr x, w1)" "holds_chains (views w1) (f V)" "same_others (views w) (views w1)"
    using m V by blast
  obtain y w2 where 2: "k x w1 = (Inr y, w2)" "holds_chains (views w2) (g (f V))" "same_others (views w1) (views w2)"
    using k [of x] 1(2) by blast
  have "same_others (views w) (views w2)" using 1(3) 2(3) by (simp add: same_others_def)
  then show "\<exists>y w'. seqE m k w = (Inr y, w') \<and> holds_chains (views w') (g (f V)) \<and> same_others (views w) (views w')"
    using 1 2 by (auto simp: seqE_def)
qed

lemma refines_ignore: "refines m f \<Longrightarrow> refines (ignoreE m) f"
  unfolding refines_def ignoreE_def by fastforce

lemma refines_for:
  "(\<And>x. x \<in> set xs \<Longrightarrow> refines (body x) (f x)) \<Longrightarrow> refines (forE xs body) (fold f xs)"
proof (induction xs)
  case Nil
  show ?case unfolding forE.simps fold.simps id_def by (rule refines_ret)
next
  case (Cons x xs)
  then have "refines (seqE (body x) (\<lambda>_. forE xs body)) (\<lambda>V. fold f xs (f x V))"
    by (intro refines_seq) auto
  then show ?case by (simp add: comp_def)
qed

lemma refines_mark_rule:
  assumes "rule_target r = Some ''MARK''"
  shows "refines (ipt_EnsureRule (ipt p) at_pos tableMangle iptablesChain r) (set_marks p (add_rule same at_pos r))"
  unfolding refines_def
proof (intro allI impI)
  fix w V
  assume V: "holds_chains (views w) V"
  then have "view p w (tableMangle, iptablesChain) = Some (fst (V p))"
    by (simp add: holds_chains_def views_def)
  moreover have "target_ok (view p w) tableMangle r"
    using assms by (simp add: target_ok_def builtin_targets_def)
  ultimately obtain b w' where w': "ipt_EnsureRule (ipt p) at_pos tableMangle iptablesChain r w = (Inr b, w')"
      "view p w' = (view p w)((tableMangle, iptablesChain) \<mapsto> add_rule same at_pos r (fst (V p)))"
    using ensure_rule by blast
  have other: "view p' w' = view p' w" if "p' \<noteq> p" for p'
    using other_rule [OF that, of at_pos tableMangle iptablesChain r w] w' by simp
  have eq: "views w' p' = (if p' = p then (views w p)((tableMangle, iptablesChain) \<mapsto>
      add_rule same at_pos r (fst (V p))) else views w p')" for p'
    using w' other by (simp add: views_def)
  show "\<exists>x w'. ipt_EnsureRule (ipt p) at_pos tableMangle iptablesChain r w = (Inr x, w')
      \<and> holds_chains (views w') (set_marks p (add_rule same at_pos r) V) \<and> same_others (views w) (views w')"
    using w'(1) V by (auto simp: eq holds_chains_def set_marks_def same_others_def own_chain_def)
qed

lemma refines_output_rule:
  assumes "rule_target r = Some ''DROP''"
  shows "refines (ipt_EnsureRule (ipt p) at_pos tableFilter iptablesOutputChain r) (set_output p (add_rule same at_pos r))"
  unfolding refines_def
proof (intro allI impI)
  fix w V
  assume V: "holds_chains (views w) V"
  then have "view p w (tableFilter, iptablesOutputChain) = Some (snd (V p))"
    by (simp add: holds_chains_def views_def)
  moreover have "target_ok (view p w) tableFilter r"
    using assms by (simp add: target_ok_def builtin_targets_def)
  ultimately obtain b w' where w': "ipt_EnsureRule (ipt p) at_pos tableFilter iptablesOutputChain r w = (Inr b, w')"
      "view p w' = (view p w)((tableFilter, iptablesOutputChain) \<mapsto> add_rule same at_pos r (snd (V p)))"
    using ensure_rule by blast
  have other: "view p' w' = view p' w" if "p' \<noteq> p" for p'
    using other_rule [OF that, of at_pos tableFilter iptablesOutputChain r w] w' by simp
  have eq: "views w' p' = (if p' = p then (views w p)((tableFilter, iptablesOutputChain) \<mapsto>
      add_rule same at_pos r (snd (V p))) else views w p')" for p'
    using w' other by (simp add: views_def)
  show "\<exists>x w'. ipt_EnsureRule (ipt p) at_pos tableFilter iptablesOutputChain r w = (Inr x, w')
      \<and> holds_chains (views w') (set_output p (add_rule same at_pos r) V) \<and> same_others (views w) (views w')"
    using w'(1) V by (auto simp: eq holds_chains_def set_output_def same_others_def own_chain_def)
qed

lemma refines_flush:
  "refines (ignoreE (ipt_FlushChain (ipt p) tableMangle iptablesChain)) (set_marks p (\<lambda>_. []))"
  "refines (ignoreE (ipt_FlushChain (ipt p) tableFilter iptablesOutputChain)) (set_output p (\<lambda>_. []))"
proof -
  have one: "\<exists>w'. ignoreE (ipt_FlushChain (ipt p) t c) w = (Inr (), w')
      \<and> (\<forall>p'. views w' p' = (if p' = p then (views w p)((t, c) \<mapsto> []) else views w p'))"
    if "view p w (t, c) \<noteq> None" for t c w
  proof -
    obtain w' where w': "ignoreE (ipt_FlushChain (ipt p) t c) w = (Inr (), w')"
        "view p w' = (view p w)((t, c) \<mapsto> [])"
      using flush_chain [of p t c w] \<open>view p w (t, c) \<noteq> None\<close> by auto
    have "view p' w' = view p' w" if "p' \<noteq> p" for p'
      using other_flush [OF that, of t c w] w'(1) ignoreE_snd [of "ipt_FlushChain (ipt p) t c" w] by simp
    with w' show ?thesis by (auto simp: views_def)
  qed
  show "refines (ignoreE (ipt_FlushChain (ipt p) tableMangle iptablesChain)) (set_marks p (\<lambda>_. []))"
    unfolding refines_def
  proof (intro allI impI)
    fix w V
    assume V: "holds_chains (views w) V"
    then show "\<exists>x w'. ignoreE (ipt_FlushChain (ipt p) tableMangle iptablesChain) w = (Inr x, w')
        \<and> holds_chains (views w') (set_marks p (\<lambda>_. []) V) \<and> same_others (views w) (views w')"
      using one [of w tableMangle iptablesChain]
      by (auto simp: holds_chains_def views_def [symmetric] set_marks_def same_others_def own_chain_def)
  qed
  show "refines (ignoreE (ipt_FlushChain (ipt p) tableFilter iptablesOutputChain)) (set_output p (\<lambda>_. []))"
    unfolding refines_def
  proof (intro allI impI)
    fix w V
    assume V: "holds_chains (views w) V"
    then show "\<exists>x w'. ignoreE (ipt_FlushChain (ipt p) tableFilter iptablesOutputChain) w = (Inr x, w')
        \<and> holds_chains (views w') (set_output p (\<lambda>_. []) V) \<and> same_others (views w) (views w')"
      using one [of w tableFilter iptablesOutputChain]
      by (auto simp: holds_chains_def views_def [symmetric] set_output_def same_others_def own_chain_def)
  qed
qed

lemma refines_eq: "refines m f \<Longrightarrow> (\<And>V. f V = g V) \<Longrightarrow> refines m g"
  by (simp add: refines_def)

lemma refines_flushChain: "refines (flushChain ipt) (\<lambda>_ _. ([], []))"
  unfolding flushChain_def
  apply (rule refines_eq)
   apply (rule refines_seq refines_flush)+
  apply (auto simp: set_marks_def set_output_def fun_eq_iff)
  apply (metis protocol.exhaust)+
  done

lemma refines_setMark:
  "refines (setIptablesMark ipt at_pos ip proto iface mark mac ports)
     (set_marks (proto_of (Some ip))
       (fold (\<lambda>port. add_rule same at_pos (buildIptablesArgs (ip_string ip) proto iface mark mac port))
         (if ports = [] then [[]] else ports)))"
proof -
  have fold_marks: "fold (\<lambda>x. set_marks p (g x)) xs V = set_marks p (fold g xs) V" for p g xs and V :: chains
    by (induction xs arbitrary: V) (simp_all add: set_marks_def)
  have "refines (forE ports (\<lambda>port. seqE (ipt_EnsureRule (ipt (proto_of (Some ip))) at_pos tableMangle
        iptablesChain (buildIptablesArgs (ip_string ip) proto iface mark mac port)) (\<lambda>_. retE ())))
      (fold (\<lambda>port. set_marks (proto_of (Some ip))
        (add_rule same at_pos (buildIptablesArgs (ip_string ip) proto iface mark mac port))) ports)"
    by (rule refines_for, rule refines_eq, rule refines_seq [OF refines_mark_rule refines_ret(1)]) simp_all
  note many = refines_seq [OF this refines_ret(1) [of True]]
  show ?thesis
  proof (cases "ports = []")
    case True
    then show ?thesis
      by (simp add: setIptablesMark_def refines_mark_rule)
  next
    case False
    then show ?thesis
      using many by (simp add: setIptablesMark_def fold_marks)
  qed
qed

lemma fold_marks: "fold (\<lambda>x. set_marks p (g x)) xs V = set_marks p (fold g xs) V"
  by (induction xs arbitrary: V) (simp_all add: set_marks_def)

lemma fold_output: "fold (\<lambda>x. set_output p (g x)) xs V = set_output p (fold g xs) V"
  by (induction xs arbitrary: V) (simp_all add: set_output_def)

lemma refines_drop:
  "refines (ensureIptablesOutputDrop ipt vip iface)
     (set_output (proto_of (parseIP vip))
       (fold (\<lambda>proto. add_rule same Append (output_drop_rule iface vip proto)) [''udp'', ''tcp'']))"
  unfolding ensureIptablesOutputDrop_def
  by (rule refines_eq, rule refines_for, rule refines_ignore, rule refines_output_rule)
     (simp_all only: rule_target_build fold_output)

lemma refines_neighbors:
  "refines (forE nodeIPs (\<lambda>n. let mac = if_Mac (fp_Net n) in
       if mac = [] then retE () else ignoreE (setIptablesMark ipt Append ip ''ip'' iface dropMark mac [])))
     (set_marks (proto_of (Some ip)) (fold (add_rule same Append) (drop_rules ip iface nodeIPs)))"
proof (induction nodeIPs)
  case Nil
  then show ?case by (simp add: drop_rules_def set_marks_id refines_ret)
next
  case (Cons n ns)
  let ?mac = "if_Mac (fp_Net n)"
  show ?case
  proof (cases "?mac = []")
    case True
    then show ?thesis using Cons by (simp add: drop_rules_def)
  next
    case False
    have "refines (ignoreE (setIptablesMark ipt Append ip ''ip'' iface dropMark ?mac []))
        (set_marks (proto_of (Some ip)) (add_rule same Append
          (buildIptablesArgs (ip_string ip) ''ip'' iface dropMark ?mac [])))"
      using refines_ignore [OF refines_setMark [of Append ip "''ip''" iface dropMark ?mac "[]"]] by simp
    from refines_seq [OF this Cons] False show ?thesis
      by (auto simp: drop_rules_def set_marks_def elim!: refines_eq)
  qed
qed

lemma refines_accept:
  "refines (if ports \<noteq> [] then ignoreE (setIptablesMark ipt Prepend ip proto iface acceptMark [] ports) else retE ())
     (set_marks (proto_of (Some ip))
       (fold (add_rule same Prepend)
         (map (\<lambda>port. buildIptablesArgs (ip_string ip) proto iface acceptMark [] port) ports)))"
proof (cases "ports = []")
  case True
  then show ?thesis by (simp add: set_marks_id refines_ret)
next
  case False
  then show ?thesis
    using refines_ignore [OF refines_setMark [of Prepend ip proto iface acceptMark "[]" ports]]
    by (simp add: fold_map comp_def)
qed

lemma refines_mark:
  "refines (ensureIptablesMark ipt vip iface nodeIPs tcps udps)
     (\<lambda>V. case parseIP vip of None \<Rightarrow> V
        | Some ip \<Rightarrow> set_marks (proto_of (Some ip))
            (add_marks same (drop_rules ip iface nodeIPs) (accept_rules ip iface tcps udps)) V)"
proof (cases "parseIP vip")
  case None
  then show ?thesis by (simp add: ensureIptablesMark_def refines_ret)
next
  case (Some ip)
  show ?thesis
    unfolding ensureIptablesMark_def Some option.case
    by (rule refines_eq, rule refines_seq [OF refines_neighbors], rule refines_seq [OF refines_accept],
        rule refines_accept)
       (simp add: set_marks_comp add_marks_def [abs_def] accept_rules_def)
qed

lemma refines_vip:
  "refines (if vip \<noteq> [] then seqE (ensureIptablesMark ipt vip iface nodeIPs tcps udps)
       (\<lambda>_. ensureIptablesOutputDrop ipt vip iface) else retE ())
     (vip_chains same iface nodeIPs tcps udps vip)"
proof (cases "vip = []")
  case True
  then have "vip_chains same iface nodeIPs tcps udps vip = (\<lambda>V. V)" by (simp add: vip_chains_def fun_eq_iff)
  then show ?thesis using True by (simp add: refines_ret)
next
  case False
  have "refines (seqE (ensureIptablesMark ipt vip iface nodeIPs tcps udps)
       (\<lambda>_. ensureIptablesOutputDrop ipt vip iface)) (vip_chains same iface nodeIPs tcps udps vip)"
    by (rule refines_eq, rule refines_seq [OF refines_mark refines_drop])
       (simp only: vip_chains_def False if_False)
  then show ?thesis using False by simp
qed

text \<open>The whole update: the chains are replaced by the rules of the virtual addresses.\<close>

lemma refines_onUpdate:
  assumes "getIPs me nodes sels allNodeIPs (kp_Bind ipvs) None [] = Inr (Some myIface, nodeIPs)"
  shows "refines (onUpdateIPtables ipt me nodes ipvs sels allNodeIPs tcps udps)
    (\<lambda>_. if kp_HAMode ipvs \<noteq> ActivePassiveHA
         then fold (vip_chains same (if_Name (fp_Net myIface)) nodeIPs tcps udps) (getVIPs ipvs) (\<lambda>_. ([], []))
         else (\<lambda>_. ([], [])))"
proof (cases "kp_HAMode ipvs \<noteq> ActivePassiveHA")
  case True
  have "refines (forE (getVIPs ipvs) (\<lambda>vip. if vip \<noteq> [] then
        seqE (ensureIptablesMark ipt vip (if_Name (fp_Net myIface)) nodeIPs tcps udps)
          (\<lambda>_. ensureIptablesOutputDrop ipt vip (if_Name (fp_Net myIface))) else retE ()))
      (fold (vip_chains same (if_Name (fp_Net myIface)) nodeIPs tcps udps) (getVIPs ipvs))"
    by (rule refines_for) (rule refines_vip)
  from refines_seq [OF refines_flushChain this] True show ?thesis
    unfolding onUpdateIPtables_def assms by simp
next
  case False
  from refines_seq [OF refines_flushChain refines_ret(1) [of "()"]] False show ?thesis
    unfolding onUpdateIPtables_def assms by simp
qed

text \<open>\<open>m\<close> takes the tables of \<open>p\<close> from \<open>T\<close> to \<open>T'\<close> and leaves the other protocol's alone.\<close>

definition does :: "protocol \<Rightarrow> ('w, go_error, 'a) prog \<Rightarrow> tables \<Rightarrow> tables \<Rightarrow> bool" where
  "does p m T T' \<longleftrightarrow> (\<forall>w. view p w = T \<longrightarrow>
     (\<exists>x w'. m w = (Inr x, w') \<and> view p w' = T' \<and> (\<forall>p'. p' \<noteq> p \<longrightarrow> view p' w' = view p' w)))"

lemma does_seq: "does p m T T1 \<Longrightarrow> (\<And>x. does p (k x) T1 T') \<Longrightarrow> does p (seqE m k) T T'"
  unfolding does_def
proof (intro allI impI)
  fix w
  assume m: "\<forall>w. view p w = T \<longrightarrow> (\<exists>x w'. m w = (Inr x, w') \<and> view p w' = T1
        \<and> (\<forall>p'. p' \<noteq> p \<longrightarrow> view p' w' = view p' w))"
    and k: "\<And>x. \<forall>w. view p w = T1 \<longrightarrow> (\<exists>y w'. k x w = (Inr y, w') \<and> view p w' = T'
        \<and> (\<forall>p'. p' \<noteq> p \<longrightarrow> view p' w' = view p' w))"
    and T: "view p w = T"
  obtain x w1 where 1: "m w = (Inr x, w1)" "view p w1 = T1" "\<forall>p'. p' \<noteq> p \<longrightarrow> view p' w1 = view p' w"
    using m T by blast
  obtain y w2 where 2: "k x w1 = (Inr y, w2)" "view p w2 = T'" "\<forall>p'. p' \<noteq> p \<longrightarrow> view p' w2 = view p' w1"
    using k [of x] 1(2) by blast
  show "\<exists>y w'. seqE m k w = (Inr y, w') \<and> view p w' = T' \<and> (\<forall>p'. p' \<noteq> p \<longrightarrow> view p' w' = view p' w)"
    using 1 2 by (auto simp: seqE_def)
qed

lemma does_ignore: "does p m T T' \<Longrightarrow> does p (ignoreE m) T T'"
  unfolding does_def ignoreE_def by fastforce

lemma does_fatal: "does p m T T' \<Longrightarrow> does p (fatal m) T T'"
  unfolding does_def fatal_def by fastforce

lemma does_ensure_chain:
  "T (t, c) = None \<Longrightarrow> does p (ipt_EnsureChain (ipt p) t c) T (T((t, c) \<mapsto> []))"
  unfolding does_def
proof (intro allI impI)
  fix w assume "T (t, c) = None" "view p w = T"
  then show "\<exists>x w'. ipt_EnsureChain (ipt p) t c w = (Inr x, w') \<and> view p w' = T((t, c) \<mapsto> [])
      \<and> (\<forall>p'. p' \<noteq> p \<longrightarrow> view p' w' = view p' w)"
    using ensure_chain [of p t c w] other_chain [of _ p t c w] by fastforce
qed

lemma does_delete_chain:
  "T (t, c) = Some [] \<Longrightarrow> c \<notin> set builtin_chains \<Longrightarrow> \<not> referenced T t c \<Longrightarrow>
     does p (ipt_DeleteChain (ipt p) t c) T (T((t, c) := None))"
  unfolding does_def
proof (intro allI impI)
  fix w assume "T (t, c) = Some []" "c \<notin> set builtin_chains" "\<not> referenced T t c" "view p w = T"
  then show "\<exists>x w'. ipt_DeleteChain (ipt p) t c w = (Inr x, w') \<and> view p w' = T((t, c) := None)
      \<and> (\<forall>p'. p' \<noteq> p \<longrightarrow> view p' w' = view p' w)"
    using delete_chain [of p w t c] other_delete [of _ p t c w] by fastforce
qed

lemma does_ensure_rule:
  "T (t, c) = Some rs \<Longrightarrow> target_ok T t r \<Longrightarrow>
     does p (ipt_EnsureRule (ipt p) at_pos t c r) T (T((t, c) \<mapsto> add_rule same at_pos r rs))"
  unfolding does_def
proof (intro allI impI)
  fix w assume "T (t, c) = Some rs" "target_ok T t r" "view p w = T"
  then show "\<exists>x w'. ipt_EnsureRule (ipt p) at_pos t c r w = (Inr x, w')
      \<and> view p w' = T((t, c) \<mapsto> add_rule same at_pos r rs) \<and> (\<forall>p'. p' \<noteq> p \<longrightarrow> view p' w' = view p' w)"
    using ensure_rule [of p w t c rs r at_pos] other_rule [of _ p at_pos t c r w] by fastforce
qed

lemma does_delete_rule:
  "T (t, c) = Some rs \<Longrightarrow> does p (ipt_DeleteRule (ipt p) t c r) T (T((t, c) \<mapsto> drop_first same r rs))"
  unfolding does_def
proof (intro allI impI)
  fix w assume "T (t, c) = Some rs" "view p w = T"
  then show "\<exists>x w'. ipt_DeleteRule (ipt p) t c r w = (Inr x, w')
      \<and> view p w' = T((t, c) \<mapsto> drop_first same r rs) \<and> (\<forall>p'. p' \<noteq> p \<longrightarrow> view p' w' = view p' w)"
    using delete_rule [of p w t c rs r] other_delete_rule [of _ p t c r w] by fastforce
qed

lemma does_ensureChain_on:
  assumes "fresh_tables same T"
  shows "does p (ensureChain_on (ipt p)) T (with_chains T [] [])"
proof -
  obtain ms os where T: "T (tableMangle, ChainPrerouting) = Some ms" "\<not> has_rule same (jump_to iptablesChain) ms"
      "T (tableFilter, ChainOutput) = Some os" "\<not> has_rule same (jump_to iptablesOutputChain) os"
      "T (tableMangle, iptablesChain) = None" "T (tableFilter, iptablesOutputChain) = None"
    using assms unfolding fresh_tables_def by blast
  let ?T1 = "T((tableMangle, iptablesChain) \<mapsto> [])"
  let ?T2 = "?T1((tableMangle, ChainPrerouting) \<mapsto> ms @ [jump_to iptablesChain])"
  let ?T3 = "?T2((tableFilter, iptablesOutputChain) \<mapsto> [])"
  let ?T4 = "?T3((tableFilter, ChainOutput) \<mapsto> os @ [jump_to iptablesOutputChain])"
  have 1: "does p (ipt_EnsureChain (ipt p) tableMangle iptablesChain) T ?T1"
    by (rule does_ensure_chain) (simp add: T)
  have 2: "does p (ipt_EnsureRule (ipt p) Append tableMangle ChainPrerouting (jump_to iptablesChain)) ?T1 ?T2"
    using does_ensure_rule [of ?T1 tableMangle ChainPrerouting ms "jump_to iptablesChain" p Append] T
    by (simp add: target_ok_def jump_to_def add_rule_def)
  have 3: "does p (ipt_EnsureChain (ipt p) tableFilter iptablesOutputChain) ?T2 ?T3"
    by (rule does_ensure_chain) (simp add: T)
  have 4: "does p (ipt_EnsureRule (ipt p) Append tableFilter ChainOutput (jump_to iptablesOutputChain)) ?T3 ?T4"
    using does_ensure_rule [of ?T3 tableFilter ChainOutput os "jump_to iptablesOutputChain" p Append] T
    by (simp add: target_ok_def jump_to_def add_rule_def)
  have "?T4 = with_chains T [] []" by (simp add: with_chains_def T)
  with does_seq [OF does_fatal [OF 1] does_seq [OF does_ignore [OF 2] does_seq [OF does_fatal [OF 3] does_ignore [OF 4]]]]
  show ?thesis by (simp add: ensureChain_on_def jump_to_def)
qed

lemma does_deleteChain_on:
  assumes "fresh_tables same T"
  shows "does p (deleteChain_on (ipt p)) (with_chains T [] []) T"
proof -
  obtain ms os where T: "T (tableMangle, ChainPrerouting) = Some ms" "\<not> has_rule same (jump_to iptablesChain) ms"
      "T (tableFilter, ChainOutput) = Some os" "\<not> has_rule same (jump_to iptablesOutputChain) os"
      "T (tableMangle, iptablesChain) = None" "T (tableFilter, iptablesOutputChain) = None"
      and ref: "\<not> referenced T tableMangle iptablesChain" "\<not> referenced T tableFilter iptablesOutputChain"
    using assms unfolding fresh_tables_def by blast
  let ?T0 = "with_chains T [] []"
  let ?T1 = "?T0((tableMangle, ChainPrerouting) \<mapsto> ms)"
  let ?T2 = "?T1((tableMangle, iptablesChain) := None)"
  let ?T3 = "?T2((tableFilter, ChainOutput) \<mapsto> os)"
  let ?T4 = "?T3((tableFilter, iptablesOutputChain) := None)"
  have 1: "does p (ipt_DeleteRule (ipt p) tableMangle ChainPrerouting (jump_to iptablesChain)) ?T0 ?T1"
    using does_delete_rule [of ?T0 tableMangle ChainPrerouting "ms @ [jump_to iptablesChain]" p "jump_to iptablesChain"] T
    by (simp add: with_chains_def drop_first_snoc api_same_refl)
  have "\<not> referenced ?T1 tableMangle iptablesChain"
    using ref(1) T(1) unfolding referenced_def with_chains_def
    by (auto split: if_splits)
  then have 2: "does p (ipt_DeleteChain (ipt p) tableMangle iptablesChain) ?T1 ?T2"
    by (intro does_delete_chain) (simp_all add: with_chains_def)
  have 3: "does p (ipt_DeleteRule (ipt p) tableFilter ChainOutput (jump_to iptablesOutputChain)) ?T2 ?T3"
    using does_delete_rule [of ?T2 tableFilter ChainOutput "os @ [jump_to iptablesOutputChain]" p "jump_to iptablesOutputChain"] T
    by (simp add: with_chains_def drop_first_snoc api_same_refl)
  have "\<not> referenced ?T3 tableFilter iptablesOutputChain"
    using ref(2) T(3) unfolding referenced_def with_chains_def
    by (auto split: if_splits)
  then have 4: "does p (ipt_DeleteChain (ipt p) tableFilter iptablesOutputChain) ?T3 ?T4"
    by (intro does_delete_chain) (simp_all add: with_chains_def)
  have "?T4 = T" using T by (auto simp: with_chains_def fun_eq_iff)
  with does_seq [OF does_ignore [OF 1] does_seq [OF does_ignore [OF 2] does_seq [OF does_ignore [OF 3] does_ignore [OF 4]]]]
  show ?thesis by (simp add: deleteChain_on_def jump_to_def)
qed

lemma does_both:
  assumes "\<And>p. does p (body p :: ('w, go_error, unit) prog) (T p) (T' p)" "\<And>p. view p w = T p"
  shows "\<exists>w'. forE [ProtocolIpv4, ProtocolIpv6] body w = (Inr (), w') \<and> (\<forall>p. view p w' = T' p)"
proof -
  obtain w1 where 1: "body ProtocolIpv4 w = (Inr (), w1)" "view ProtocolIpv4 w1 = T' ProtocolIpv4"
      "view ProtocolIpv6 w1 = T ProtocolIpv6"
    using assms(1) [of ProtocolIpv4] assms(2) unfolding does_def by fastforce
  obtain w2 where 2: "body ProtocolIpv6 w1 = (Inr (), w2)" "view ProtocolIpv6 w2 = T' ProtocolIpv6"
      "view ProtocolIpv4 w2 = T' ProtocolIpv4"
    using assms(1) [of ProtocolIpv6] 1 unfolding does_def by fastforce
  have "forE [ProtocolIpv4, ProtocolIpv6] body w = (Inr (), w2)"
    using 1(1) 2(1) by (simp add: seqE_def)
  moreover have "view p w2 = T' p" for p using 2 by (cases p) simp_all
  ultimately show ?thesis by blast
qed

lemma ensureChain_ok:
  assumes "\<And>p. fresh_tables same (view p w)"
  shows "\<exists>w'. ensureChain ipt w = (Inr (), w') \<and> (\<forall>p. view p w' = with_chains (view p w) [] [])"
  unfolding ensureChain_def
  by (rule does_both [where T = "\<lambda>p. view p w"]) (simp_all add: does_ensureChain_on assms)

lemma with_chains_holds:
  "(\<And>p. views w p = with_chains (T p) (fst (V p)) (snd (V p))) \<Longrightarrow> holds_chains (views w) V"
  by (simp add: holds_chains_def with_chains_def)

lemma holds_with_chains:
  assumes "\<And>p. views w p = with_chains (T p) (fst (V p)) (snd (V p))"
    and "same_others (views w) (views w')" "holds_chains (views w') V'"
  shows "views w' p = with_chains (T p) (fst (V' p)) (snd (V' p))"
proof
  fix k
  show "views w' p k = with_chains (T p) (fst (V' p)) (snd (V' p)) k"
  proof (cases "own_chain k")
    case True
    then show ?thesis using assms(3) by (auto simp: own_chain_def holds_chains_def with_chains_def)
  next
    case False
    then have "views w' p k = views w p k" using assms(2) unfolding same_others_def by blast
    with False show ?thesis using assms(1) [of p] by (auto simp: own_chain_def with_chains_def)
  qed
qed

lemma deleteChain_ok:
  assumes fresh: "\<And>p. fresh_tables same (T p)"
    and w: "\<And>p. views w p = with_chains (T p) (fst (V p)) (snd (V p))"
  shows "\<exists>w'. deleteChain ipt w = (Inr (), w') \<and> (\<forall>p. view p w' = T p)"
proof -
  obtain w1 where 1: "flushChain ipt w = (Inr (), w1)" "holds_chains (views w1) (\<lambda>_. ([], []))"
      "same_others (views w) (views w1)"
    using refines_flushChain with_chains_holds [OF w] unfolding refines_def by fastforce
  have "views w1 p = with_chains (T p) [] []" for p
    using holds_with_chains [OF w 1(3) 1(2), of p] by simp
  then have v1: "view p w1 = with_chains (T p) [] []" for p by (simp add: views_def)
  have "\<exists>w'. forE [ProtocolIpv4, ProtocolIpv6] (\<lambda>p. deleteChain_on (ipt p)) w1 = (Inr (), w')
      \<and> (\<forall>p. view p w' = T p)"
    by (rule does_both [where T = "\<lambda>p. with_chains (T p) [] []"])
       (simp_all add: does_deleteChain_on fresh v1)
  then show ?thesis using 1(1) by (simp add: deleteChain_def seqE_def)
qed

text \<open>An update, whatever it returns, keeps the tables but for the rules of the two chains.\<close>

lemma onUpdate_with_chains:
  assumes w: "\<And>p. views w p = with_chains (T p) (fst (V p)) (snd (V p))"
    and run: "onUpdateIPtables ipt me nodes ipvs sels allNodeIPs tcps udps w = (r, w')"
  shows "\<exists>V'. \<forall>p. views w' p = with_chains (T p) (fst (V' p)) (snd (V' p))"
proof (cases "\<exists>myIface nodeIPs. getIPs me nodes sels allNodeIPs (kp_Bind ipvs) None [] = Inr (Some myIface, nodeIPs)")
  case True
  then obtain myIface nodeIPs where ips: "getIPs me nodes sels allNodeIPs (kp_Bind ipvs) None [] = Inr (Some myIface, nodeIPs)"
    by blast
  obtain V' where "holds_chains (views w') V'" "same_others (views w) (views w')"
    using refines_onUpdate [OF ips, of tcps udps] with_chains_holds [OF w] run unfolding refines_def
    by (metis prod.inject)
  with holds_with_chains [OF w] show ?thesis by blast
next
  case False
  then have "w' = w" using run
    by (auto simp: onUpdateIPtables_def split: sum.splits option.splits)
  then show ?thesis using w by blast
qed

text \<open>Created, worked on by any operation of the provider, deleted: the tables are as before.\<close>

lemma chains_round_trip:
  assumes fresh: "\<And>p. fresh_tables same (view p w)" and m: "refines m f"
  shows "\<exists>w'. seqE (ensureChain ipt) (\<lambda>_. seqE m (\<lambda>_. deleteChain ipt)) w = (Inr (), w')
    \<and> (\<forall>p. view p w' = view p w)"
proof -
  obtain w1 where 1: "ensureChain ipt w = (Inr (), w1)" "\<And>p. view p w1 = with_chains (view p w) [] []"
    using ensureChain_ok [OF fresh] by blast
  have v1: "views w1 p = with_chains (view p w) (fst (([], []) :: rule list \<times> rule list)) (snd (([], []) :: rule list \<times> rule list))" for p
    using 1(2) by (simp add: views_def)
  have "holds_chains (views w1) (\<lambda>_. ([], []))"
    by (rule with_chains_holds) (rule v1)
  then obtain x w2 where 2: "m w1 = (Inr x, w2)" "holds_chains (views w2) (f (\<lambda>_. ([], [])))"
      "same_others (views w1) (views w2)"
    using m unfolding refines_def by blast
  have v2: "views w2 p = with_chains (view p w) (fst (f (\<lambda>_. ([], [])) p)) (snd (f (\<lambda>_. ([], [])) p))" for p
    by (rule holds_with_chains [where V = "\<lambda>_. ([], [])", OF _ 2(3) 2(2)]) (simp add: v1)
  obtain w3 where 3: "deleteChain ipt w2 = (Inr (), w3)" "\<forall>p. view p w3 = view p w"
    using deleteChain_ok [OF fresh v2] by blast
  show ?thesis using 1 2 3 by (auto simp: seqE_def)
qed

end

section \<open>What the rules do to packets\<close>

text \<open>
  A packet by what the rules look at, and the effect of a rule on its mark as iptables documents
  the options used here. \<open>dports\<close> says which ports a \<open>--dports\<close> argument covers.
\<close>

record packet =
  pk_in :: string
  pk_dst :: ip
  pk_proto :: string
  pk_dport :: nat
  pk_mac :: string

definition match_opt :: "(string \<Rightarrow> nat \<Rightarrow> bool) \<Rightarrow> string \<Rightarrow> string \<Rightarrow> packet \<Rightarrow> bool" where
  "match_opt dports opt arg p =
     (if opt = ''-i'' then pk_in p = arg
      else if opt = ''-d'' then parseIP arg = Some (pk_dst p)
      else if opt = ''-p'' then arg = ''ip'' \<or> pk_proto p = arg
      else if opt = ''--dports'' then dports arg (pk_dport p)
      else if opt = ''--mac-source'' then pk_mac p = arg
      else True)"

fun rule_match :: "(string \<Rightarrow> nat \<Rightarrow> bool) \<Rightarrow> rule \<Rightarrow> packet \<Rightarrow> bool" where
  "rule_match dports (opt # arg # r) p = (match_opt dports opt arg p \<and> rule_match dports r p)"
| "rule_match dports _ p = True"

text \<open>\<open>--set-xmark value/mask\<close>: clear the bits of the mask, then exclusive-or with the value.\<close>

fun xmark_of :: "rule \<Rightarrow> (32 word \<times> 32 word) option" where
  "xmark_of (opt # arg # r) =
     (if opt = ''--set-xmark'' then
        (case split_on (CHR ''/'') arg of
           [v, k] \<Rightarrow> (case xtoi (drop 2 k) of
               Some (n, []) \<Rightarrow> Some (of_int (fst (atoi v)), of_nat n)
             | _ \<Rightarrow> None)
         | _ \<Rightarrow> None)
      else xmark_of r)"
| "xmark_of _ = None"

definition rule_mark :: "(string \<Rightarrow> nat \<Rightarrow> bool) \<Rightarrow> packet \<Rightarrow> rule \<Rightarrow> 32 word \<Rightarrow> 32 word" where
  "rule_mark dports p r m =
     (if rule_match dports r p
      then case xmark_of r of None \<Rightarrow> m | Some (v, k) \<Rightarrow> xor (and m (not k)) v
      else m)"

text \<open>\<open>MARK\<close> does not end the traversal: the rules apply one after the other.\<close>

definition chain_mark :: "(string \<Rightarrow> nat \<Rightarrow> bool) \<Rightarrow> rule list \<Rightarrow> packet \<Rightarrow> 32 word \<Rightarrow> 32 word" where
  "chain_mark dports rs p m = fold (rule_mark dports p) rs m"

lemma match_build:
  "rule_match dports (buildIptablesArgs vip protocol iface mark mac port) p \<longleftrightarrow>
     pk_in p = iface \<and> parseIP vip = Some (pk_dst p) \<and> (protocol = ''ip'' \<or> pk_proto p = protocol)
     \<and> (port = [] \<or> dports port (pk_dport p)) \<and> (mac = [] \<or> pk_mac p = mac)"
  by (auto simp: buildIptablesArgs_def match_opt_def)

lemma xmark_accept: "xmark_of (buildIptablesArgs vip protocol iface acceptMark mac port) = Some (1, 1)"
  and xmark_drop: "xmark_of (buildIptablesArgs vip protocol iface dropMark mac port) = Some (0, 1)"
proof -
  have one: "itoa 1 = ''1''" and zero: "itoa 0 = ''0''" by (simp_all add: itoa_def str_eval)
  have hex: "xtoi ''00000001'' = Some (1, [])" by (simp add: xtoi_def hex_val_def)
  have at: "fst (atoi ''1'') = 1" "fst (atoi ''0'') = 0"
    using atoi_itoa [of 1] atoi_itoa [of 0] by (simp_all add: one zero min_int64_def max_int64_def)
  show "xmark_of (buildIptablesArgs vip protocol iface acceptMark mac port) = Some (1, 1)"
    by (simp add: buildIptablesArgs_def acceptMark_def mark_mask_def one hex at)
  show "xmark_of (buildIptablesArgs vip protocol iface dropMark mac port) = Some (0, 1)"
    by (simp add: buildIptablesArgs_def dropMark_def mark_mask_def zero hex at)
qed

text \<open>Setting and clearing bit 0.\<close>

definition set_bit0 :: "32 word \<Rightarrow> 32 word" where "set_bit0 m = or m 1"
definition clear_bit0 :: "32 word \<Rightarrow> 32 word" where "clear_bit0 m = and m (not 1)"

lemma bit0_laws:
  "xor (and m (not 1)) 1 = set_bit0 m" "set_bit0 (set_bit0 m) = set_bit0 m"
  "clear_bit0 (clear_bit0 m) = clear_bit0 m" "clear_bit0 (set_bit0 m) = clear_bit0 m"
  by (rule bit_eqI; auto simp: set_bit0_def clear_bit0_def bit_simps)+

lemma rule_mark_accept:
  "xmark_of r = Some (1, 1) \<Longrightarrow> rule_mark dports p r m = (if rule_match dports r p then set_bit0 m else m)"
  using bit0_laws(1) [of m] by (simp add: rule_mark_def del: bit.conj_disj_distribs)

lemma rule_mark_drop:
  "xmark_of r = Some (0, 1) \<Longrightarrow> rule_mark dports p r m = (if rule_match dports r p then clear_bit0 m else m)"
  by (simp add: rule_mark_def clear_bit0_def)

lemma chain_accepts:
  "(\<And>r. r \<in> set A \<Longrightarrow> xmark_of r = Some (1, 1)) \<Longrightarrow>
     chain_mark dports A p m = (if \<exists>r \<in> set A. rule_match dports r p then set_bit0 m else m)"
proof (induction A arbitrary: m)
  case (Cons r A)
  then show ?case by (auto simp: chain_mark_def rule_mark_accept bit0_laws)
qed (simp add: chain_mark_def)

lemma chain_drops:
  "(\<And>r. r \<in> set D \<Longrightarrow> xmark_of r = Some (0, 1)) \<Longrightarrow>
     chain_mark dports D p m = (if \<exists>r \<in> set D. rule_match dports r p then clear_bit0 m else m)"
proof (induction D arbitrary: m)
  case (Cons r D)
  then show ?case by (auto simp: chain_mark_def rule_mark_drop bit0_laws)
qed (simp add: chain_mark_def)

section \<open>The chain after an update\<close>

text \<open>
  The order that makes it work: the accepting rules are in front of the dropping ones, and no rule
  that was asked for is missing.
\<close>

definition marks_inv ::
  "(rule \<Rightarrow> rule \<Rightarrow> bool) \<Rightarrow> rule set \<Rightarrow> rule set \<Rightarrow> rule list \<Rightarrow> bool" where
  "marks_inv same acc dr rs \<longleftrightarrow>
     (\<exists>A D. rs = A @ D \<and> set A \<subseteq> acc \<and> set D \<subseteq> dr) \<and> (\<forall>r \<in> acc \<union> dr. has_rule same r rs)"

lemma has_rule_add: "has_rule same r rs \<Longrightarrow> has_rule same r (add_rule same ps r' rs)"
  by (auto simp: has_rule_def add_rule_def split: rule_position.split)

lemma has_rule_added: "same r r \<Longrightarrow> has_rule same r (add_rule same ps r rs)"
  by (auto simp: has_rule_def add_rule_def split: rule_position.split)

lemma marks_inv_prepend:
  assumes "marks_inv same acc dr rs" "same r r"
  shows "marks_inv same (insert r acc) dr (add_rule same Prepend r rs)"
proof -
  obtain A D where AD: "rs = A @ D" "set A \<subseteq> acc" "set D \<subseteq> dr"
    using assms(1) by (auto simp: marks_inv_def)
  have "\<exists>A D. add_rule same Prepend r rs = A @ D \<and> set A \<subseteq> insert r acc \<and> set D \<subseteq> dr"
  proof (cases "has_rule same r rs")
    case True
    then show ?thesis using AD by (intro exI [of _ A] exI [of _ D]) (auto simp: add_rule_def)
  next
    case False
    then show ?thesis using AD by (intro exI [of _ "r # A"] exI [of _ D]) (auto simp: add_rule_def)
  qed
  then show ?thesis using assms has_rule_add has_rule_added by (auto simp: marks_inv_def)
qed

lemma marks_inv_append:
  assumes "marks_inv same acc dr rs" "same r r"
  shows "marks_inv same acc (insert r dr) (add_rule same Append r rs)"
proof -
  obtain A D where AD: "rs = A @ D" "set A \<subseteq> acc" "set D \<subseteq> dr"
    using assms(1) by (auto simp: marks_inv_def)
  have "\<exists>A D. add_rule same Append r rs = A @ D \<and> set A \<subseteq> acc \<and> set D \<subseteq> insert r dr"
  proof (cases "has_rule same r rs")
    case True
    then show ?thesis using AD by (intro exI [of _ A] exI [of _ D]) (auto simp: add_rule_def)
  next
    case False
    then show ?thesis using AD by (intro exI [of _ A] exI [of _ "D @ [r]"]) (auto simp: add_rule_def)
  qed
  then show ?thesis using assms has_rule_add has_rule_added by (auto simp: marks_inv_def)
qed

lemma marks_inv_appends:
  "marks_inv same acc dr rs \<Longrightarrow> (\<And>r. same r r) \<Longrightarrow>
     marks_inv same acc (dr \<union> set drops) (fold (add_rule same Append) drops rs)"
proof (induction drops arbitrary: dr rs)
  case (Cons d drops)
  show ?case
    using Cons.IH [OF marks_inv_append [OF Cons.prems(1) Cons.prems(2), of d] Cons.prems(2)] by simp
qed simp

lemma marks_inv_prepends:
  "marks_inv same acc dr rs \<Longrightarrow> (\<And>r. same r r) \<Longrightarrow>
     marks_inv same (acc \<union> set accepts) dr (fold (add_rule same Prepend) accepts rs)"
proof (induction accepts arbitrary: acc rs)
  case (Cons a accepts)
  show ?case
    using Cons.IH [OF marks_inv_prepend [OF Cons.prems(1) Cons.prems(2), of a] Cons.prems(2)] by simp
qed simp

text \<open>The rules asked for by a list of virtual addresses, in the tables of \<open>pr\<close>.\<close>

definition vip_ips :: "protocol \<Rightarrow> string list \<Rightarrow> ip set" where
  "vip_ips pr vips = {ip. \<exists>vip \<in> set vips. parseIP vip = Some ip \<and> proto_of (Some ip) = pr}"

lemma vip_ips_Nil [simp]: "vip_ips pr [] = {}"
  by (simp add: vip_ips_def)

lemma vip_chains_fst:
  "fst (vip_chains same iface nodeIPs tcps udps vip V pr) =
     (case parseIP vip of
        Some ip \<Rightarrow> if proto_of (Some ip) = pr
          then add_marks same (drop_rules ip iface nodeIPs) (accept_rules ip iface tcps udps) (fst (V pr))
          else fst (V pr)
      | None \<Rightarrow> fst (V pr))"
  by (auto simp: vip_chains_def set_output_def set_marks_def split: option.split)

lemma update_marks_inv:
  assumes "\<And>r. same r r"
    and "marks_inv same acc dr (fst (V pr))"
  shows "marks_inv same (acc \<union> (\<Union>ip \<in> vip_ips pr vips. set (accept_rules ip iface tcps udps)))
     (dr \<union> (\<Union>ip \<in> vip_ips pr vips. set (drop_rules ip iface nodeIPs)))
     (fst (fold (vip_chains same iface nodeIPs tcps udps) vips V pr))"
  using assms(2)
proof (induction vips arbitrary: V acc dr)
  case (Cons vip vips)
  show ?case
  proof (cases "\<exists>ip. parseIP vip = Some ip \<and> proto_of (Some ip) = pr")
    case True
    then obtain ip where ip: "parseIP vip = Some ip" "proto_of (Some ip) = pr" by blast
    then have ips: "vip_ips pr (vip # vips) = insert ip (vip_ips pr vips)" by (auto simp: vip_ips_def)
    have "marks_inv same (acc \<union> set (accept_rules ip iface tcps udps)) (dr \<union> set (drop_rules ip iface nodeIPs))
        (fst (vip_chains same iface nodeIPs tcps udps vip V pr))"
      using marks_inv_prepends [OF marks_inv_appends [OF Cons.prems assms(1)] assms(1)] ip
      by (simp add: vip_chains_fst add_marks_def)
    from Cons.IH [where V = "vip_chains same iface nodeIPs tcps udps vip V", OF this]
    show ?thesis by (simp add: ips Un_assoc)
  next
    case False
    then have "vip_ips pr (vip # vips) = vip_ips pr vips"
        "fst (vip_chains same iface nodeIPs tcps udps vip V pr) = fst (V pr)"
      by (auto simp: vip_ips_def vip_chains_fst split: option.split)
    then show ?thesis using Cons.IH [of acc dr "vip_chains same iface nodeIPs tcps udps vip V"] Cons.prems
      by simp
  qed
qed simp

text \<open>Rules the command takes for the same must do the same to packets.\<close>

definition same_sem :: "(string \<Rightarrow> nat \<Rightarrow> bool) \<Rightarrow> (rule \<Rightarrow> rule \<Rightarrow> bool) \<Rightarrow> bool" where
  "same_sem dports same \<longleftrightarrow>
     (\<forall>r r'. same r r' \<longrightarrow> xmark_of r = xmark_of r' \<and> rule_match dports r = rule_match dports r')"

lemma marks_inv_mark:
  assumes inv: "marks_inv same acc dr rs" and sem: "same_sem dports same"
    and acc: "\<And>r. r \<in> acc \<Longrightarrow> xmark_of r = Some (1, 1)" and dr: "\<And>r. r \<in> dr \<Longrightarrow> xmark_of r = Some (0, 1)"
  shows "chain_mark dports rs p m =
    (if \<exists>r \<in> dr. rule_match dports r p then clear_bit0 m
     else if \<exists>r \<in> acc. rule_match dports r p then set_bit0 m else m)"
proof -
  obtain A D where AD: "rs = A @ D" "set A \<subseteq> acc" "set D \<subseteq> dr"
    using inv by (auto simp: marks_inv_def)
  have has: "\<exists>r' \<in> set rs. xmark_of r' = xmark_of r \<and> rule_match dports r' = rule_match dports r"
    if "r \<in> acc \<union> dr" for r
  proof -
    have "has_rule same r rs" using inv that by (simp add: marks_inv_def)
    then obtain r' where "r' \<in> set rs" "same r r'" by (auto simp: has_rule_def list_ex_iff)
    then show ?thesis using sem unfolding same_sem_def by metis
  qed
  have A: "(\<exists>r \<in> set A. rule_match dports r p) \<longleftrightarrow> (\<exists>r \<in> acc. rule_match dports r p)"
  proof
    assume "\<exists>r \<in> acc. rule_match dports r p"
    then obtain r where r: "r \<in> acc" "rule_match dports r p" by blast
    then obtain r' where "r' \<in> set rs" "xmark_of r' = Some (1, 1)" "rule_match dports r' p"
      using has [of r] acc by auto
    moreover then have "r' \<notin> set D" using AD(3) dr by force
    ultimately show "\<exists>r \<in> set A. rule_match dports r p" using AD(1) by auto
  qed (use AD in blast)
  have D: "(\<exists>r \<in> set D. rule_match dports r p) \<longleftrightarrow> (\<exists>r \<in> dr. rule_match dports r p)"
  proof
    assume "\<exists>r \<in> dr. rule_match dports r p"
    then obtain r where r: "r \<in> dr" "rule_match dports r p" by blast
    then obtain r' where "r' \<in> set rs" "xmark_of r' = Some (0, 1)" "rule_match dports r' p"
      using has [of r] dr by auto
    moreover then have "r' \<notin> set A" using AD(2) acc by force
    ultimately show "\<exists>r \<in> set D. rule_match dports r p" using AD(1) by auto
  qed (use AD in blast)
  have "chain_mark dports rs p m = chain_mark dports D p (chain_mark dports A p m)"
    using AD(1) by (simp add: chain_mark_def)
  also have "\<dots> = (if \<exists>r \<in> set D. rule_match dports r p then clear_bit0 m
     else if \<exists>r \<in> set A. rule_match dports r p then set_bit0 m else m)"
  proof -
    have "chain_mark dports A p m = (if \<exists>r \<in> set A. rule_match dports r p then set_bit0 m else m)"
      using AD(2) acc by (intro chain_accepts) blast
    moreover have "chain_mark dports D p m' =
        (if \<exists>r \<in> set D. rule_match dports r p then clear_bit0 m' else m')" for m'
      using AD(3) dr by (intro chain_drops) blast
    ultimately show ?thesis by (simp add: bit0_laws)
  qed
  finally show ?thesis by (simp only: A D)
qed

text \<open>Packets the rules of an update are about.\<close>

definition to_vip :: "protocol \<Rightarrow> string \<Rightarrow> string list \<Rightarrow> packet \<Rightarrow> bool" where
  "to_vip pr iface vips p \<longleftrightarrow>
     pk_in p = iface \<and> (\<exists>ip \<in> vip_ips pr vips. parseIP (ip_string ip) = Some (pk_dst p))"

definition from_director :: "iface_preferred list \<Rightarrow> packet \<Rightarrow> bool" where
  "from_director nodeIPs p \<longleftrightarrow> (\<exists>n \<in> set nodeIPs. if_Mac (fp_Net n) \<noteq> [] \<and> pk_mac p = if_Mac (fp_Net n))"

definition to_exported :: "(string \<Rightarrow> nat \<Rightarrow> bool) \<Rightarrow> string list \<Rightarrow> string list \<Rightarrow> packet \<Rightarrow> bool" where
  "to_exported dports tcps udps p \<longleftrightarrow>
     pk_proto p = ''tcp'' \<and> (\<exists>port \<in> set tcps. port = [] \<or> dports port (pk_dport p))
     \<or> pk_proto p = ''udp'' \<and> (\<exists>port \<in> set udps. port = [] \<or> dports port (pk_dport p))"

lemma drop_rules_match:
  "(\<exists>r \<in> set (drop_rules ip iface nodeIPs). rule_match dports r p) \<longleftrightarrow>
     pk_in p = iface \<and> parseIP (ip_string ip) = Some (pk_dst p) \<and> from_director nodeIPs p"
  by (auto simp: drop_rules_def match_build from_director_def)

lemma accept_rules_match:
  "(\<exists>r \<in> set (accept_rules ip iface tcps udps). rule_match dports r p) \<longleftrightarrow>
     pk_in p = iface \<and> parseIP (ip_string ip) = Some (pk_dst p) \<and> to_exported dports tcps udps p"
  by (simp add: accept_rules_def match_build to_exported_def bex_Un) blast

lemma update_marks:
  assumes "\<And>r. same r r" "same_sem dports same"
  shows "chain_mark dports (fst (fold (vip_chains same iface nodeIPs tcps udps) vips (\<lambda>_. ([], [])) pr)) p m =
    (if to_vip pr iface vips p \<and> from_director nodeIPs p then clear_bit0 m
     else if to_vip pr iface vips p \<and> to_exported dports tcps udps p then set_bit0 m else m)"
proof -
  let ?acc = "\<Union>ip \<in> vip_ips pr vips. set (accept_rules ip iface tcps udps)"
  let ?dr = "\<Union>ip \<in> vip_ips pr vips. set (drop_rules ip iface nodeIPs)"
  have "marks_inv same {} {} (fst ((\<lambda>_. ([], [])) pr))" by (simp add: marks_inv_def)
  from update_marks_inv [OF assms(1) this, where vips = vips and iface = iface and tcps = tcps and udps = udps and nodeIPs = nodeIPs]
  have inv: "marks_inv same ?acc ?dr
      (fst (fold (vip_chains same iface nodeIPs tcps udps) vips (\<lambda>_. ([], [])) pr))" by simp
  have "(\<exists>r \<in> ?dr. rule_match dports r p) \<longleftrightarrow> to_vip pr iface vips p \<and> from_director nodeIPs p"
    using drop_rules_match [of _ iface nodeIPs dports p] by (auto simp: to_vip_def)
  moreover have "(\<exists>r \<in> ?acc. rule_match dports r p) \<longleftrightarrow> to_vip pr iface vips p \<and> to_exported dports tcps udps p"
    using accept_rules_match [of _ iface tcps udps dports p] by (auto simp: to_vip_def)
  moreover have "r \<in> ?acc \<Longrightarrow> xmark_of r = Some (1, 1)" for r
    by (auto simp: accept_rules_def xmark_accept)
  moreover have "r \<in> ?dr \<Longrightarrow> xmark_of r = Some (0, 1)" for r
    by (auto simp: drop_rules_def xmark_drop)
  ultimately show ?thesis using marks_inv_mark [OF inv assms(2), of p m] by simp
qed

text \<open>A virtual IPv4 address is what the rules made from it match.\<close>

lemma to_vip_ipv4:
  "parseIP vip = Some (v4_prefix @ [b0, b1, b2, b3]) \<Longrightarrow>
     to_vip ProtocolIpv4 iface [vip] p \<longleftrightarrow> pk_in p = iface \<and> pk_dst p = v4_prefix @ [b0, b1, b2, b3]"
  by (auto simp: to_vip_def vip_ips_def ip_string_def parseIP_ipv4_string proto_of_def getIPVersion_def
      ipv4Version_def ipv6Version_def)

section \<open>Properties\<close>


text \<open>The property at a concrete node: one director, one virtual address, one exported port.\<close>

definition example_iface :: interface_net where
  "example_iface = \<lparr> if_Name = ''eth0'', if_Mac = ''02:00'', if_IPs = Some [''10.0.0.1''] \<rparr>"

definition example_selector :: node_net_selector where
  "example_selector = \<lparr> nn_k8sNodeIP = ''10.0.0.1'', nn_ifaces = [], nn_ips = [] \<rparr>"

definition example_status :: node_status where
  "example_status = \<lparr> st_Name = ''n1'', st_IfaceNetList = Some [example_iface] \<rparr>"

definition example_ipvs :: ipvsdr_provider where
  "example_ipvs = \<lparr> kp_VIP = ''10.0.0.9'', kp_VIPs = [], kp_Scheduler = ''rr'', kp_HAMode = [],
     kp_Bind = None, ip_Slaves = [] \<rparr>"

definition example_tables :: table_pair where
  "example_tables = (\<lambda>_ k. if own_chain k then Some []
     else if k \<in> {(tableMangle, ChainPrerouting), (tableFilter, ChainOutput)} then Some [] else None)"

lemma example_getIPs:
  "getIPs ''n1'' [''n1''] [(''n1'', example_selector)] [(''n1'', example_status)] (kp_Bind example_ipvs) None [] =
     Inr (Some \<lparr> fp_Net = example_iface, fp_preferredIP = ''10.0.0.1'' \<rparr>,
          [\<lparr> fp_Net = example_iface, fp_preferredIP = ''10.0.0.1'' \<rparr>])"
  by (simp add: example_ipvs_def example_selector_def example_status_def example_iface_def getNodeNetwork_def Let_def)


text \<open>
  C20: the chains are created by \<open>Start\<close> in tables that have none of the provider's, worked on by an
  update, and deleted by \<open>Stop\<close>: all tables of both protocols are then exactly what they were.
\<close>

theorem chains_start_update_stop:
  assumes "iptables_tool exec view same" "\<And>p. fresh_tables same (view p w)"
    and "getIPs me nodes sels allNodeIPs (kp_Bind ipvs) None [] = Inr (Some myIface, nodeIPs)"
  shows "\<exists>w'. seqE (ensureChain (newRunner exec)) (\<lambda>_.
        seqE (onUpdateIPtables (newRunner exec) me nodes ipvs sels allNodeIPs tcps udps) (\<lambda>_.
        deleteChain (newRunner exec))) w = (Inr (), w')
    \<and> (\<forall>p. view p w' = view p w)"
proof -
  have api: "iptables_api (newRunner exec) view same"
    using assms(1) by (rule iptables_tool.runner_api)
  show ?thesis
    by (rule iptables_api.chains_round_trip [OF api assms(2) iptables_api.refines_onUpdate [OF api assms(3)]])
qed

lemma chains_start_update_stop_witness:
  "\<exists>w'. seqE (ensureChain (newRunner reference_exec)) (\<lambda>_.
        seqE (onUpdateIPtables (newRunner reference_exec) ''n1'' [''n1''] example_ipvs
          [(''n1'', example_selector)] [(''n1'', example_status)] [''80''] []) (\<lambda>_.
        deleteChain (newRunner reference_exec)))
      (\<lambda>_ k. if k \<in> {(tableMangle, ChainPrerouting), (tableFilter, ChainOutput)} then Some [] else None)
      = (Inr (), w')
    \<and> (\<forall>p. w' p = (\<lambda>k. if k \<in> {(tableMangle, ChainPrerouting), (tableFilter, ChainOutput)} then Some [] else None))"
proof -
  have "fresh_tables (=) (\<lambda>k. if k \<in> {(tableMangle, ChainPrerouting), (tableFilter, ChainOutput)} then Some [] else None)"
    by (auto simp: fresh_tables_def has_rule_def referenced_def split: if_splits)
  from chains_start_update_stop [OF ref_tool.iptables_tool_axioms, of
      "\<lambda>_ k. if k \<in> {(tableMangle, ChainPrerouting), (tableFilter, ChainOutput)} then Some [] else None",
      OF this example_getIPs]
  show ?thesis .
qed

end
