(* ===== verification/Execd.thy ===== *)
theory Execd
  imports Errors GoPrelude
begin

text \<open>
  \<open>pkg/execd/execd.go\<close>: a daemon process that is restarted when it is gone. The state is the
  struct \<open>D\<close>, its keepalive goroutine and the operating system's process table; what the operating
  system answers (a start fails, a process ends on SIGTERM) is an argument of each operation. One
  iteration of the goroutine's loop is one step, so that calls and iterations interleave freely.
\<close>

section \<open>State\<close>

text \<open>\<open>*exec.Cmd\<close>, by its \<open>Process\<close>: \<open>None\<close> until \<open>Start\<close> succeeded, then the process id.\<close>

type_synonym exec_cmd = "nat option"

text \<open>
  What \<open>D\<close> and \<open>exec.Cmd\<close> have in common: how to start the program. A reader, a writer or a
  pointer to attributes is a value of the caller, by its number.
\<close>

record exec_spec =
  xs_Path :: string
  xs_Args :: "string slice"
  xs_Env :: "string slice"
  xs_Dir :: string
  xs_Stdin :: "nat option"
  xs_Stdout :: "nat option"
  xs_Stderr :: "nat option"
  xs_SysProcAttr :: "nat option"

text \<open>
  A handler given to \<open>SetGracefulShutDown\<close>, by what it does to the process it gets: its error, and
  whether the process has ended.
\<close>

type_synonym shutdown_handler = "nat \<Rightarrow> go_error option \<times> bool"

record daemon =
  d_spec :: exec_spec
  d_lookPathErr :: "go_error option"
  d_gracePeriod :: int
  d_gracefulShutDown :: "shutdown_handler option"
  d_cmd :: "exec_cmd option"
  d_stopCh :: "bool option"           \<comment> \<open>nil, or made: is it closed\<close>
  d_errCh :: "bool option"
  d_keepalive :: "nat option"         \<comment> \<open>the goroutine, by its \<open>restartErrTimes\<close>\<close>
  os_live :: "nat list"               \<comment> \<open>process ids in the process table\<close>
  os_next :: nat

definition crashBackoff :: nat where "crashBackoff = 3"

section \<open>Construction\<close>

definition exec_spec_of :: "string \<Rightarrow> string slice \<Rightarrow> exec_spec" where
  "exec_spec_of path args = \<lparr> xs_Path = path, xs_Args = args, xs_Env = None, xs_Dir = [],
     xs_Stdin = None, xs_Stdout = None, xs_Stderr = None, xs_SysProcAttr = None \<rparr>"

text \<open>The struct with the given program, in a process table without processes of it.\<close>

definition new_daemon :: "exec_spec \<Rightarrow> daemon" where
  "new_daemon c = \<lparr> d_spec = c, d_lookPathErr = None, d_gracePeriod = 0, d_gracefulShutDown = None,
     d_cmd = None, d_stopCh = None, d_errCh = None, d_keepalive = None, os_live = [], os_next = 0 \<rparr>"

text \<open>
  \<open>Daemon\<close>: a name without a path separator is looked up. \<open>LookPath\<close> is the operating system's.
\<close>

definition is_base_name :: "string \<Rightarrow> bool" where
  "is_base_name name \<longleftrightarrow> name \<noteq> [] \<and> CHR ''/'' \<notin> set name \<or> name = ''/''"

definition Daemon :: "(string \<Rightarrow> go_error + string) \<Rightarrow> string \<Rightarrow> string list \<Rightarrow> daemon" where
  "Daemon lookPath name args =
     (let d = new_daemon (exec_spec_of name (Some (name # args))) in
      if is_base_name name then
        (case lookPath name of
           Inl e \<Rightarrow> d\<lparr>d_lookPathErr := Some e\<rparr>
         | Inr lp \<Rightarrow> d\<lparr>d_spec := (d_spec d)\<lparr>xs_Path := lp\<rparr>\<rparr>)
      else d)"

definition convertFromExec :: "exec_spec \<Rightarrow> daemon" where
  "convertFromExec c = new_daemon
     \<lparr> xs_Path = xs_Path c, xs_Args = xs_Args c, xs_Env = xs_Env c, xs_Dir = xs_Dir c,
       xs_Stdin = xs_Stdin c, xs_Stdout = xs_Stdout c, xs_Stderr = xs_Stderr c,
       xs_SysProcAttr = xs_SysProcAttr c \<rparr>"

definition DaemonFrom :: "exec_spec \<Rightarrow> daemon" where
  "DaemonFrom c = convertFromExec c"

text \<open>What \<open>delegate\<close> copies into a new \<open>exec.Cmd\<close>, whose \<open>Process\<close> is nil.\<close>

definition convertToExec :: "daemon \<Rightarrow> exec_spec \<times> exec_cmd" where
  "convertToExec d =
     (\<lparr> xs_Path = xs_Path (d_spec d), xs_Args = xs_Args (d_spec d), xs_Env = xs_Env (d_spec d),
        xs_Dir = xs_Dir (d_spec d), xs_Stdin = xs_Stdin (d_spec d), xs_Stdout = xs_Stdout (d_spec d),
        xs_Stderr = xs_Stderr (d_spec d), xs_SysProcAttr = xs_SysProcAttr (d_spec d) \<rparr>, None)"

definition delegate :: "daemon \<Rightarrow> exec_cmd" where
  "delegate d = snd (convertToExec d)"

text \<open>\<open>Name\<close>, \<open>SetGracePeriod\<close> (in seconds) and \<open>SetGracefulShutDown\<close>.\<close>

definition Name :: "daemon \<Rightarrow> string" where
  "Name d = (case elems (xs_Args (d_spec d)) of [] \<Rightarrow> xs_Path (d_spec d) | a # _ \<Rightarrow> a)"

definition SetGracePeriod :: "int \<Rightarrow> daemon \<Rightarrow> daemon" where
  "SetGracePeriod t d = d\<lparr>d_gracePeriod := t\<rparr>"

definition SetGracefulShutDown :: "shutdown_handler option \<Rightarrow> daemon \<Rightarrow> daemon" where
  "SetGracefulShutDown f d = d\<lparr>d_gracefulShutDown := f\<rparr>"

lemma delegate_None [simp]: "delegate d = None"
  by (simp add: delegate_def convertToExec_def)

lemma DaemonFrom_round_trip: "convertToExec (DaemonFrom c) = (c, None)"
  by (simp add: convertToExec_def DaemonFrom_def convertFromExec_def new_daemon_def)

lemma Daemon_simps [simp]:
  "d_cmd (Daemon look name args) = None" "d_stopCh (Daemon look name args) = None"
  "d_errCh (Daemon look name args) = None" "d_keepalive (Daemon look name args) = None"
  "os_live (Daemon look name args) = []" "os_next (Daemon look name args) = 0"
  "d_gracefulShutDown (Daemon look name args) = None"
  by (simp_all add: Daemon_def new_daemon_def Let_def split: sum.split)

lemma Daemon_Name: "Name (Daemon look name args) = name"
  by (simp add: Daemon_def new_daemon_def Name_def exec_spec_of_def Let_def split: sum.split)

lemma SetGracePeriod_simps [simp]:
  "d_spec (SetGracePeriod t d) = d_spec d" "d_lookPathErr (SetGracePeriod t d) = d_lookPathErr d"
  "d_gracePeriod (SetGracePeriod t d) = t" "d_gracefulShutDown (SetGracePeriod t d) = d_gracefulShutDown d"
  "d_cmd (SetGracePeriod t d) = d_cmd d" "d_stopCh (SetGracePeriod t d) = d_stopCh d"
  "d_errCh (SetGracePeriod t d) = d_errCh d" "d_keepalive (SetGracePeriod t d) = d_keepalive d"
  "os_live (SetGracePeriod t d) = os_live d" "os_next (SetGracePeriod t d) = os_next d"
  by (simp_all add: SetGracePeriod_def)

section \<open>Operations\<close>

definition ErrNotRunning :: go_error where
  "ErrNotRunning = Errorf ''execd: process is not running''"

text \<open>\<open>Command\<close> answers the command, of which the process is modelled.\<close>

definition Command :: "daemon \<Rightarrow> exec_cmd option" where
  "Command d = d_cmd d"

definition IsRunning :: "daemon \<Rightarrow> bool" where
  "IsRunning d = (case d_cmd d of Some (Some pid) \<Rightarrow> pid \<in> set (os_live d) | _ \<Rightarrow> False)"

definition Pid :: "daemon \<Rightarrow> go_error + nat" where
  "Pid d = (if \<not> IsRunning d then Inl ErrNotRunning
            else case d_cmd d of Some (Some pid) \<Rightarrow> Inr pid | _ \<Rightarrow> Inl (Panic (NilDereference ''cmd'')))"

text \<open>\<open>Process.Signal\<close>: fails when the process is gone; \<open>c.cmd.Process\<close> may be nil.\<close>

definition process_signal :: "daemon \<Rightarrow> go_error option" where
  "process_signal d =
     (case d_cmd d of Some (Some pid) \<Rightarrow>
          if pid \<in> set (os_live d) then None else Some (Errorf ''os: process already finished'')
      | _ \<Rightarrow> Some (Panic (NilDereference ''c.cmd.Process'')))"

text \<open>\<open>Signal\<close>, with a signal that does not end the process.\<close>

definition Signal :: "daemon \<Rightarrow> go_error option" where
  "Signal d = (if \<not> IsRunning d then Some ErrNotRunning else process_signal d)"

text \<open>\<open>c.run()\<close>: \<open>ok\<close> is whether the operating system could start the program.\<close>

definition d_run :: "bool \<Rightarrow> (daemon, go_error, unit) prog" where
  "d_run ok d =
     (case d_cmd d of
        None \<Rightarrow> (Inl (Errorf ''execd: no command''), d)
      | Some (Some pid) \<Rightarrow> (Inl (Errorf ''exec: already started''), d)
      | Some None \<Rightarrow>
          if ok then (Inr (), d\<lparr>d_cmd := Some (Some (os_next d)), os_live := os_next d # os_live d,
                           os_next := Suc (os_next d)\<rparr>)
          else (Inl (Errorf ''fork/exec''), d))"

definition close_stop :: "(daemon, go_error, unit) prog" where
  "close_stop d =
     (case d_stopCh d of
        None \<Rightarrow> (Inl (Panic (CallerPanic ''close of nil channel'')), d)
      | Some closed \<Rightarrow> if closed then (Inl (Panic CloseOfClosedChannel), d)
                       else (Inr (), d\<lparr>d_stopCh := Some True\<rparr>))"

definition close_err :: "(daemon, go_error, unit) prog" where
  "close_err d =
     (case d_errCh d of
        None \<Rightarrow> (Inl (Panic (CallerPanic ''close of nil channel'')), d)
      | Some closed \<Rightarrow> if closed then (Inl (Panic CloseOfClosedChannel), d)
                       else (Inr (), d\<lparr>d_errCh := Some True\<rparr>))"

definition make_chan :: "bool option \<Rightarrow> bool option" where
  "make_chan c = Some (c = Some True)"

definition RunForever :: "bool \<Rightarrow> (daemon, go_error, unit) prog" where
  "RunForever ok d =
     (case d_lookPathErr d of
        Some e \<Rightarrow> (Inl e, d)
      | None \<Rightarrow>
         (let d1 = d\<lparr>d_cmd := Some (case d_cmd d of None \<Rightarrow> delegate d | Some c \<Rightarrow> c),
                     d_stopCh := make_chan (d_stopCh d),
                     d_errCh := make_chan (d_errCh d)\<rparr>
          in case d_run ok d1 of
               (Inl e, d2) \<Rightarrow> seqE close_stop (\<lambda>_. seqE close_err (\<lambda>_. throwE e)) d2
             | (Inr _, d2) \<Rightarrow> (Inr (), d2\<lparr>d_keepalive := Some 0\<rparr>)))"

text \<open>
  \<open>shutdown\<close>: SIGTERM and the grace period when there is one (\<open>ends\<close> is whether the process ended
  in it), then SIGKILL to what is still running.
\<close>

definition kill_pid :: "daemon \<Rightarrow> daemon" where
  "kill_pid d = (case d_cmd d of Some (Some pid) \<Rightarrow> d\<lparr>os_live := removeAll pid (os_live d)\<rparr> | _ \<Rightarrow> d)"

definition d_shutdown :: "bool \<Rightarrow> (daemon, go_error, unit) prog" where
  "d_shutdown ends d =
     (let kill = (\<lambda>d. if IsRunning d then (Inr (), kill_pid d) else (Inr (), d)) in
      if d_gracePeriod d > 0 then
        (case process_signal d of
           Some e \<Rightarrow> (Inl e, d)
         | None \<Rightarrow> kill (if ends then kill_pid d else d))
      else kill d)"

text \<open>\<open>Stop\<close> after the channel is closed: a handler takes the place of \<open>shutdown\<close>.\<close>

definition stop_process :: "bool \<Rightarrow> (daemon, go_error, unit) prog" where
  "stop_process ends d =
     (case (d_gracefulShutDown d, d_cmd d) of
        (Some f, Some (Some pid)) \<Rightarrow>
          if IsRunning d then
            (case f pid of (e, ended) \<Rightarrow>
               (case e of None \<Rightarrow> Inr () | Some e \<Rightarrow> Inl e, if ended then kill_pid d else d))
          else d_shutdown ends d
      | _ \<Rightarrow> d_shutdown ends d)"

definition d_Stop :: "bool \<Rightarrow> (daemon, go_error, unit) prog" where
  "d_Stop ends d =
     (if d_stopCh d = None then (Inl (Errorf ''execd: stop must be called after run''), d)
      else seqE close_stop (\<lambda>_. stop_process ends) d)"

text \<open>
  One iteration of the keepalive goroutine on a tick. \<open>None\<close>: it goes on; the error of \<open>Stop\<close> is
  dropped, a panic in it ends the whole program.
\<close>

definition keepalive_tick :: "bool \<Rightarrow> bool \<Rightarrow> nat \<Rightarrow> (daemon, go_error, unit) prog" where
  "keepalive_tick ok ends restartErrTimes d =
     (if IsRunning d then (Inr (), d)
      else case d_run ok (d\<lparr>d_cmd := Some (delegate d)\<rparr>) of
          (Inr _, d1) \<Rightarrow> (Inr (), d1)
        | (Inl e, d1) \<Rightarrow>
            if restartErrTimes \<ge> crashBackoff
            then seqE (ignoreE (d_Stop ends)) (\<lambda>_ d. (Inr (), d\<lparr>d_keepalive := None\<rparr>)) d1
            else (Inr (), d1\<lparr>d_keepalive := Some (Suc restartErrTimes)\<rparr>))"

section \<open>Steps\<close>

text \<open>
  What happens to a daemon by itself: a process of the table ends, the goroutine ticks (a select
  may choose the tick even when the stop channel is closed) or sees the closed channel. What its
  user does: it is run and stopped. A step that panics ends the program.
\<close>

inductive d_background :: "daemon \<Rightarrow> daemon \<Rightarrow> bool" where
  d_exit: "d_background d (d\<lparr>os_live := removeAll pid (os_live d)\<rparr>)"
| d_tick: "d_keepalive d = Some n \<Longrightarrow> keepalive_tick ok ends n d = (Inr (), d') \<Longrightarrow> d_background d d'"
| d_return: "d_stopCh d = Some True \<Longrightarrow> d_background d (d\<lparr>d_keepalive := None\<rparr>)"

inductive d_step :: "daemon \<Rightarrow> daemon \<Rightarrow> bool" where
  d_start: "d_keepalive d = None \<Longrightarrow> d_cmd d = None \<Longrightarrow> RunForever ok d = (r, d') \<Longrightarrow> d_step d d'"
| d_own: "d_background d d' \<Longrightarrow> d_step d d'"
| d_stop: "d_Stop ends d = (r, d') \<Longrightarrow> (\<forall>e. r = Inl e \<longrightarrow> \<not> is_panic e) \<Longrightarrow> d_step d d'"

section \<open>Invariant\<close>

text \<open>
  At most one process of the daemon is in the process table, and it is the current command's; the
  goroutine has seen at most \<open>crashBackoff\<close> failed restarts.
\<close>

definition d_inv :: "daemon \<Rightarrow> bool" where
  "d_inv d \<longleftrightarrow>
     set (os_live d) \<subseteq> (case d_cmd d of Some (Some pid) \<Rightarrow> {pid} | _ \<Rightarrow> {})
     \<and> distinct (os_live d) \<and> (\<forall>pid \<in> set (os_live d). pid < os_next d)
     \<and> (\<forall>n. d_keepalive d = Some n \<longrightarrow> n \<le> crashBackoff \<and> d_stopCh d \<noteq> None)"

lemma d_inv_new: "d_cmd d = None \<Longrightarrow> os_live d = [] \<Longrightarrow> d_keepalive d = None \<Longrightarrow> d_inv d"
  by (simp add: d_inv_def)

lemma d_inv_kill [simp]: "d_inv d \<Longrightarrow> d_inv (d\<lparr>os_live := removeAll pid (os_live d)\<rparr>)"
  by (auto simp: d_inv_def distinct_removeAll split: option.splits)

lemma d_inv_kill_pid: "d_inv d \<Longrightarrow> d_inv (kill_pid d)"
  by (simp add: kill_pid_def split: option.split)

lemma not_running_empty: "d_inv d \<Longrightarrow> \<not> IsRunning d \<Longrightarrow> os_live d = []"
  unfolding d_inv_def IsRunning_def
  by (cases "os_live d") (auto split: option.splits)

lemma d_inv_run: "d_inv d \<Longrightarrow> d_run ok d = (r, d') \<Longrightarrow> d_inv d'"
  by (cases "d_cmd d"; cases "the (d_cmd d)") (auto simp: d_run_def d_inv_def split: if_splits)

lemma d_inv_shutdown: "d_inv d \<Longrightarrow> d_inv (snd (d_shutdown ends d))"
  by (simp add: d_shutdown_def Let_def d_inv_kill_pid split: option.split)

lemma d_inv_stop_process: "d_inv d \<Longrightarrow> d_inv (snd (stop_process ends d))"
  by (auto simp: stop_process_def d_inv_shutdown d_inv_kill_pid split: option.split prod.split)

lemma d_inv_close:
  "d_inv d \<Longrightarrow> d_inv (snd (close_stop d))" "d_inv d \<Longrightarrow> d_inv (snd (close_err d))"
  by (auto simp: close_stop_def close_err_def d_inv_def split: option.splits)

lemma d_inv_seq:
  assumes "\<And>d. d_inv d \<Longrightarrow> d_inv (snd (m d))" "\<And>x d. d_inv d \<Longrightarrow> d_inv (snd (k x d))" "d_inv d"
  shows "d_inv (snd (seqE m k d))"
  using assms by (auto simp: seqE_def split: prod.split sum.split) (metis snd_conv)+

lemma d_inv_Stop: "d_inv d \<Longrightarrow> d_inv (snd (d_Stop ends d))"
  unfolding d_Stop_def
  by (auto intro!: d_inv_seq d_inv_close d_inv_stop_process)

lemma d_inv_tick:
  assumes inv: "d_inv d" and n: "d_keepalive d = Some n"
  shows "d_inv (snd (keepalive_tick ok ends n d))"
proof (cases "IsRunning d")
  case True
  then show ?thesis using inv by (simp add: keepalive_tick_def)
next
  case False
  then have empty: "os_live d = []" using not_running_empty inv by blast
  then have inv1: "d_inv (d\<lparr>d_cmd := Some None\<rparr>)" using inv by (simp add: d_inv_def)
  show ?thesis
  proof (cases ok)
    case True
    then have "d_run ok (d\<lparr>d_cmd := Some None\<rparr>) =
        (Inr (), d\<lparr>d_cmd := Some (Some (os_next d)), os_live := [os_next d], os_next := Suc (os_next d)\<rparr>)"
      using empty by (simp add: d_run_def)
    then show ?thesis using False inv by (simp add: keepalive_tick_def d_inv_def)
  next
    case not_ok: False
    have run: "d_run ok (d\<lparr>d_cmd := Some None\<rparr>) = (Inl (Errorf ''fork/exec''), d\<lparr>d_cmd := Some None\<rparr>)"
      using not_ok by (simp add: d_run_def)
    have none: "d_inv d \<Longrightarrow> d_inv (d\<lparr>d_keepalive := None\<rparr>)" for d by (simp add: d_inv_def)
    show ?thesis
    proof (cases "n \<ge> crashBackoff")
      case True
      have "d_inv (snd (seqE (ignoreE (d_Stop ends)) (\<lambda>_ d. (Inr (), d\<lparr>d_keepalive := None\<rparr>))
          (d\<lparr>d_cmd := Some None\<rparr>)))"
        by (rule d_inv_seq) (use inv1 in \<open>simp_all add: d_inv_Stop none\<close>)
      then show ?thesis using True False run by (simp add: keepalive_tick_def)
    next
      case le: False
      have "d_stopCh d \<noteq> None" using inv n by (simp add: d_inv_def)
      then show ?thesis using le False run inv1 by (simp add: keepalive_tick_def d_inv_def)
    qed
  qed
qed

lemma d_inv_RunForever:
  assumes "d_inv d" "d_cmd d = None" "d_keepalive d = None"
  shows "d_inv (snd (RunForever ok d))"
proof -
  have empty: "os_live d = []" using not_running_empty [OF assms(1)] assms(2) by (simp add: IsRunning_def)
  let ?d1 = "d\<lparr>d_cmd := Some None, d_stopCh := make_chan (d_stopCh d),
      d_errCh := make_chan (d_errCh d)\<rparr>"
  have inv1: "d_inv ?d1" using assms empty by (simp add: d_inv_def)
  have stop: "d_inv (snd (seqE close_stop (\<lambda>_. seqE close_err (\<lambda>_. throwE e :: (daemon, go_error, unit) prog)) ?d1))" for e
    by (intro d_inv_seq d_inv_close inv1) (simp_all add: d_inv_close)
  show ?thesis
  proof (cases ok)
    case True
    then show ?thesis using assms empty
      by (auto simp: RunForever_def d_run_def Let_def d_inv_def make_chan_def split: option.split)
  next
    case False
    then show ?thesis using assms stop [of "Errorf ''fork/exec''"]
      by (cases "d_lookPathErr d") (simp_all add: RunForever_def d_run_def Let_def)
  qed
qed

lemma d_inv_background: "d_background d d' \<Longrightarrow> d_inv d \<Longrightarrow> d_inv d'"
proof (induction rule: d_background.induct)
  case (d_tick d n ok ends d')
  then show ?case using d_inv_tick [of d n ok ends] by simp
next
  case (d_return d)
  then show ?case by (simp add: d_inv_def)
qed simp

lemma d_inv_step: "d_step d d' \<Longrightarrow> d_inv d \<Longrightarrow> d_inv d'"
proof (induction rule: d_step.induct)
  case (d_start d ok r d')
  then show ?case using d_inv_RunForever [of d ok] by simp
next
  case (d_own d d')
  then show ?case by (rule d_inv_background)
next
  case (d_stop ends d r d')
  then show ?case using d_inv_Stop [of d ends] by simp
qed

inductive d_reach :: "daemon \<Rightarrow> daemon \<Rightarrow> bool" for d0 where
  d_reach_start: "d_reach d0 d0"
| d_reach_step: "d_reach d0 d \<Longrightarrow> d_step d d' \<Longrightarrow> d_reach d0 d'"

lemma d_inv_reach: "d_reach d0 d \<Longrightarrow> d_inv d0 \<Longrightarrow> d_inv d"
  by (induction rule: d_reach.induct) (auto intro: d_inv_step)

section \<open>Restarting\<close>

text \<open>A tick restarts a process that is gone, if the program starts.\<close>

lemma tick_restarts:
  "\<not> IsRunning d \<Longrightarrow> keepalive_tick True ends n d = (Inr (), d') \<Longrightarrow> IsRunning d'"
  by (auto simp: keepalive_tick_def d_run_def IsRunning_def)

text \<open>\<open>failed_ticks k\<close>: \<open>k\<close> ticks one after the other, whose restarts all fail.\<close>

fun failed_ticks :: "nat \<Rightarrow> (daemon, go_error, unit) prog" where
  "failed_ticks 0 d = (Inr (), d)"
| "failed_ticks (Suc k) d =
     seqE (failed_ticks k)
       (\<lambda>_ d. case d_keepalive d of None \<Rightarrow> (Inr (), d) | Some n \<Rightarrow> keepalive_tick False False n d) d"

lemma failed_ticks_count:
  "d_keepalive d = Some n \<Longrightarrow> \<not> IsRunning d \<Longrightarrow> n + k \<le> crashBackoff \<Longrightarrow> k > 0 \<Longrightarrow>
     failed_ticks k d = (Inr (), d\<lparr>d_cmd := Some None, d_keepalive := Some (n + k)\<rparr>)"
proof (induction k)
  case (Suc k)
  show ?case
  proof (cases "k = 0")
    case True
    then show ?thesis using Suc.prems
      by (simp add: keepalive_tick_def d_run_def crashBackoff_def seqE_def)
  next
    case False
    then have "failed_ticks k d = (Inr (), d\<lparr>d_cmd := Some None, d_keepalive := Some (n + k)\<rparr>)"
      using Suc by simp
    then show ?thesis using Suc.prems
      by (simp add: keepalive_tick_def d_run_def IsRunning_def seqE_def)
  qed
qed simp

text \<open>
  Giving up after too many failed restarts does not work with a grace period: \<open>Stop\<close> signals
  \<open>c.cmd.Process\<close>, which is nil after the failed start, so the program panics.
\<close>

lemma giving_up_panics:
  assumes "\<not> IsRunning d" "n \<ge> crashBackoff" "d_stopCh d = Some False" "d_gracePeriod d > 0"
  shows "fst (keepalive_tick False ends n d) = Inl (Panic (NilDereference ''c.cmd.Process''))"
  using assms
  by (simp add: keepalive_tick_def d_run_def d_Stop_def close_stop_def stop_process_def d_shutdown_def
      process_signal_def seqE_def ignoreE_def split: option.split)

section \<open>A daemon in service\<close>

text \<open>
  A daemon that was run, with a grace period and without a handler, and was not stopped. It stays
  so in the background, and stopping it leaves no process, whatever had become of it. When its last
  restart has failed, stopping it panics, too.
\<close>

definition in_service :: "daemon \<Rightarrow> bool" where
  "in_service d \<longleftrightarrow> d_inv d \<and> d_stopCh d = Some False \<and> d_gracePeriod d > 0
     \<and> d_gracefulShutDown d = None \<and> d_cmd d \<noteq> None"

lemma in_service_tick:
  assumes "in_service d" "d_keepalive d = Some n" "keepalive_tick ok ends n d = (Inr (), d')"
  shows "in_service d'"
proof (cases "IsRunning d \<or> ok")
  case True
  then show ?thesis using assms d_inv_tick [of d n ok ends]
    by (auto simp: in_service_def keepalive_tick_def d_run_def split: if_splits)
next
  case False
  then have "\<not> n \<ge> crashBackoff"
    using assms giving_up_panics [of d n ends] by (auto simp: in_service_def)
  then show ?thesis using assms False d_inv_tick [of d n ok ends]
    by (auto simp: in_service_def keepalive_tick_def d_run_def split: if_splits)
qed

lemma in_service_background: "d_background d d' \<Longrightarrow> in_service d \<Longrightarrow> in_service d'"
proof (induction rule: d_background.induct)
  case (d_exit d pid)
  then show ?case by (simp add: in_service_def)
next
  case (d_tick d n ok ends d')
  then show ?case by (blast intro: in_service_tick)
next
  case (d_return d)
  then show ?case by (simp add: in_service_def)
qed

lemma in_service_stop:
  assumes "in_service d"
  shows "\<exists>d'. ignoreE (d_Stop ends) d =
      (if d_cmd d = Some None then Inl (Panic (NilDereference ''c.cmd.Process'')) else Inr (), d')
    \<and> os_live d' = []"
proof -
  have [simp]: "d_stopCh d = Some False" "d_gracePeriod d > 0" "d_gracefulShutDown d = None"
    using assms by (simp_all add: in_service_def)
  have stop: "d_Stop ends d = d_shutdown ends (d\<lparr>d_stopCh := Some True\<rparr>)"
    by (simp add: d_Stop_def close_stop_def seqE_def stop_process_def)
  consider "d_cmd d = Some None" | pid where "d_cmd d = Some (Some pid)"
    using assms by (cases "d_cmd d"; cases "the (d_cmd d)") (auto simp: in_service_def)
  then show ?thesis
  proof cases
    case 1
    then have "os_live d = []" using assms by (simp add: in_service_def d_inv_def)
    then show ?thesis by (simp add: stop ignoreE_def 1 d_shutdown_def process_signal_def)
  next
    case (2 pid)
    have live: "set (os_live d) \<subseteq> {pid}" "distinct (os_live d)"
      using assms 2 by (simp_all add: in_service_def d_inv_def)
    then have "os_live d = [] \<or> os_live d = [pid]"
      by (cases "os_live d"; cases "tl (os_live d)") auto
    then show ?thesis
      by (auto simp: stop ignoreE_def 2 d_shutdown_def process_signal_def kill_pid_def IsRunning_def Let_def)
  qed
qed

lemma RunForever_in_service:
  assumes "d_lookPathErr d = None" "d_cmd d = None" "d_stopCh d = None" "d_keepalive d = None" "os_live d = []"
    "d_gracePeriod d > 0" "d_gracefulShutDown d = None"
  shows "\<exists>d'. RunForever True d = (Inr (), d') \<and> in_service d' \<and> IsRunning d'"
  using assms d_inv_RunForever [of d True]
  by (simp add: RunForever_def d_run_def Let_def in_service_def IsRunning_def make_chan_def d_inv_new)

section \<open>Properties\<close>


definition ex_found :: daemon where
  "ex_found = SetGracePeriod 1 (Daemon Inr ''keepalived'' [''--dont-fork''])"

lemma ex_found_run:
  "RunForever True ex_found = (Inr (), ex_found\<lparr>d_cmd := Some (Some 0), d_stopCh := Some False, d_errCh := Some False,
     d_keepalive := Some 0, os_live := [0], os_next := 1\<rparr>)"
  by (simp add: ex_found_def RunForever_def Daemon_def new_daemon_def d_run_def Let_def make_chan_def
      is_base_name_def SetGracePeriod_def)


text \<open>
  C31: a daemon with a grace period whose restarts fail is given up on the fourth failed restart in
  a row, and giving up ends the whole program with a nil pointer panic: \<open>Stop\<close> signals the process
  of the command whose start has just failed.
\<close>

theorem giving_up_is_a_panic:
  assumes "d_keepalive d = Some 0" "\<not> IsRunning d" "d_stopCh d = Some False" "d_gracePeriod d > 0"
  shows "\<exists>d3. failed_ticks 3 d = (Inr (), d3) \<and> d_keepalive d3 = Some 3
    \<and> fst (failed_ticks 4 d) = Inl (Panic (NilDereference ''c.cmd.Process''))"
proof -
  have 3: "failed_ticks 3 d = (Inr (), d\<lparr>d_cmd := Some None, d_keepalive := Some 3\<rparr>)"
    using failed_ticks_count [OF assms(1,2), of 3] by (simp add: crashBackoff_def)
  have "fst (keepalive_tick False False 3 (d\<lparr>d_cmd := Some None, d_keepalive := Some 3\<rparr>)) =
      Inl (Panic (NilDereference ''c.cmd.Process''))"
    by (rule giving_up_panics) (simp_all add: assms IsRunning_def crashBackoff_def)
  moreover have "failed_ticks 4 d = keepalive_tick False False 3 (d\<lparr>d_cmd := Some None, d_keepalive := Some 3\<rparr>)"
    using 3 by (simp add: eval_nat_numeral seqE_def)
  ultimately show ?thesis using 3 by simp
qed

lemma giving_up_is_a_panic_witness:
  "fst (failed_ticks 4 ((snd (RunForever True ex_found))\<lparr>os_live := []\<rparr>)) =
     Inl (Panic (NilDereference ''c.cmd.Process''))"
proof -
  have "d_gracePeriod ex_found = 1" by (simp add: ex_found_def)
  then show ?thesis
    using giving_up_is_a_panic [of "(snd (RunForever True ex_found))\<lparr>os_live := []\<rparr>"]
    by (auto simp: ex_found_run IsRunning_def)
qed

end
