(* ===== verification/KeepalivedConf.thy ===== *)
theory KeepalivedConf
  imports IpvsdrTables Execd Ports
begin

text \<open>
  \<open>providers/ipvsdr/keepalived.go\<close> and the functions of \<open>ipvsdr.go\<close> that compute what keepalived
  is configured with: the VRRP instances and virtual servers of a load balancer on this node, the
  configuration file, and the reload when the file changed. Rendering the template, hashing the
  file and opening files are the library's and the operating system's: they are the record
  \<open>keepalived_env\<close>.
\<close>

section \<open>Instances and servers\<close>

record vrrp_instance =
  vi_Name :: string
  vi_State :: string
  vi_Vrid :: int
  vi_Priority :: int
  vi_Interface :: string
  vi_MyIP :: string
  vi_AllIPs :: "string list"
  vi_VIP :: string

record virtual_server =
  vs_AcceptMark :: int
  vs_VIP :: string
  vs_Scheduler :: string
  vs_RealServer :: "string list"

text \<open>The expression \<open>\W\<close>, on ASCII bytes, and the replacement by an underscore.\<close>

definition word_char :: "char \<Rightarrow> bool" where
  "word_char c = (let n = (of_char c :: nat) in
     48 \<le> n \<and> n \<le> 57 \<or> 65 \<le> n \<and> n \<le> 90 \<or> n = 95 \<or> 97 \<le> n \<and> n \<le> 122)"

definition sanitize :: "string \<Rightarrow> string" where
  "sanitize s = map (\<lambda>c. if word_char c then c else CHR ''_'') s"

text \<open>The addresses of all ready nodes in one version.\<close>

fun all_ips :: "string \<Rightarrow> iface_preferred list \<Rightarrow> string list" where
  "all_ips v [] = []"
| "all_ips v (n # ns) = (if getIP n v = [] then all_ips v ns else getIP n v # all_ips v ns)"

text \<open>The loop over the virtual addresses; \<open>ver\<close> is the version of the one before.\<close>

fun vip_loop ::
  "iface_preferred \<Rightarrow> iface_preferred list \<Rightarrow> keepalived_provider \<Rightarrow> string \<Rightarrow> int \<Rightarrow> int
   \<Rightarrow> string list \<Rightarrow> string \<Rightarrow> vrrp_instance list \<Rightarrow> virtual_server list
   \<Rightarrow> vrrp_instance list \<times> virtual_server list" where
  "vip_loop myIface nodeIPs kl state priority vrid [] ver vis vss = (vis, vss)"
| "vip_loop myIface nodeIPs kl state priority vrid (vip # vips) ver vis vss =
     (let ver2 = getIPVersion (parseIP vip) in
      if parseIP vip = None \<or> ver2 = ver
      then vip_loop myIface nodeIPs kl state priority vrid vips ver vis vss
      else
        let myIP = getIP myIface ver2 in
        if myIP = [] then vip_loop myIface nodeIPs kl state priority vrid vips ver2 vis vss
        else
          let allIPs = all_ips ver2 nodeIPs;
              vi = \<lparr> vi_Name = sanitize (if_Name (fp_Net myIface) @ ''_'' @ ver2), vi_State = state,
                     vi_Vrid = vrid, vi_Priority = priority, vi_Interface = if_Name (fp_Net myIface),
                     vi_MyIP = myIP, vi_AllIPs = allIPs, vi_VIP = vip \<rparr>;
              vs = \<lparr> vs_AcceptMark = acceptMark, vs_VIP = vip, vs_Scheduler = kp_Scheduler kl,
                     vs_RealServer = allIPs \<rparr>
          in vip_loop myIface nodeIPs kl state priority vrid vips ver2 (vis @ [vi])
               (if kp_HAMode kl \<noteq> ActivePassiveHA then vss @ [vs] else vss))"

definition getKeepalivedConfigBlock ::
  "string \<Rightarrow> string list \<Rightarrow> all_selectors \<Rightarrow> (string \<times> node_status) list \<Rightarrow> keepalived_provider
   \<Rightarrow> int \<Rightarrow> int \<Rightarrow> go_error + vrrp_instance list \<times> virtual_server list" where
  "getKeepalivedConfigBlock me nodes sels allNodeIPs kl priority vrid =
     (case getIPs me nodes sels allNodeIPs (kp_Bind kl) None [] of
        Inl e \<Rightarrow> Inl e
      | Inr (None, nodeIPs) \<Rightarrow> Inl (Errorf ''Cannot get self iface '')
      | Inr (Some myIface, nodeIPs) \<Rightarrow>
          if kp_HAMode kl = ActivePassiveHA \<and> nodes = [] then Inl (Panic IndexOutOfRange)
          else let state = (if kp_HAMode kl = ActivePassiveHA \<and> last nodes = me then ''MASTER'' else ''BACKUP'')
               in Inr (vip_loop myIface nodeIPs kl state priority vrid (getVIPs kl) [] [] []))"

text \<open>The loop over the slaves: only active-passive ones, each with the next router id.\<close>

fun slaves_loop ::
  "string \<Rightarrow> string list \<Rightarrow> all_selectors \<Rightarrow> (string \<times> node_status) list \<Rightarrow> int
   \<Rightarrow> keepalived_provider list \<Rightarrow> int \<Rightarrow> vrrp_instance list \<Rightarrow> virtual_server list
   \<Rightarrow> go_error + vrrp_instance list \<times> virtual_server list" where
  "slaves_loop me nodes sels allNodeIPs priority [] vrrid vis vss = Inr (vis, vss)"
| "slaves_loop me nodes sels allNodeIPs priority (spec # specs) vrrid vis vss =
     (if kp_HAMode spec \<noteq> ActivePassiveHA
      then slaves_loop me nodes sels allNodeIPs priority specs vrrid vis vss
      else case getKeepalivedConfigBlock me nodes sels allNodeIPs spec priority (vrrid + 1) of
          Inl e \<Rightarrow> if is_panic e then Inl e
                   else slaves_loop me nodes sels allNodeIPs priority specs (vrrid + 1) vis vss
        | Inr (vis2, vss2) \<Rightarrow>
            slaves_loop me nodes sels allNodeIPs priority specs (vrrid + 1) (vis @ vis2) (vss @ vss2))"

definition first_vrid :: "load_balancer \<Rightarrow> int" where
  "first_vrid lb =
     (case lb_IpvsdrStatus lb of
        None \<Rightarrow> 110
      | Some st \<Rightarrow> (case vs_Vrid st of None \<Rightarrow> 110 | Some v \<Rightarrow> v))"

definition keepalived_config ::
  "string \<Rightarrow> load_balancer \<Rightarrow> ipvsdr_provider \<Rightarrow> all_selectors \<Rightarrow> (string \<times> node_status) list
   \<Rightarrow> go_error + vrrp_instance list \<times> virtual_server list" where
  "keepalived_config me lb ipvs sels allNodeIPs =
     (let nodes = sort (ns_Names (lb_Nodes lb)); priority = getNodePriority me nodes in
      case getKeepalivedConfigBlock me nodes sels allNodeIPs (embedded ipvs) priority (first_vrid lb) of
        Inl e \<Rightarrow> Inl e
      | Inr (vis, vss) \<Rightarrow>
          slaves_loop me nodes sels allNodeIPs priority (ip_Slaves ipvs) (first_vrid lb) vis vss)"

section \<open>The file and the reload\<close>

text \<open>
  What the environment answers: whether the file could be created and read back, what the template
  writes for a configuration, the hash of a content, and what sending SIGHUP returns.
\<close>

record keepalived_env =
  ke_create :: bool
  ke_open :: bool
  ke_render :: "vrrp_instance list \<Rightarrow> virtual_server list \<Rightarrow> int \<Rightarrow> string"
  ke_md5 :: "string \<Rightarrow> string"
  ke_hup :: "go_error option"

text \<open>\<open>*keepalived\<close> and the fields of the provider it works with.\<close>

record keepalived_state =
  ks_file :: "string option"          \<comment> \<open>the content of \<open>keepalivedCfg\<close>, if there is one\<close>
  ks_cfgMD5 :: string
  ks_cmd :: "daemon option"           \<comment> \<open>\<open>k.cmd\<close>, nil until its goroutine ran\<close>
  ks_reloads :: nat                   \<comment> \<open>how many times SIGHUP was sent\<close>

text \<open>\<open>UpdateConfig\<close>; its error is dropped by the caller.\<close>

definition UpdateConfig ::
  "keepalived_env \<Rightarrow> vrrp_instance list \<Rightarrow> virtual_server list \<Rightarrow> int \<Rightarrow> keepalived_state \<Rightarrow> keepalived_state" where
  "UpdateConfig env vis vss httpPort k =
     (if \<not> ke_create env then k else k\<lparr>ks_file := Some (ke_render env vis vss httpPort)\<rparr>)"

definition checksum :: "keepalived_env \<Rightarrow> keepalived_state \<Rightarrow> string option" where
  "checksum env k = (if ke_open env then map_option (ke_md5 env) (ks_file k) else None)"

text \<open>\<open>Reload\<close>: a daemon that is not running is no error.\<close>

definition Reload :: "keepalived_env \<Rightarrow> (keepalived_state, go_error, unit) prog" where
  "Reload env k =
     (case ks_cmd k of
        None \<Rightarrow> (Inl (Panic (NilDereference ''k.cmd'')), k)
      | Some d \<Rightarrow>
          if \<not> IsRunning d then (Inr (), k)
          else (case ke_hup env of
              Some e \<Rightarrow> (Inl (Errorf ''error reloading keepalived''), k)
            | None \<Rightarrow> (Inr (), k\<lparr>ks_reloads := Suc (ks_reloads k)\<rparr>)))"

definition onUpdateKeepalived ::
  "keepalived_env \<Rightarrow> string \<Rightarrow> load_balancer \<Rightarrow> ipvsdr_provider \<Rightarrow> all_selectors
   \<Rightarrow> (string \<times> node_status) list \<Rightarrow> (keepalived_state, go_error, unit) prog" where
  "onUpdateKeepalived env me lb ipvs sels allNodeIPs k =
     (case keepalived_config me lb ipvs sels allNodeIPs of
        Inl e \<Rightarrow> (Inl e, k)
      | Inr (vis, vss) \<Rightarrow>
          (let k1 = UpdateConfig env vis vss (GetHTTPPort lb) k; md5 = checksum env k1 in
           if md5 = Some (ks_cfgMD5 k1) then (Inr (), k1)
           else Reload env (k1\<lparr>ks_cfgMD5 := (case md5 of Some h \<Rightarrow> h | None \<Rightarrow> [])\<rparr>)))"

section \<open>What a block holds\<close>

text \<open>What is promised of an instance of one provider on one interface.\<close>

definition vi_ok ::
  "iface_preferred \<Rightarrow> iface_preferred list \<Rightarrow> keepalived_provider \<Rightarrow> string \<Rightarrow> int \<Rightarrow> int \<Rightarrow> vrrp_instance \<Rightarrow> bool" where
  "vi_ok myIface nodeIPs kl state priority vrid vi \<longleftrightarrow>
     vi_State vi = state \<and> vi_Priority vi = priority \<and> vi_Vrid vi = vrid
     \<and> vi_Interface vi = if_Name (fp_Net myIface) \<and> vi_VIP vi \<in> set (getVIPs kl)
     \<and> (\<exists>ip. parseIP (vi_VIP vi) = Some ip
          \<and> vi_MyIP vi = getIP myIface (getIPVersion (Some ip)) \<and> vi_MyIP vi \<noteq> []
          \<and> vi_AllIPs vi = all_ips (getIPVersion (Some ip)) nodeIPs)"

definition vs_of :: "keepalived_provider \<Rightarrow> vrrp_instance \<Rightarrow> virtual_server" where
  "vs_of kl vi = \<lparr> vs_AcceptMark = acceptMark, vs_VIP = vi_VIP vi, vs_Scheduler = kp_Scheduler kl,
     vs_RealServer = vi_AllIPs vi \<rparr>"

lemma vip_loop_ok:
  assumes "set vips \<subseteq> set (getVIPs kl)"
    and "\<forall>vi \<in> set vis. vi_ok myIface nodeIPs kl state priority vrid vi"
    and "vss = (if kp_HAMode kl \<noteq> ActivePassiveHA then map (vs_of kl) vis else [])"
    and "vip_loop myIface nodeIPs kl state priority vrid vips ver vis vss = (vis', vss')"
  shows "(\<forall>vi \<in> set vis'. vi_ok myIface nodeIPs kl state priority vrid vi)
    \<and> vss' = (if kp_HAMode kl \<noteq> ActivePassiveHA then map (vs_of kl) vis' else [])"
  using assms
proof (induction vips arbitrary: ver vis vss)
  case (Cons vip vips)
  let ?ver2 = "getIPVersion (parseIP vip)"
  let ?skip = "\<lambda>ver. vip_loop myIface nodeIPs kl state priority vrid vips ver vis vss = (vis', vss')"
  show ?case
  proof (cases "parseIP vip = None \<or> ?ver2 = ver")
    case True
    then have "?skip ver" using Cons.prems(4) by (auto simp: Let_def)
    then show ?thesis using Cons.IH Cons.prems(1,2,3) by simp
  next
    case new: False
    show ?thesis
    proof (cases "getIP myIface ?ver2 = []")
      case True
      then have "?skip ?ver2" using Cons.prems(4) new by (simp add: Let_def)
      then show ?thesis using Cons.IH Cons.prems(1,2,3) by simp
    next
      case False
      define vi where "vi = \<lparr> vi_Name = sanitize (if_Name (fp_Net myIface) @ ''_'' @ ?ver2), vi_State = state,
           vi_Vrid = vrid, vi_Priority = priority, vi_Interface = if_Name (fp_Net myIface),
           vi_MyIP = getIP myIface ?ver2, vi_AllIPs = all_ips ?ver2 nodeIPs, vi_VIP = vip \<rparr>"
      have run: "vip_loop myIface nodeIPs kl state priority vrid vips ?ver2 (vis @ [vi])
          (if kp_HAMode kl \<noteq> ActivePassiveHA then vss @ [vs_of kl vi] else vss) = (vis', vss')"
        using Cons.prems(4) new False
        by (cases "kp_HAMode kl = ActivePassiveHA"; simp add: Let_def vi_def vs_of_def)
      have ok: "vi_ok myIface nodeIPs kl state priority vrid vi"
        using Cons.prems(1) new False by (auto simp: vi_ok_def vi_def)
      show ?thesis
        by (rule Cons.IH [OF _ _ _ run]) (use Cons.prems ok in auto)
    qed
  qed
qed simp

lemma block_ok:
  assumes "getKeepalivedConfigBlock me nodes sels allNodeIPs kl priority vrid = Inr (vis, vss)"
  shows "\<exists>myIface nodeIPs state. getIPs me nodes sels allNodeIPs (kp_Bind kl) None [] = Inr (Some myIface, nodeIPs)
    \<and> (state = ''MASTER'' \<longleftrightarrow> kp_HAMode kl = ActivePassiveHA \<and> last nodes = me)
    \<and> (\<forall>vi \<in> set vis. vi_ok myIface nodeIPs kl state priority vrid vi)
    \<and> vss = (if kp_HAMode kl \<noteq> ActivePassiveHA then map (vs_of kl) vis else [])"
proof -
  obtain myIface nodeIPs where ips: "getIPs me nodes sels allNodeIPs (kp_Bind kl) None [] = Inr (Some myIface, nodeIPs)"
    using assms by (auto simp: getKeepalivedConfigBlock_def split: sum.splits option.splits)
  define state where
    "state = (if kp_HAMode kl = ActivePassiveHA \<and> last nodes = me then ''MASTER'' else ''BACKUP'')"
  have run: "vip_loop myIface nodeIPs kl state priority vrid (getVIPs kl) [] [] [] = (vis, vss)"
    using assms ips
    by (cases "kp_HAMode kl = ActivePassiveHA"; cases "last nodes = me";
        simp add: getKeepalivedConfigBlock_def state_def Let_def split: if_splits)
  have "(\<forall>vi \<in> set vis. vi_ok myIface nodeIPs kl state priority vrid vi)
      \<and> vss = (if kp_HAMode kl \<noteq> ActivePassiveHA then map (vs_of kl) vis else [])"
    by (rule vip_loop_ok [OF _ _ _ run]) simp_all
  moreover have "state = ''MASTER'' \<longleftrightarrow> kp_HAMode kl = ActivePassiveHA \<and> last nodes = me"
    by (simp add: state_def)
  ultimately show ?thesis using ips by blast
qed

section \<open>Router ids\<close>

text \<open>The providers of a load balancer that get a router id, in order.\<close>

definition vrrp_providers :: "ipvsdr_provider \<Rightarrow> keepalived_provider list" where
  "vrrp_providers ipvs = embedded ipvs # filter (\<lambda>s. kp_HAMode s = ActivePassiveHA) (ip_Slaves ipvs)"

definition vrid_ok :: "int \<Rightarrow> bool \<Rightarrow> keepalived_provider list \<Rightarrow> vrrp_instance \<Rightarrow> bool" where
  "vrid_ok v0 lst provs vi \<longleftrightarrow> v0 \<le> vi_Vrid vi \<and> vi_Vrid vi < v0 + int (length provs)
     \<and> vi_VIP vi \<in> set (getVIPs (provs ! nat (vi_Vrid vi - v0)))
     \<and> (vi_State vi = ''MASTER'' \<longleftrightarrow>
          kp_HAMode (provs ! nat (vi_Vrid vi - v0)) = ActivePassiveHA \<and> lst)"

lemma vrid_ok_append: "vrid_ok v0 lst provs vi \<Longrightarrow> vrid_ok v0 lst (provs @ rest) vi"
  by (auto simp: vrid_ok_def nth_append)

lemma block_vrid:
  assumes "getKeepalivedConfigBlock me nodes sels allNodeIPs kl priority (v0 + int (length provs)) = Inr (vis, vss)"
    "vi \<in> set vis"
  shows "vrid_ok v0 (last nodes = me) (provs @ [kl]) vi \<and> vi_Priority vi = priority"
proof -
  have "vi_Vrid vi = v0 + int (length provs) \<and> vi_VIP vi \<in> set (getVIPs kl) \<and> vi_Priority vi = priority
      \<and> (vi_State vi = ''MASTER'' \<longleftrightarrow> kp_HAMode kl = ActivePassiveHA \<and> last nodes = me)"
    using block_ok [OF assms(1)] assms(2) by (auto simp: vi_ok_def)
  then show ?thesis by (simp add: vrid_ok_def)
qed

lemma slaves_vrid:
  assumes "slaves_loop me nodes sels allNodeIPs priority specs (v0 + int (length provs) - 1) vis vss = Inr (vis', vss')"
    and "\<forall>vi \<in> set vis. vrid_ok v0 (last nodes = me) provs vi \<and> vi_Priority vi = priority" and "provs \<noteq> []"
  shows "\<forall>vi \<in> set vis'. vrid_ok v0 (last nodes = me) (provs @ filter (\<lambda>s. kp_HAMode s = ActivePassiveHA) specs) vi
    \<and> vi_Priority vi = priority"
  using assms
proof (induction specs arbitrary: provs vis vss)
  case (Cons spec specs)
  show ?case
  proof (cases "kp_HAMode spec = ActivePassiveHA")
    case False
    then show ?thesis using Cons by simp
  next
    case True
    have idx: "v0 + int (length provs) - 1 + 1 = v0 + int (length provs)" by simp
    have next_idx: "v0 + int (length provs) = v0 + int (length (provs @ [spec])) - 1" by simp
    show ?thesis
    proof (cases "getKeepalivedConfigBlock me nodes sels allNodeIPs spec priority (v0 + int (length provs))")
      case (Inl e)
      then have "slaves_loop me nodes sels allNodeIPs priority specs
          (v0 + int (length (provs @ [spec])) - 1) vis vss = Inr (vis', vss')"
        using Cons.prems(1) True by (simp split: if_splits)
      from Cons.IH [OF this] Cons.prems(2) vrid_ok_append True show ?thesis by fastforce
    next
      case (Inr r)
      then obtain vis2 vss2 where blk: "getKeepalivedConfigBlock me nodes sels allNodeIPs spec priority
          (v0 + int (length provs)) = Inr (vis2, vss2)" by (cases r) simp
      then have run: "slaves_loop me nodes sels allNodeIPs priority specs
          (v0 + int (length (provs @ [spec])) - 1) (vis @ vis2) (vss @ vss2) = Inr (vis', vss')"
        using Cons.prems(1) True by simp
      have "\<forall>vi \<in> set (vis @ vis2). vrid_ok v0 (last nodes = me) (provs @ [spec]) vi \<and> vi_Priority vi = priority"
        using Cons.prems(2) vrid_ok_append [of v0 "last nodes = me" provs _ "[spec]"] block_vrid [OF blk]
        by auto
      from Cons.IH [OF run this] True show ?thesis by simp
    qed
  qed
qed simp

lemma config_vrid:
  assumes "keepalived_config me lb ipvs sels allNodeIPs = Inr (vis, vss)" "vi \<in> set vis"
  shows "vrid_ok (first_vrid lb) (last (sort (ns_Names (lb_Nodes lb))) = me) (vrrp_providers ipvs) vi
    \<and> vi_Priority vi = getNodePriority me (sort (ns_Names (lb_Nodes lb)))"
proof -
  let ?p = "getNodePriority me (sort (ns_Names (lb_Nodes lb)))"
  obtain vis0 vss0 where blk: "getKeepalivedConfigBlock me (sort (ns_Names (lb_Nodes lb))) sels allNodeIPs
      (embedded ipvs) ?p (first_vrid lb) = Inr (vis0, vss0)"
    and run: "slaves_loop me (sort (ns_Names (lb_Nodes lb))) sels allNodeIPs ?p (ip_Slaves ipvs)
      (first_vrid lb) vis0 vss0 = Inr (vis, vss)"
    using assms(1) by (auto simp: keepalived_config_def Let_def split: sum.splits prod.splits)
  have "\<forall>vi \<in> set vis0. vrid_ok (first_vrid lb) (last (sort (ns_Names (lb_Nodes lb))) = me) [embedded ipvs] vi \<and> vi_Priority vi = ?p"
    using block_vrid [of _ _ _ _ _ _ "first_vrid lb" "[]"] blk by auto
  moreover have "slaves_loop me (sort (ns_Names (lb_Nodes lb))) sels allNodeIPs ?p (ip_Slaves ipvs)
      (first_vrid lb + int (length [embedded ipvs]) - 1) vis0 vss0 = Inr (vis, vss)"
    using run by simp
  ultimately show ?thesis
    using slaves_vrid [of _ _ _ _ _ _ "first_vrid lb" "[embedded ipvs]"] assms(2)
    by (simp add: vrrp_providers_def)
qed

section \<open>Updates of the file\<close>

lemma update_idempotent:
  assumes "ke_create env" "ke_open env" "onUpdateKeepalived env me lb ipvs sels allNodeIPs k = (Inr (), k')"
    "\<And>c. ke_md5 env c \<noteq> []"
  shows "onUpdateKeepalived env me lb ipvs sels allNodeIPs k' = (Inr (), k')"
proof (cases "keepalived_config me lb ipvs sels allNodeIPs")
  case (Inl e)
  then show ?thesis using assms(3) by (simp add: onUpdateKeepalived_def)
next
  case (Inr r)
  then obtain vis vss where cfg: "keepalived_config me lb ipvs sels allNodeIPs = Inr (vis, vss)"
    by (cases r) simp
  have "ks_file k' = Some (ke_render env vis vss (GetHTTPPort lb))
      \<and> ks_cfgMD5 k' = ke_md5 env (ke_render env vis vss (GetHTTPPort lb))"
    using assms cfg
    by (auto simp: onUpdateKeepalived_def Let_def UpdateConfig_def checksum_def Reload_def
        split: if_splits option.splits)
  then show ?thesis using assms(1,2) cfg
    by (simp add: onUpdateKeepalived_def Let_def UpdateConfig_def checksum_def)
qed

section \<open>Properties\<close>

text \<open>
  C18: every VRRP instance of a configuration carries the router id of its provider: the first id
  for the main provider and one more for each active-passive slave, so that instances of different
  providers never share an id; it has this node's priority, and it is MASTER exactly when its
  provider is active-passive and this node is the last of the sorted node names, in which case no
  other node of the load balancer has a priority as high.
\<close>

theorem keepalived_router_ids:
  assumes "keepalived_config me lb ipvs sels allNodeIPs = Inr (vis, vss)" "vi \<in> set vis"
    and "distinct (ns_Names (lb_Nodes lb))"
  shows "first_vrid lb \<le> vi_Vrid vi
    \<and> vi_Vrid vi < first_vrid lb + int (length (vrrp_providers ipvs))
    \<and> vi_VIP vi \<in> set (getVIPs (vrrp_providers ipvs ! nat (vi_Vrid vi - first_vrid lb)))
    \<and> vi_Priority vi = getNodePriority me (sort (ns_Names (lb_Nodes lb)))
    \<and> (vi_State vi = ''MASTER'' \<longleftrightarrow>
         kp_HAMode (vrrp_providers ipvs ! nat (vi_Vrid vi - first_vrid lb)) = ActivePassiveHA
         \<and> last (sort (ns_Names (lb_Nodes lb))) = me)
    \<and> (vi_State vi = ''MASTER'' \<longrightarrow> (\<forall>n \<in> set (ns_Names (lb_Nodes lb)). n \<noteq> me \<longrightarrow>
         getNodePriority n (sort (ns_Names (lb_Nodes lb))) < vi_Priority vi))"
  using config_vrid [OF assms(1,2)] assms(3)
    priority_last [of "sort (ns_Names (lb_Nodes lb))"]
  by (auto simp: vrid_ok_def)

text \<open>An active-passive load balancer of one node, with one slave.\<close>

definition example_kl :: "string \<Rightarrow> keepalived_provider" where
  "example_kl vip = \<lparr> kp_VIP = vip, kp_VIPs = [], kp_Scheduler = ''rr'', kp_HAMode = ActivePassiveHA,
     kp_Bind = None \<rparr>"

definition example_ap :: ipvsdr_provider where
  "example_ap = \<lparr> kp_VIP = ''10.0.0.9'', kp_VIPs = [], kp_Scheduler = ''rr'', kp_HAMode = ActivePassiveHA,
     kp_Bind = None, ip_Slaves = [example_kl ''10.0.0.8''] \<rparr>"

definition example_lb :: load_balancer where
  "example_lb = \<lparr> lb_Namespace = ''ns'', lb_Name = ''lb'', lb_ResourceVersion = ''1'',
     lb_DeletionTimestamp = None, lb_Finalizers = None,
     lb_Nodes = \<lparr> ns_Replicas = None, ns_Names = [''n1''], ns_Effect = None \<rparr>,
     lb_Proxy = new_proxy 80 443,
     lb_Providers = \<lparr> ps_External = None, ps_Ipvsdr = Some example_ap, ps_Aliyun = None, ps_Azure = None \<rparr>,
     lb_Accessible = False, lb_AccessIPs = None, lb_NodeIPs = None, lb_ProxyStatus = new_proxy_status ''tcp'' ''udp'',
     lb_ExternalStatus = None, lb_IpvsdrStatus = Some (new_ipvsdr_status (Some 50)), lb_AliyunStatus = None, lb_AzureStatus = None,
     lb_NodeStatuses = Some [example_status] \<rparr>"

lemma example_version: "getIPVersion (parseIP ''10.0.0.1'') = ''4''" "getIPVersion (parseIP ''10.0.0.9'') = ''4''"
    "getIPVersion (parseIP ''10.0.0.8'') = ''4''"
    "parseIP ''10.0.0.9'' \<noteq> None" "parseIP ''10.0.0.8'' \<noteq> None"
  by (simp_all add: getIPVersion_def ip_eval ipv4Version_def)

lemma example_config:
  "\<exists>vi1 vi2. keepalived_config ''n1'' example_lb example_ap [(''n1'', example_selector)]
      [(''n1'', example_status)] = Inr ([vi1, vi2], []) \<and> vi_Vrid vi1 = 50 \<and> vi_Vrid vi2 = 51
    \<and> vi_State vi1 = ''MASTER'' \<and> vi_State vi2 = ''MASTER''"
proof -
  have ips: "getIPs ''n1'' [''n1''] [(''n1'', example_selector)] [(''n1'', example_status)] None None [] =
     Inr (Some \<lparr> fp_Net = example_iface, fp_preferredIP = ''10.0.0.1'' \<rparr>,
          [\<lparr> fp_Net = example_iface, fp_preferredIP = ''10.0.0.1'' \<rparr>])"
    using example_getIPs by (simp add: example_ipvs_def)
  have block: "getKeepalivedConfigBlock ''n1'' [''n1''] [(''n1'', example_selector)] [(''n1'', example_status)]
      kl p v = Inr ([\<lparr> vi_Name = sanitize ''eth0_4'', vi_State = ''MASTER'', vi_Vrid = v, vi_Priority = p,
        vi_Interface = ''eth0'', vi_MyIP = ''10.0.0.1'', vi_AllIPs = [''10.0.0.1''], vi_VIP = kp_VIP kl \<rparr>], [])"
    if "kp_Bind kl = None" "kp_HAMode kl = ActivePassiveHA" "kp_VIPs kl = []"
      "kp_VIP kl \<in> {''10.0.0.9'', ''10.0.0.8''}" for kl p v
    unfolding getKeepalivedConfigBlock_def that(1) ips
    using that(2-4) example_version
    by (auto simp: getVIPs_def Let_def getIP_def example_iface_def)
  show ?thesis
    by (simp add: keepalived_config_def Let_def example_lb_def example_ap_def block embedded_def
        keepalived_provider.defs example_kl_def first_vrid_def)
qed

lemma keepalived_router_ids_witness:
  "\<exists>vis vss vi. keepalived_config ''n1'' example_lb example_ap [(''n1'', example_selector)]
      [(''n1'', example_status)] = Inr (vis, vss) \<and> vi \<in> set vis
    \<and> vi_VIP vi \<in> set (getVIPs (vrrp_providers example_ap ! 1))"
proof -
  obtain vi1 vi2 where cfg: "keepalived_config ''n1'' example_lb example_ap [(''n1'', example_selector)]
      [(''n1'', example_status)] = Inr ([vi1, vi2], [])" and v: "vi_Vrid vi2 = 51"
    using example_config by blast
  have "distinct (ns_Names (lb_Nodes example_lb))" "first_vrid example_lb = 50"
    by (simp_all add: example_lb_def first_vrid_def)
  with keepalived_router_ids [OF cfg, of vi2] v
  have "vi_VIP vi2 \<in> set (getVIPs (vrrp_providers example_ap ! 1))" by simp
  with cfg show ?thesis by auto
qed

text \<open>
  C24: when the file can be written and read, applying the same configuration a second time changes
  nothing and does not signal keepalived again.
\<close>

theorem keepalived_update_idempotent:
  assumes "ke_create env" "ke_open env" "\<forall>c. ke_md5 env c \<noteq> []"
    and "onUpdateKeepalived env me lb ipvs sels allNodeIPs k = (Inr (), k')"
  shows "onUpdateKeepalived env me lb ipvs sels allNodeIPs k' = (Inr (), k')"
  using update_idempotent [OF assms(1,2,4)] assms(3) by blast

text \<open>An environment, and a state with a running keepalived, for the examples.\<close>

definition example_env :: keepalived_env where
  "example_env = \<lparr> ke_create = True, ke_open = True, ke_render = (\<lambda>vis vss port. concat (map vi_VIP vis)),
     ke_md5 = (\<lambda>c. CHR ''m'' # c), ke_hup = None \<rparr>"

definition example_keepalived :: keepalived_state where
  "example_keepalived = \<lparr> ks_file = None, ks_cfgMD5 = [],
     ks_cmd = Some (snd (RunForever True ex_found)), ks_reloads = 0 \<rparr>"

lemma example_running: "\<exists>d. ks_cmd example_keepalived = Some d \<and> IsRunning d"
  by (simp add: example_keepalived_def ex_found_run IsRunning_def)

lemma example_update:
  "\<exists>k'. onUpdateKeepalived (example_env\<lparr>ke_hup := hup\<rparr>) ''n1'' example_lb example_ap [(''n1'', example_selector)]
     [(''n1'', example_status)] example_keepalived =
     (case hup of None \<Rightarrow> Inr () | Some e \<Rightarrow> Inl (Errorf ''error reloading keepalived''), k')"
proof -
  obtain d where d: "ks_cmd example_keepalived = Some d" "IsRunning d" using example_running by blast
  obtain vis vss where cfg: "keepalived_config ''n1'' example_lb example_ap [(''n1'', example_selector)]
      [(''n1'', example_status)] = Inr (vis, vss)" using example_config by blast
  have md5: "ks_cfgMD5 example_keepalived = []" by (simp add: example_keepalived_def)
  show ?thesis
    by (simp add: onUpdateKeepalived_def cfg Let_def UpdateConfig_def checksum_def Reload_def d md5
        example_env_def split: option.split)
qed

lemma keepalived_update_idempotent_witness:
  "\<exists>k'. onUpdateKeepalived example_env ''n1'' example_lb example_ap [(''n1'', example_selector)]
     [(''n1'', example_status)] k' = (Inr (), k')"
proof -
  have env: "example_env\<lparr>ke_hup := None\<rparr> = example_env" by (simp add: example_env_def)
  obtain k' where "onUpdateKeepalived example_env ''n1'' example_lb example_ap [(''n1'', example_selector)]
      [(''n1'', example_status)] example_keepalived = (Inr (), k')"
    using example_update [of None] by (auto simp: env)
  from keepalived_update_idempotent [OF _ _ _ this] show ?thesis
    by (auto simp: example_env_def)
qed

text \<open>
  C32: a reload that fails is lost. The hash of the new file is stored before the reload, so the
  retry after the error finds the hash unchanged, returns success and never signals keepalived,
  which goes on with the old configuration.
\<close>

theorem failed_reload_not_retried:
  assumes "ke_create env" "ke_open env"
    and "onUpdateKeepalived (env\<lparr>ke_hup := Some e\<rparr>) me lb ipvs sels allNodeIPs k = (Inl (Errorf t), k')"
    and "keepalived_config me lb ipvs sels allNodeIPs = Inr (vis, vss)"
  shows "onUpdateKeepalived (env\<lparr>ke_hup := None\<rparr>) me lb ipvs sels allNodeIPs k' = (Inr (), k')
    \<and> ks_reloads k' = ks_reloads k \<and> ks_file k' = Some (ke_render env vis vss (GetHTTPPort lb))"
proof -
  have "ks_file k' = Some (ke_render env vis vss (GetHTTPPort lb))
      \<and> ks_cfgMD5 k' = ke_md5 env (ke_render env vis vss (GetHTTPPort lb)) \<and> ks_reloads k' = ks_reloads k"
    using assms
    by (auto simp: onUpdateKeepalived_def Let_def UpdateConfig_def checksum_def Reload_def
        split: if_splits option.splits)
  then show ?thesis using assms(1,2,4)
    by (simp add: onUpdateKeepalived_def Let_def UpdateConfig_def checksum_def)
qed

lemma failed_reload_not_retried_witness:
  "\<exists>k'. onUpdateKeepalived (example_env\<lparr>ke_hup := None\<rparr>) ''n1'' example_lb example_ap
     [(''n1'', example_selector)] [(''n1'', example_status)] k' = (Inr (), k') \<and> ks_reloads k' = 0"
proof -
  obtain vis vss where cfg: "keepalived_config ''n1'' example_lb example_ap [(''n1'', example_selector)]
      [(''n1'', example_status)] = Inr (vis, vss)" using example_config by blast
  obtain k' where k': "onUpdateKeepalived (example_env\<lparr>ke_hup := Some (Errorf ''signal'')\<rparr>) ''n1''
      example_lb example_ap [(''n1'', example_selector)] [(''n1'', example_status)] example_keepalived =
      (Inl (Errorf ''error reloading keepalived''), k')"
    using example_update [of "Some (Errorf ''signal'')"] by auto
  have "ke_create example_env" "ke_open example_env" "ks_reloads example_keepalived = 0"
    by (simp_all add: example_env_def example_keepalived_def)
  with failed_reload_not_retried [OF _ _ k' cfg] show ?thesis by auto
qed

text \<open>
  C35: a provider with three virtual addresses of alternating versions gets three instances, and the
  first and the third have the same name: the check that is meant to allow at most one address of
  each version compares only with the address before.
\<close>

theorem alternating_vips_duplicate:
  assumes "getIPVersion (parseIP a) = ipv4Version" "getIPVersion (parseIP b) = ipv6Version"
    "getIPVersion (parseIP c) = ipv4Version"
    and "getIP myIface ipv4Version \<noteq> []" "getIP myIface ipv6Version \<noteq> []"
  shows "\<exists>x y z vss. vip_loop myIface nodeIPs kl state priority vrid [a, b, c] [] [] [] = ([x, y, z], vss)
    \<and> vi_Name x = vi_Name z"
proof -
  have "parseIP v \<noteq> None" if "getIPVersion (parseIP v) \<in> {ipv4Version, ipv6Version}" for v
    using that by (cases "parseIP v") (auto simp: ipv4Version_def ipv6Version_def)
  then have "parseIP a \<noteq> None" "parseIP b \<noteq> None" "parseIP c \<noteq> None" using assms(1-3) by simp_all
  then show ?thesis using assms by (simp add: Let_def ipv4Version_def ipv6Version_def)
qed

lemma alternating_vips_duplicate_witness:
  "\<exists>x y z vss. vip_loop \<lparr> fp_Net = example_iface\<lparr>if_IPs := Some [''10.0.0.1'', ''2001:db8::1'']\<rparr>, fp_preferredIP = [] \<rparr>
     [] (example_kl []) ''BACKUP'' 100 110 [''10.0.0.9'', ''2001:db8::9'', ''10.0.0.8''] [] [] [] = ([x, y, z], vss)
    \<and> vi_Name x = vi_Name z"
proof -
  have v: "getIPVersion (parseIP ''10.0.0.9'') = ipv4Version" "getIPVersion (parseIP ''10.0.0.8'') = ipv4Version"
      "getIPVersion (parseIP ''10.0.0.1'') = ipv4Version"
    using example_version by (simp_all add: ipv4Version_def)
  have v6: "getIPVersion (parseIP ''2001:db8::9'') = ipv6Version" "getIPVersion (parseIP ''2001:db8::1'') = ipv6Version"
    by (simp_all add: getIPVersion_def ip_eval)
  have ne: "ipv4Version \<noteq> ipv6Version" by (simp add: ipv4Version_def ipv6Version_def)
  show ?thesis
    by (rule alternating_vips_duplicate [OF v(1) v6(1) v(2)]) (simp_all add: getIP_def v v6 ne)
qed

end
