(* ===== verification/Sysctl.thy ===== *)
theory Sysctl
  imports GoStrings
begin

text \<open>
  \<open>core/pkg/sysctl\<close>: reading and writing kernel settings through \<open>/proc/sys\<close>, and the bulk
  change that remembers the old values. The interface of the package (\<open>GetSysctl\<close>,
  \<open>SetSysctl\<close>) is the locale \<open>sysctl_api\<close>; \<open>BulkModify\<close> is its client, and the
  implementation over files is its interpretation.
\<close>

datatype sysctl_error = NotLinux string | NoSuchFile string | WriteRefused string

section \<open>Paths\<close>

text \<open>\<open>path.Clean\<close> on the components of a rooted path; \<open>stk\<close> holds the kept ones, last first.\<close>

fun clean_comps :: "string list \<Rightarrow> string list \<Rightarrow> string list" where
  "clean_comps [] stk = rev stk"
| "clean_comps (c # cs) stk =
     (if c = [] \<or> c = ''.'' then clean_comps cs stk
      else if c = ''..'' then clean_comps cs (tl stk)
      else clean_comps cs (c # stk))"

definition path_clean_rooted :: "string \<Rightarrow> string" where
  "path_clean_rooted p = CHR ''/'' # str_join ''/'' (clean_comps (split_on (CHR ''/'') p) [])"

definition sysctlBase :: string where
  "sysctlBase = ''/proc/sys''"

definition sysctlPath :: "string \<Rightarrow> string" where
  "sysctlPath name =
     (let n = replace_char (CHR ''.'') (CHR ''/'') name
      in path_clean_rooted (if n = [] then sysctlBase else sysctlBase @ ''/'' @ n))"

section \<open>The implementation over files\<close>

text \<open>
  The files under \<open>/proc/sys\<close>: their content, and whether a write is accepted. \<open>ReadFile\<close> and
  \<open>WriteFile\<close> are those of \<open>ioutil\<close>; a setting that does not exist cannot be created.
\<close>

record proc_file =
  pf_content :: string
  pf_writable :: bool

record host =
  h_goos :: string
  h_files :: "string \<Rightarrow> proc_file option"

definition GetSysctl :: "host \<Rightarrow> string \<Rightarrow> sysctl_error + string" where
  "GetSysctl h k =
     (if h_goos h \<noteq> ''linux'' then Inl (NotLinux (h_goos h))
      else case h_files h (sysctlPath k) of
          None \<Rightarrow> Inl (NoSuchFile (sysctlPath k))
        | Some f \<Rightarrow> Inr (trim_space (pf_content f)))"

definition SetSysctl :: "string \<Rightarrow> string \<Rightarrow> (host, sysctl_error, unit) prog" where
  "SetSysctl k v h =
     (if h_goos h \<noteq> ''linux'' then (Inl (NotLinux (h_goos h)), h)
      else case h_files h (sysctlPath k) of
          None \<Rightarrow> (Inl (NoSuchFile (sysctlPath k)), h)
        | Some f \<Rightarrow>
            if pf_writable f
            then (Inr (), h\<lparr>h_files := (h_files h)(sysctlPath k \<mapsto> f\<lparr>pf_content := v\<rparr>)\<rparr>)
            else (Inl (WriteRefused (sysctlPath k)), h))"

section \<open>Bulk changes\<close>

text \<open>
  The loop of \<open>BulkModify\<close> over an \<open>Interface\<close> given by its two methods. The map of original
  values is returned together with the error.
\<close>

fun bulk_loop ::
  "('w \<Rightarrow> string \<Rightarrow> 'e + string) \<Rightarrow> (string \<Rightarrow> string \<Rightarrow> ('w, 'e, unit) prog) \<Rightarrow> gomap \<Rightarrow> gomap
    \<Rightarrow> 'w \<Rightarrow> (gomap \<times> 'e option) \<times> 'w" where
  "bulk_loop rd wr [] orig w = ((orig, None), w)"
| "bulk_loop rd wr ((k, v) # adj) orig w =
     (case rd w k of
        Inl e \<Rightarrow> ((orig, Some e), w)
      | Inr d \<Rightarrow>
          let orig' = AList.update k d orig in
          (case wr k v w of
             (Inl e, w') \<Rightarrow> ((orig', Some e), w')
           | (Inr _, w') \<Rightarrow> bulk_loop rd wr adj orig' w'))"

definition BulkModify :: "gomap \<Rightarrow> host \<Rightarrow> (gomap \<times> sysctl_error option) \<times> host" where
  "BulkModify adj h = bulk_loop GetSysctl SetSysctl adj [] h"

text \<open>
  The same loop step by step, for when another goroutine looks at the settings meanwhile: at the head of
  the loop, between the read and the write, or returned.
\<close>

datatype 'e bulk_pc =
    Ranging gomap gomap
  | Writing string string gomap gomap
  | Returned gomap "'e option"

inductive bulk_step ::
  "('w \<Rightarrow> string \<Rightarrow> 'e + string) \<Rightarrow> (string \<Rightarrow> string \<Rightarrow> ('w, 'e, unit) prog)
   \<Rightarrow> 'e bulk_pc \<times> 'w \<Rightarrow> 'e bulk_pc \<times> 'w \<Rightarrow> bool"
  for rd :: "'w \<Rightarrow> string \<Rightarrow> 'e + string" and wr :: "string \<Rightarrow> string \<Rightarrow> ('w, 'e, unit) prog" where
  bulk_end: "bulk_step rd wr (Ranging [] orig, w) (Returned orig None, w)"
| bulk_unread: "rd w k = Inl e \<Longrightarrow> bulk_step rd wr (Ranging ((k, v) # adj) orig, w) (Returned orig (Some e), w)"
| bulk_read: "rd w k = Inr d \<Longrightarrow>
    bulk_step rd wr (Ranging ((k, v) # adj) orig, w) (Writing k v adj (AList.update k d orig), w)"
| bulk_refused: "wr k v w = (Inl e, w') \<Longrightarrow> bulk_step rd wr (Writing k v adj orig, w) (Returned orig (Some e), w')"
| bulk_written: "wr k v w = (Inr u, w') \<Longrightarrow> bulk_step rd wr (Writing k v adj orig, w) (Ranging adj orig, w')"

inductive_cases bulk_stepE: "bulk_step rd wr (c, w) (c', w')"

text \<open>What is still to be done, as a run of the loop.\<close>

fun bulk_rest ::
  "('w \<Rightarrow> string \<Rightarrow> 'e + string) \<Rightarrow> (string \<Rightarrow> string \<Rightarrow> ('w, 'e, unit) prog) \<Rightarrow> 'e bulk_pc \<times> 'w
    \<Rightarrow> (gomap \<times> 'e option) \<times> 'w" where
  "bulk_rest rd wr (Ranging adj orig, w) = bulk_loop rd wr adj orig w"
| "bulk_rest rd wr (Writing k v adj orig, w) =
     (case wr k v w of
        (Inl e, w') \<Rightarrow> ((orig, Some e), w')
      | (Inr _, w') \<Rightarrow> bulk_loop rd wr adj orig w')"
| "bulk_rest rd wr (Returned orig e, w) = ((orig, e), w)"

lemma bulk_step_rest: "bulk_step rd wr c c' \<Longrightarrow> bulk_rest rd wr c' = bulk_rest rd wr c"
  by (induction rule: bulk_step.induct) (simp_all add: Let_def)

lemma bulk_steps_rest: "(bulk_step rd wr)\<^sup>*\<^sup>* c c' \<Longrightarrow> bulk_rest rd wr c' = bulk_rest rd wr c"
  by (induction rule: rtranclp_induct) (simp_all add: bulk_step_rest)

lemma bulk_one_step:
  assumes "rd w k = Inr d" "wr k v w = (Inr u, w')"
  shows "(bulk_step rd wr)\<^sup>*\<^sup>* (Ranging ((k, v) # adj) orig, w) (Ranging adj (AList.update k d orig), w')"
  using bulk_read [where rd = rd and wr = wr, OF assms(1)] bulk_written [where rd = rd and wr = wr, OF assms(2)]
  by (meson converse_rtranclp_into_rtranclp rtranclp.rtrancl_refl)

lemma bulk_loop_steps:
  "bulk_loop rd wr adj orig w = ((orig', e), w') \<Longrightarrow> (bulk_step rd wr)\<^sup>*\<^sup>* (Ranging adj orig, w) (Returned orig' e, w')"
proof (induction adj arbitrary: orig w)
  case Nil
  then show ?case by (auto intro: bulk_end)
next
  case (Cons a adj)
  obtain k v where a: "a = (k, v)" by (cases a)
  show ?case
  proof (cases "rd w k")
    case (Inl e0)
    with Cons.prems a show ?thesis by (auto intro: bulk_unread)
  next
    case (Inr d)
    obtain res w1 where w1: "wr k v w = (res, w1)" by (cases "wr k v w")
    show ?thesis
    proof (cases res)
      case (Inl e0)
      then have "(orig', e) = (AList.update k d orig, Some e0)" "w' = w1" using Cons.prems a Inr w1 by (auto simp: Let_def)
      with bulk_read [where rd = rd and wr = wr, OF Inr] bulk_refused [where rd = rd and wr = wr, OF w1 [unfolded Inl]]
      show ?thesis unfolding a by (metis converse_rtranclp_into_rtranclp prod.inject r_into_rtranclp)
    next
      case (Inr u)
      then have "bulk_loop rd wr adj (AList.update k d orig) w1 = ((orig', e), w')"
        using Cons.prems a \<open>rd w k = Inr d\<close> w1 by (simp add: Let_def)
      from Cons.IH [OF this] bulk_one_step [where rd = rd and wr = wr and adj = adj and orig = orig,
          OF \<open>rd w k = Inr d\<close> w1 [unfolded Inr]]
      show ?thesis unfolding a by (rule rtranclp_trans [rotated])
    qed
  qed
qed

lemma bulk_steps_iff:
  "(bulk_step rd wr)\<^sup>*\<^sup>* (Ranging adj orig, w) (Returned orig' e, w') \<longleftrightarrow> bulk_loop rd wr adj orig w = ((orig', e), w')"
proof
  assume "(bulk_step rd wr)\<^sup>*\<^sup>* (Ranging adj orig, w) (Returned orig' e, w')"
  from bulk_steps_rest [OF this] show "bulk_loop rd wr adj orig w = ((orig', e), w')" by simp
qed (rule bulk_loop_steps)

lemma distinct_map_mset: "mset xs = mset ys \<Longrightarrow> distinct (map f xs) = distinct (map f ys)"
  by (rule mset_eq_imp_distinct_iff) simp

lemma distinct_map_fst_of: "distinct (map (\<lambda>p. f (fst p)) xs) \<Longrightarrow> distinct (map fst xs)"
  by (induction xs) (auto simp: image_iff)

section \<open>The interface and its laws\<close>

text \<open>
  \<open>loc\<close> says which setting a name denotes, \<open>norm\<close> what a written value reads back as,
  \<open>ready\<close> that a setting can be read and written.
\<close>

locale sysctl_api =
  fixes rd :: "'w \<Rightarrow> string \<Rightarrow> 'e + string"
    and wr :: "string \<Rightarrow> string \<Rightarrow> 'w \<Rightarrow> ('e + unit) \<times> 'w"
    and loc :: "string \<Rightarrow> 'p"
    and norm :: "string \<Rightarrow> string"
    and ready :: "'w \<Rightarrow> 'p \<Rightarrow> bool"
  assumes get_loc: "loc k = loc k' \<Longrightarrow> rd w k = rd w k'"
    and get_norm: "rd w k = Inr v \<Longrightarrow> norm v = v"
    and set_get: "wr k v w = (Inr u, w') \<Longrightarrow> rd w' k = Inr (norm v)"
    and set_other: "loc k \<noteq> loc k' \<Longrightarrow> rd (snd (wr k v w)) k' = rd w k'"
    and set_fail: "wr k v w = (Inl e, w') \<Longrightarrow> w' = w"
    and ready_get: "ready w (loc k) \<Longrightarrow> \<exists>v. rd w k = Inr v"
    and ready_set: "ready w (loc k) \<Longrightarrow> \<exists>w'. wr k v w = (Inr (), w')"
    and set_ready: "ready (snd (wr k v w)) p = ready w p"
begin

abbreviation "bulk \<equiv> bulk_loop rd wr"

lemma bulk_other:
  "bulk adj orig w = (r, w') \<Longrightarrow> loc k \<notin> loc ` fst ` set adj \<Longrightarrow> rd w' k = rd w k"
proof (induction adj arbitrary: orig w)
  case Nil
  then show ?case by simp
next
  case (Cons a adj)
  obtain k0 v0 where a: "a = (k0, v0)" by (cases a)
  have ne: "loc k0 \<noteq> loc k" using Cons.prems(2) a by auto
  show ?case
  proof (cases "rd w k0")
    case (Inl e)
    with Cons.prems a show ?thesis by auto
  next
    case (Inr d)
    obtain res w1 where s1: "wr k0 v0 w = (res, w1)" by (cases "wr k0 v0 w")
    then have w1: "rd w1 k = rd w k" using set_other [OF ne, of v0 w] by simp
    with Cons.IH Cons.prems a Inr s1 show ?thesis
      by (cases res) (auto simp: Let_def)
  qed
qed

text \<open>What the map of originals holds: each recorded value is the one read before the call.\<close>

lemma bulk_orig:
  assumes "bulk adj orig w = ((orig', e), w')" "distinct (map (\<lambda>p. loc (fst p)) adj)"
    and "loc ` fst ` set orig \<inter> loc ` fst ` set adj = {}"
  shows "(\<forall>k v. map_of orig k = Some v \<longrightarrow> map_of orig' k = Some v)
       \<and> (\<forall>k v. map_of orig k = None \<longrightarrow> map_of orig' k = Some v \<longrightarrow>
             k \<in> fst ` set adj \<and> rd w k = Inr v)
       \<and> (\<forall>k\<in>fst ` set adj. map_of orig' k = None \<longrightarrow> rd w' k = rd w k)
       \<and> (distinct (map (\<lambda>p. loc (fst p)) orig) \<longrightarrow> distinct (map (\<lambda>p. loc (fst p)) orig'))"
  using assms
proof (induction adj arbitrary: orig w)
  case Nil
  then show ?case by auto
next
  case (Cons a adj)
  obtain k0 v0 where a: "a = (k0, v0)" by (cases a)
  have k0: "k0 \<notin> fst ` set orig" using Cons.prems(3) a by auto
  have nk0: "map_of orig k0 = None" using k0 by (simp add: map_of_eq_None)
  have app: "AList.update k0 d orig = orig @ [(k0, d)]" for d
    using k0 by (induction orig) auto
  have unread: "rd w' k = rd w k" if "rd w k0 = Inl e'" "k \<in> fst ` set (a # adj)" for k e'
    using that Cons.prems(1) a by auto
  show ?case
  proof (cases "rd w k0")
    case (Inl e')
    with Cons.prems a show ?thesis by auto
  next
    case (Inr d)
    obtain res w1 where s1: "wr k0 v0 w = (res, w1)" by (cases "wr k0 v0 w")
    have other: "rd w1 k = rd w k" if "k \<in> fst ` set adj" for k
    proof -
      have "loc k0 \<noteq> loc k" using that Cons.prems(2) a by (auto simp: image_iff)
      then show ?thesis using set_other [of k0 k v0 w] s1 by simp
    qed
    have dis: "distinct (map (\<lambda>p. loc (fst p)) orig) \<longrightarrow> distinct (map (\<lambda>p. loc (fst p)) (orig @ [(k0, d)]))"
      using Cons.prems(3) a by auto
    have gk0: "map_of (orig @ [(k0, d)]) k = (if k = k0 then Some d else map_of orig k)" for k
      using k0 by (auto simp: map_add_def map_of_eq_None split: option.splits)
    show ?thesis
    proof (cases res)
      case (Inl e')
      then have "orig' = orig @ [(k0, d)]" "w' = w" "w1 = w"
        using Cons.prems(1) a Inr s1 set_fail [of k0 v0 w e' w1] by (auto simp: Let_def app)
      with Inr dis nk0 show ?thesis by (simp add: a gk0 del: map_of_append)
    next
      case (Inr u)
      have rest: "bulk adj (orig @ [(k0, d)]) w1 = ((orig', e), w')"
        using Cons.prems(1) a Inr s1 \<open>rd w k0 = Inr d\<close> by (simp add: Let_def app)
      have d1: "distinct (map (\<lambda>p. loc (fst p)) adj)" using Cons.prems(2) by simp
      have d2: "loc ` fst ` set (orig @ [(k0, d)]) \<inter> loc ` fst ` set adj = {}"
        using Cons.prems(2,3) a by (auto simp: image_iff)
      note IH = Cons.IH [OF rest d1 d2]
      have keep: "map_of orig' k = Some v" if "map_of (orig @ [(k0, d)]) k = Some v" for k v
        using IH [THEN conjunct1] that by blast
      have new: "k \<in> fst ` set adj \<and> rd w k = Inr v"
        if "map_of (orig @ [(k0, d)]) k = None" "map_of orig' k = Some v" for k v
        using IH [THEN conjunct2, THEN conjunct1] that other by metis
      have unseen: "rd w' k = rd w k" if "k \<in> fst ` set adj" "map_of orig' k = None" for k
        using IH [THEN conjunct2, THEN conjunct2, THEN conjunct1] that other by metis
      have hit: "map_of orig' k0 = Some d" by (rule keep) (simp add: gk0 del: map_of_append)
      show ?thesis
      proof (intro conjI allI impI ballI)
        fix k v assume "map_of orig k = Some v"
        then show "map_of orig' k = Some v" using nk0 by (intro keep) (auto simp: gk0 simp del: map_of_append)
      next
        fix k v assume k: "map_of orig k = None" "map_of orig' k = Some v"
        show "k \<in> fst ` set (a # adj)" and "rd w k = Inr v"
          using new [OF _ k(2)] k hit \<open>rd w k0 = Inr d\<close>
          by (cases "k = k0"; simp add: a gk0 del: map_of_append)+
      next
        fix k assume "k \<in> fst ` set (a # adj)" "map_of orig' k = None"
        then show "rd w' k = rd w k" using unseen hit a by auto
      next
        assume "distinct (map (\<lambda>p. loc (fst p)) orig)"
        then show "distinct (map (\<lambda>p. loc (fst p)) orig')"
          using IH [THEN conjunct2, THEN conjunct2, THEN conjunct2] dis by blast
      qed
    qed
  qed
qed

lemma bulk_set_all:
  assumes "bulk adj orig w = ((orig', None), w')" "distinct (map (\<lambda>p. loc (fst p)) adj)"
    and "(k, v) \<in> set adj"
  shows "rd w' k = Inr (norm v)"
  using assms
proof (induction adj arbitrary: orig w)
  case Nil
  then show ?case by simp
next
  case (Cons a adj)
  obtain k0 v0 where a: "a = (k0, v0)" by (cases a)
  from Cons.prems(1) a obtain d u w1 where
    g: "rd w k0 = Inr d" and s1: "wr k0 v0 w = (Inr u, w1)"
    and rest: "bulk adj (AList.update k0 d orig) w1 = ((orig', None), w')"
    by (auto simp: Let_def split: sum.splits prod.splits)
  show ?case
  proof (cases "(k, v) = a")
    case True
    then have "loc k \<notin> loc ` fst ` set adj" using Cons.prems(2) a by (auto simp: image_iff)
    then have "rd w' k = rd w1 k" by (rule bulk_other [OF rest])
    then show ?thesis using True a set_get [OF s1] by simp
  next
    case False
    with Cons.prems have "(k, v) \<in> set adj" "distinct (map (\<lambda>p. loc (fst p)) adj)" by auto
    with Cons.IH [OF rest] show ?thesis by blast
  qed
qed

lemma bulk_ready:
  "(\<And>k. k \<in> fst ` set adj \<Longrightarrow> ready w (loc k)) \<Longrightarrow> \<exists>orig' w'. bulk adj orig w = ((orig', None), w')"
proof (induction adj arbitrary: orig w)
  case Nil
  then show ?case by simp
next
  case (Cons a adj)
  obtain k0 v0 where a: "a = (k0, v0)" by (cases a)
  obtain d where d: "rd w k0 = Inr d" using Cons.prems [of k0] ready_get a by fastforce
  obtain w1 where s1: "wr k0 v0 w = (Inr (), w1)" using Cons.prems [of k0] ready_set a by fastforce
  have "ready w1 (loc k)" if "k \<in> fst ` set adj" for k
    using that Cons.prems [of k] set_ready [of k0 v0 w] s1 by auto
  then show ?case using Cons.IH [of w1 "AList.update k0 d orig"] a d s1 by (simp add: Let_def)
qed

lemma bulk_keeps_ready: "bulk adj orig w = (r, w') \<Longrightarrow> ready w' p = ready w p"
proof (induction adj arbitrary: orig w)
  case Nil
  then show ?case by simp
next
  case (Cons a adj)
  obtain k0 v0 where a: "a = (k0, v0)" by (cases a)
  obtain res w1 where s1: "wr k0 v0 w = (res, w1)" by (cases "wr k0 v0 w")
  have "ready w1 p = ready w p" using set_ready [of k0 v0 w p] s1 by simp
  with Cons a s1 show ?case by (auto simp: Let_def split: sum.splits)
qed

text \<open>The loop gets past any part of the adjustments that can be read and written.\<close>

lemma bulk_passes:
  "(\<And>k. k \<in> fst ` set pre \<Longrightarrow> ready w (loc k)) \<Longrightarrow>
     \<exists>orig' w'. (bulk_step rd wr)\<^sup>*\<^sup>* (Ranging (pre @ post) orig, w) (Ranging post orig', w')
       \<and> bulk pre orig w = ((orig', None), w')"
proof (induction pre arbitrary: orig w)
  case Nil
  then show ?case by auto
next
  case (Cons a pre)
  obtain k0 v0 where a: "a = (k0, v0)" by (cases a)
  obtain d where d: "rd w k0 = Inr d" using Cons.prems [of k0] ready_get a by fastforce
  obtain w1 where s1: "wr k0 v0 w = (Inr (), w1)" using Cons.prems [of k0] ready_set a by fastforce
  have "ready w1 (loc k)" if "k \<in> fst ` set pre" for k
    using that Cons.prems [of k] set_ready [of k0 v0 w] s1 by auto
  from Cons.IH [of w1 "AList.update k0 d orig", OF this] obtain orig' w' where
      "(bulk_step rd wr)\<^sup>*\<^sup>* (Ranging (pre @ post) (AList.update k0 d orig), w1) (Ranging post orig', w')"
      "bulk pre (AList.update k0 d orig) w1 = ((orig', None), w')" by blast
  with bulk_one_step [where rd = rd and wr = wr and adj = "pre @ post" and orig = orig, OF d s1] d s1
  show ?case unfolding a by (auto simp: Let_def intro: rtranclp_trans)
qed

text \<open>
  Changing settings and then writing the recorded originals back, in any order, restores every
  setting, even when the first change stopped at an error.
\<close>

theorem bulk_restore:
  assumes m: "bulk adj [] w = ((orig, e), w1)" and dist: "distinct (map (\<lambda>p. loc (fst p)) adj)"
    and perm: "mset orig2 = mset orig" and r: "bulk orig2 [] w1 = ((o2, None), w2)"
  shows "rd w2 k = rd w k"
proof -
  have O: "map_of orig k = Some v \<Longrightarrow> rd w k = Inr v"
    "k \<in> fst ` set adj \<Longrightarrow> map_of orig k = None \<Longrightarrow> rd w1 k = rd w k"
    "distinct (map (\<lambda>p. loc (fst p)) orig)" for k v
    using bulk_orig [OF m dist] by (fastforce, fastforce, simp)
  have set2: "set orig2 = set orig" using perm by (rule mset_eq_setD)
  have d2: "distinct (map (\<lambda>p. loc (fst p)) orig2)"
    using O(3) by (simp only: distinct_map_mset [OF perm])
  have dk: "distinct (map fst orig)"
    using O(3) by (rule distinct_map_fst_of)
  show ?thesis
  proof (cases "loc k \<in> loc ` fst ` set orig")
    case True
    then obtain k0 v0 where kv: "(k0, v0) \<in> set orig" and l: "loc k = loc k0" by auto
    have "rd w2 k0 = Inr (norm v0)" using bulk_set_all [OF r d2] kv set2 by simp
    moreover have g: "rd w k0 = Inr v0" using O(1) dk kv by (metis map_of_eq_Some_iff)
    moreover have "norm v0 = v0" by (rule get_norm [OF g])
    ultimately show ?thesis using get_loc [OF l] by metis
  next
    case False
    then have "rd w2 k = rd w1 k" using bulk_other [OF r] set2 by auto
    moreover have "rd w1 k = rd w k"
    proof (cases "loc k \<in> loc ` fst ` set adj")
      case True
      then obtain k0 where k0: "k0 \<in> fst ` set adj" and l: "loc k = loc k0" by auto
      then have "map_of orig k0 = None" using False by (auto intro!: map_of_eq_None)
      then have "rd w1 k0 = rd w k0" using O(2) k0 by blast
      then show ?thesis using get_loc [OF l] by metis
    next
      case False
      then show ?thesis by (rule bulk_other [OF m])
    qed
    ultimately show ?thesis by simp
  qed
qed

end

section \<open>The implementation keeps the laws\<close>

lemma hd_dropWhile_not: "dropWhile P xs \<noteq> [] \<Longrightarrow> \<not> P (hd (dropWhile P xs))"
  by (rule hd_dropWhile)

lemma trim_space_idem: "trim_space (trim_space s) = trim_space s"
proof -
  let ?d = "dropWhile is_space"
  define t where "t = ?d s"
  have last: "?d (rev (rev (?d (rev t)))) = ?d (rev t)" by (simp add: dropWhile_idem)
  have "?d (rev (?d (rev t))) = rev (?d (rev t))"
  proof (cases "?d (rev t)")
    case Nil
    then show ?thesis by (simp only: rev.simps dropWhile.simps)
  next
    case (Cons c u)
    obtain p where p: "rev t = p @ ?d (rev t)" by (metis takeWhile_dropWhile_id)
    then have t: "t = rev (?d (rev t)) @ rev p" by (metis rev_append rev_rev_ident)
    have "hd t = hd (rev (?d (rev t)))" using Cons by (subst t) (simp add: hd_append)
    moreover have "t \<noteq> []" using Cons t by auto
    ultimately have "\<not> is_space (hd (rev (?d (rev t))))"
      using hd_dropWhile_not [of is_space s] t_def by metis
    then show ?thesis using Cons by (cases "rev (?d (rev t))") auto
  qed
  then show ?thesis using last by (simp add: trim_space_def t_def)
qed

definition sysctl_ready :: "host \<Rightarrow> string \<Rightarrow> bool" where
  "sysctl_ready h p = (h_goos h = ''linux'' \<and> (\<exists>f. h_files h p = Some f \<and> pf_writable f))"

interpretation proc: sysctl_api GetSysctl SetSysctl sysctlPath trim_space sysctl_ready
proof unfold_locales
  show "GetSysctl w k = GetSysctl w k'" if "sysctlPath k = sysctlPath k'" for k k' w
    using that by (simp add: GetSysctl_def cong: option.case_cong)
  show "trim_space v = v" if "GetSysctl w k = Inr v" for w k v
    using that by (auto simp: GetSysctl_def trim_space_idem split: if_splits option.splits)
  show "GetSysctl w' k = Inr (trim_space v)" if "SetSysctl k v w = (Inr u, w')" for k v w u w'
    using that by (auto simp: GetSysctl_def SetSysctl_def split: if_splits option.splits)
  show "GetSysctl (snd (SetSysctl k v w)) k' = GetSysctl w k'"
    if "sysctlPath k \<noteq> sysctlPath k'" for k k' v w
    using that by (auto simp: GetSysctl_def SetSysctl_def split: if_splits option.splits)
  show "w' = w" if "SetSysctl k v w = (Inl e, w')" for k v w e w'
    using that by (auto simp: SetSysctl_def split: if_splits option.splits)
  show "\<exists>v. GetSysctl w k = Inr v" if "sysctl_ready w (sysctlPath k)" for w k
    using that by (auto simp: GetSysctl_def sysctl_ready_def)
  show "\<exists>w'. SetSysctl k v w = (Inr (), w')" if "sysctl_ready w (sysctlPath k)" for w k v
    using that by (auto simp: SetSysctl_def sysctl_ready_def)
  show "sysctl_ready (snd (SetSysctl k v w)) p = sysctl_ready w p" for k v w p
    by (auto simp: SetSysctl_def sysctl_ready_def split: option.splits)
qed

lemmas sysctl_eval = GetSysctl_def SetSysctl_def sysctlPath_def sysctlBase_def path_clean_rooted_def
  replace_char_def trim_space_def is_space_def

end
