(* ===== verification/Ipvsdr.thy ===== *)
theory Ipvsdr
  imports KeepalivedConf Controller Sysctl
begin

text \<open>
  \<open>providers/ipvsdr/ipvsdr.go\<close>: the ipvs-dr provider. \<open>OnUpdate\<close> decides whether anything changed
  since the last update it applied, publishes this node's addresses in the status of the resource,
  and applies the iptables rules and the keepalived configuration; \<open>Start\<close> and \<open>Stop\<close> change and
  restore the host. LoadBalancer objects are shared with the informer, so they are addresses into
  the heap, and the cached resource is one of them.
\<close>

section \<open>State and environment\<close>

text \<open>
  What the surroundings of one call answer: the iptables objects, keepalived's files, the host's
  interfaces, and the API server on an update of the resource (\<open>None\<close>: it was accepted).
\<close>

record 'w ipvsdr_env =
  ie_ipt :: "protocol \<Rightarrow> 'w ipt_iface"
  ie_keepalived :: keepalived_env
  ie_ifaces :: "host_iface list option"
  ie_Update :: "load_balancer \<Rightarrow> go_error option"
  ie_lookPath :: "string \<Rightarrow> go_error + string"
  ie_startOk :: bool
  ie_termEnds :: bool

record 'w ipvsdr =
  iv_nodeName :: string
  iv_sysctlDefault :: gomap
  iv_cache_lb :: "nat option"
  iv_cache_tcps :: "string slice"
  iv_cache_udps :: "string slice"
  iv_world :: 'w                       \<comment> \<open>what the iptables objects act on\<close>
  iv_host :: host                      \<comment> \<open>the settings under \<open>/proc/sys\<close>\<close>
  iv_keepalived :: keepalived_state    \<comment> \<open>with \<open>cfgMD5\<close>\<close>
  iv_updates :: "load_balancer list"   \<comment> \<open>what was sent to the API server\<close>
  iv_calls :: nat                      \<comment> \<open>calls of the provider so far, each with its own environment\<close>

definition sysctlAdjustments :: gomap where
  "sysctlAdjustments =
     [(''net.ipv4.ip_nonlocal_bind'', ''1''), (''net.ipv4.vs.conntrack'', ''1''),
      (''net.ipv4.conf.all.arp_ignore'', ''1''), (''net.ipv4.conf.all.arp_announce'', ''2''),
      (''net.ipv4.conf.lo.arp_ignore'', ''1''), (''net.ipv4.conf.lo.arp_announce'', ''2'')]"

definition NewIpvsdrProvider :: "string \<Rightarrow> 'w \<Rightarrow> host \<Rightarrow> 'w ipvsdr" where
  "NewIpvsdrProvider nodeName w h =
     \<lparr> iv_nodeName = nodeName, iv_sysctlDefault = [], iv_cache_lb = None, iv_cache_tcps = None,
       iv_cache_udps = None, iv_world = w, iv_host = h,
       iv_keepalived = \<lparr> ks_file = None, ks_cfgMD5 = [], ks_cmd = None, ks_reloads = 0 \<rparr>,
       iv_updates = [], iv_calls = 0 \<rparr>"

section \<open>Checks\<close>

definition ipvsdr_validate :: "string \<Rightarrow> load_balancer \<Rightarrow> go_error option" where
  "ipvsdr_validate me lb =
     (if lb_DeletionTimestamp lb \<noteq> None then Some (Errorf ''lb has been deleted'')
      else if ps_Ipvsdr (lb_Providers lb) = None then Some (Errorf ''lb.Spec.Providers.Ipvsdr is nil'')
      else if ns_Names (lb_Nodes lb) = [] then Some (Errorf ''lb has no node'')
      else if me \<notin> set (ns_Names (lb_Nodes lb)) then Some (Errorf ''this node is not in list'')
      else if validateLoadBalancer lb \<noteq> None then Some (Errorf ''invalid loadbalancer'')
      else None)"

text \<open>The fields compared by \<open>isLBChanged\<close>, of the cached object as it is now and of the new one.\<close>

definition isLBChanged :: "load_balancer option \<Rightarrow> load_balancer \<Rightarrow> bool" where
  "isLBChanged cached new =
     (\<not> (case cached of None \<Rightarrow> False
         | Some old \<Rightarrow>
             lb_Nodes old = lb_Nodes new
             \<and> ps_Ipvsdr (lb_Providers old) = ps_Ipvsdr (lb_Providers new)
             \<and> lb_NodeStatuses old = lb_NodeStatuses new
             \<and> lb_TCPConfigMap old = lb_TCPConfigMap new
             \<and> lb_UDPConfigMap old = lb_UDPConfigMap new
             \<and> lb_DeletionTimestamp old = lb_DeletionTimestamp new))"

definition found_config_map :: "config_map lookup \<Rightarrow> go_error + config_map option" where
  "found_config_map l = (case l of Found c \<Rightarrow> Inr (Some c) | Missing \<Rightarrow> Inr None | LookupErr t \<Rightarrow> Inl (KubeOther t))"

definition isListenPortChanged ::
  "(string \<Rightarrow> string \<Rightarrow> config_map lookup) \<Rightarrow> string slice \<Rightarrow> string slice \<Rightarrow> load_balancer
   \<Rightarrow> go_error + bool \<times> string list \<times> string list" where
  "isListenPortChanged cms cached_tcps cached_udps new =
     (case found_config_map (cms (lb_Namespace new) (lb_TCPConfigMap new)) of
        Inl e \<Rightarrow> Inl e
      | Inr tcpcm \<Rightarrow>
         (case found_config_map (cms (lb_Namespace new) (lb_UDPConfigMap new)) of
            Inl e \<Rightarrow> Inl e
          | Inr udpcm \<Rightarrow>
             (case GetExportedPorts new tcpcm udpcm of
                (tcp, udp) \<Rightarrow>
                  Inr (cached_tcps \<noteq> Some (sort tcp) \<or> cached_udps \<noteq> Some (sort udp), sort tcp, sort udp))))"

section \<open>Publishing the node's addresses\<close>

type_synonym all_ifaces = "(string \<times> node_status) list"

text \<open>The inner loop: the first old status with this name.\<close>

definition old_status :: "node_statuses \<Rightarrow> string \<Rightarrow> node_status option" where
  "old_status old n = find (\<lambda>v. st_Name v = n) (elems old)"

text \<open>The loop over the names of the nodes, with \<open>new.Nodes\<close> and \<open>allNodeIfaceNets\<close>.\<close>

fun merge_statuses ::
  "string \<Rightarrow> node_status \<Rightarrow> node_statuses \<Rightarrow> string list \<Rightarrow> node_statuses \<Rightarrow> all_ifaces
   \<Rightarrow> node_statuses \<times> all_ifaces" where
  "merge_statuses me mine old [] new nets = (new, nets)"
| "merge_statuses me mine old (n # ns) new nets =
     (if n = me then merge_statuses me mine old ns (slice_append new mine) nets
      else case old_status old n of
          Some v \<Rightarrow> merge_statuses me mine old ns (slice_append new v) (AList.update n v nets)
        | None \<Rightarrow> merge_statuses me mine old ns new nets)"

definition myNodeStatuses :: "string \<Rightarrow> node_status \<Rightarrow> load_balancer \<Rightarrow> node_statuses \<times> all_ifaces" where
  "myNodeStatuses me mine lb =
     merge_statuses me mine (lb_NodeStatuses lb) (ns_Names (lb_Nodes lb)) None [(me, mine)]"

text \<open>
  \<open>registerNodeNetwork\<close> on the object at address \<open>a\<close>: the result is the networks, whether it was an
  update, and the error. The object in the heap is changed before the API server is asked.
\<close>

definition registerNodeNetwork ::
  "'w ipvsdr_env \<Rightarrow> nat \<Rightarrow> load_balancer \<Rightarrow> node_net_selector \<Rightarrow> 'w ipvsdr bstate
   \<Rightarrow> (all_ifaces option \<times> bool \<times> go_error option) \<times> 'w ipvsdr bstate" where
  "registerNodeNetwork env a lb nns s =
     (case getCurrentNodeIfaceIPs (ie_ifaces env) (iv_nodeName (fst s)) nns of
        Inl e \<Rightarrow> ((None, False, Some e), s)
      | Inr mine \<Rightarrow>
         (case myNodeStatuses (iv_nodeName (fst s)) mine lb of
            (new, nets) \<Rightarrow>
              if lb_NodeStatuses lb = new then ((Some nets, False, None), s)
              else let lb' = lb\<lparr>lb_NodeStatuses := new\<rparr>
                   in ((None, True, ie_Update env lb'),
                       ((fst s)\<lparr>iv_updates := iv_updates (fst s) @ [lb']\<rparr>, heap_write a lb' (snd s)))))"

section \<open>OnUpdate\<close>

text \<open>The selectors of all nodes, for the loop of \<open>OnUpdate\<close>.\<close>

definition all_selectors_of ::
  "(string \<Rightarrow> k8s_node lookup) \<Rightarrow> keepalived_bind list \<Rightarrow> string list \<Rightarrow> (all_selectors, go_error, unit) prog" where
  "all_selectors_of nodes binds names =
     forE names (\<lambda>n. seqE (getNodeNetSelector nodes n binds) (\<lambda>_. retE ()))"

definition on_world :: "('w, go_error, 'a) prog \<Rightarrow> ('w ipvsdr bstate, go_error, 'a) prog" where
  "on_world m s = (case m (iv_world (fst s)) of (r, w) \<Rightarrow> (r, ((fst s)\<lparr>iv_world := w\<rparr>, snd s)))"

definition on_keepalived ::
  "(keepalived_state, go_error, 'a) prog \<Rightarrow> ('w ipvsdr bstate, go_error, 'a) prog" where
  "on_keepalived m s =
     (case m (iv_keepalived (fst s)) of (r, k) \<Rightarrow> (r, ((fst s)\<lparr>iv_keepalived := k\<rparr>, snd s)))"

text \<open>From the point where the node's addresses are published: apply, then remember.\<close>

definition apply_update ::
  "'w ipvsdr_env \<Rightarrow> (string \<Rightarrow> k8s_node lookup) \<Rightarrow> nat \<Rightarrow> load_balancer \<Rightarrow> ipvsdr_provider
   \<Rightarrow> all_selectors \<Rightarrow> all_ifaces \<Rightarrow> bool \<Rightarrow> bool \<Rightarrow> string list \<Rightarrow> string list
   \<Rightarrow> ('w ipvsdr bstate, go_error, unit) prog" where
  "apply_update env nodes a lb ipvs sels0 nets lbChange listenPortChange tcps udps s =
     (case all_selectors_of nodes (getAllBinds ipvs) (ns_Names (lb_Nodes lb)) sels0 of
        (Inl e, sels) \<Rightarrow> (Inl e, s)
      | (Inr _, sels) \<Rightarrow>
          seqE (if lbChange \<or> listenPortChange
                then on_world (onUpdateIPtables (ie_ipt env) (iv_nodeName (fst s))
                       (ns_Names (lb_Nodes lb)) ipvs sels nets tcps udps)
                else retE ()) (\<lambda>_.
          seqE (if lbChange
                then on_keepalived (onUpdateKeepalived (ie_keepalived env) (iv_nodeName (fst s)) lb ipvs sels nets)
                else retE ()) (\<lambda>_ s.
          (Inr (), ((fst s)\<lparr>iv_cache_lb := Some a, iv_cache_tcps := Some tcps, iv_cache_udps := Some udps\<rparr>,
                    snd s)))) s)"

definition cached_lb :: "'w ipvsdr bstate \<Rightarrow> load_balancer option" where
  "cached_lb s = Option.bind (iv_cache_lb (fst s)) (hp_obj (snd s))"

definition ipvsdr_OnUpdate ::
  "'w ipvsdr_env \<Rightarrow> store_lister \<Rightarrow> nat \<Rightarrow> ('w ipvsdr bstate, go_error, unit) prog" where
  "ipvsdr_OnUpdate env L a s =
     (case hp_obj (snd s) a of
        None \<Rightarrow> (Inl (Panic (NilDereference ''lb'')), s)
      | Some lb \<Rightarrow>
         (case ipvsdr_validate (iv_nodeName (fst s)) lb of
            Some e \<Rightarrow> (Inr (), s)
          | None \<Rightarrow>
             (let ipvs = the (ps_Ipvsdr (lb_Providers lb)); lbChange = isLBChanged (cached_lb s) lb in
              case isListenPortChanged (sl_ConfigMap L) (iv_cache_tcps (fst s)) (iv_cache_udps (fst s)) lb of
                Inl e \<Rightarrow> (Inl e, s)
              | Inr (listenPortChange, tcps, udps) \<Rightarrow>
                  if \<not> lbChange \<and> \<not> listenPortChange then (Inr (), s)
                  else case getNodeNetSelector (sl_Node L) (iv_nodeName (fst s)) (getAllBinds ipvs) [] of
                      (Inl e, sels) \<Rightarrow> (Inl e, s)
                    | (Inr nns, sels) \<Rightarrow>
                        (case registerNodeNetwork env a lb nns s of
                           ((nets, updated, e), s1) \<Rightarrow>
                             if updated \<or> e \<noteq> None
                             then (case e of None \<Rightarrow> Inr () | Some e \<Rightarrow> if e = KubeConflict then Inr () else Inl e, s1)
                             else case nets of
                                 None \<Rightarrow> (Inr (), s1)
                               | Some nets \<Rightarrow>
                                   apply_update env (sl_Node L) a lb ipvs sels nets lbChange listenPortChange
                                     tcps udps s1))))"

section \<open>Start and Stop\<close>

definition changeSysctl :: "'w ipvsdr bstate \<Rightarrow> 'w ipvsdr bstate" where
  "changeSysctl s =
     (case BulkModify sysctlAdjustments (iv_host (fst s)) of
        ((orig, e), h) \<Rightarrow> ((fst s)\<lparr>iv_sysctlDefault := orig, iv_host := h\<rparr>, snd s))"

definition resetSysctl :: "'w ipvsdr bstate \<Rightarrow> 'w ipvsdr bstate" where
  "resetSysctl s =
     (case BulkModify (iv_sysctlDefault (fst s)) (iv_host (fst s)) of
        (_, h) \<Rightarrow> ((fst s)\<lparr>iv_host := h\<rparr>, snd s))"

text \<open>
  \<open>keepalived.Start\<close>: the goroutine \<open>run\<close>, here run to the point where the daemon is kept alive. A
  daemon that cannot be run panics.
\<close>

definition os_Stdout :: nat where "os_Stdout = 1"
definition os_Stderr :: nat where "os_Stderr = 2"

definition keepalived_daemon :: "(string \<Rightarrow> go_error + string) \<Rightarrow> daemon" where
  "keepalived_daemon lookPath =
     (let d = Daemon lookPath ''keepalived''
            [''--dont-fork'', ''--log-console'', ''--release-vips'', ''--pid'', ''/keepalived.pid'']
      in SetGracePeriod 1 (d\<lparr>d_spec := (d_spec d)\<lparr>xs_Stdout := Some os_Stdout, xs_Stderr := Some os_Stderr\<rparr>\<rparr>))"

definition keepalived_run ::
  "(string \<Rightarrow> go_error + string) \<Rightarrow> bool \<Rightarrow> (keepalived_state, go_error, unit) prog" where
  "keepalived_run lookPath ok k =
     (case RunForever ok (keepalived_daemon lookPath) of
        (Inl e, d) \<Rightarrow> (Inl (Panic (CallerPanic ''can not run keepalived'')), k\<lparr>ks_cmd := Some d\<rparr>)
      | (Inr _, d) \<Rightarrow> (Inr (), k\<lparr>ks_cmd := Some d\<rparr>))"

definition ipvsdr_Start :: "'w ipvsdr_env \<Rightarrow> ('w ipvsdr bstate, go_error, unit) prog" where
  "ipvsdr_Start env s =
     seqE (on_world (ensureChain (ie_ipt env)))
       (\<lambda>_. on_keepalived (keepalived_run (ie_lookPath env) (ie_startOk env))) (changeSysctl s)"

definition ipvsdr_WaitForStart :: "'w ipvsdr \<Rightarrow> bool" where
  "ipvsdr_WaitForStart p = (case ks_cmd (iv_keepalived p) of None \<Rightarrow> False | Some d \<Rightarrow> IsRunning d)"

definition keepalived_Stop :: "bool \<Rightarrow> (keepalived_state, go_error, unit) prog" where
  "keepalived_Stop ends k =
     (case ks_cmd k of
        None \<Rightarrow> (Inl (Panic (NilDereference ''k.cmd'')), k)
      | Some d \<Rightarrow> (case ignoreE (d_Stop ends) d of (r, d') \<Rightarrow> (r, k\<lparr>ks_cmd := Some d'\<rparr>)))"

definition ipvsdr_Stop :: "'w ipvsdr_env \<Rightarrow> ('w ipvsdr bstate, go_error, unit) prog" where
  "ipvsdr_Stop env s =
     seqE (on_world (deleteChain (ie_ipt env)))
       (\<lambda>_. on_keepalived (keepalived_Stop (ie_termEnds env))) (resetSysctl s)"

text \<open>The provider as the controller sees it; every call has an environment of its own.\<close>

definition with_call ::
  "(nat \<Rightarrow> 'w ipvsdr_env) \<Rightarrow> ('w ipvsdr_env \<Rightarrow> ('w ipvsdr bstate, go_error, unit) prog)
   \<Rightarrow> ('w ipvsdr bstate, go_error, unit) prog" where
  "with_call env m s = m (env (iv_calls (fst s))) ((fst s)\<lparr>iv_calls := Suc (iv_calls (fst s))\<rparr>, snd s)"

definition ipvsdr_backend :: "(nat \<Rightarrow> 'w ipvsdr_env) \<Rightarrow> 'w ipvsdr backend" where
  "ipvsdr_backend env =
     \<lparr> be_OnUpdate = (\<lambda>L a. with_call env (\<lambda>e. ipvsdr_OnUpdate e L a)),
       be_Start = with_call env ipvsdr_Start,
       be_WaitForStart = ipvsdr_WaitForStart,
       be_Stop = (\<lambda>L. with_call env ipvsdr_Stop) \<rparr>"

section \<open>What is published\<close>

definition status_for :: "string \<Rightarrow> node_status \<Rightarrow> node_statuses \<Rightarrow> string \<Rightarrow> node_status option" where
  "status_for me mine old n = (if n = me then Some mine else old_status old n)"

definition published :: "string \<Rightarrow> node_status \<Rightarrow> node_statuses \<Rightarrow> string list \<Rightarrow> node_status list" where
  "published me mine old ns = List.map_filter (status_for me mine old) ns"

lemma merge_fst:
  "fst (merge_statuses me mine old ns new nets) =
     (if published me mine old ns = [] then new else Some (elems new @ published me mine old ns))"
  by (induction me mine old ns new nets rule: merge_statuses.induct)
     (auto simp: published_def status_for_def List.map_filter_simps slice_append_def split: option.splits)

lemma published_not_Nil: "me \<in> set ns \<Longrightarrow> published me mine old ns \<noteq> []"
  by (induction ns) (auto simp: published_def List.map_filter_simps status_for_def split: option.split)

lemma myNodeStatuses_fst:
  "me \<in> set (ns_Names (lb_Nodes lb)) \<Longrightarrow> fst (myNodeStatuses me mine lb) =
     Some (published me mine (lb_NodeStatuses lb) (ns_Names (lb_Nodes lb)))"
  by (simp add: myNodeStatuses_def merge_fst published_not_Nil)

lemma find_map_filter:
  assumes "\<And>m v. f m = Some v \<Longrightarrow> st_Name v = m" and "n \<in> set ns"
  shows "find (\<lambda>v. st_Name v = n) (List.map_filter f ns) = f n"
proof -
  have none: "find (\<lambda>v. st_Name v = n) (List.map_filter f ns) = None" if "f n = None" for ns
    using that assms(1) by (induction ns) (auto simp: List.map_filter_simps split: option.split)
  show ?thesis
    using assms(2)
  proof (induction ns)
    case (Cons m ns)
    show ?case
    proof (cases "f n")
      case None
      then show ?thesis using none [of "m # ns"] by simp
    next
      case (Some v)
      then show ?thesis using Cons assms(1)
        by (cases "m = n") (auto simp: List.map_filter_simps split: option.split)
    qed
  qed simp
qed

lemma status_for_name: "st_Name mine = me \<Longrightarrow> status_for me mine old n = Some v \<Longrightarrow> st_Name v = n"
  by (auto simp: status_for_def old_status_def find_Some_iff split: if_splits)

lemma old_status_published:
  "st_Name mine = me \<Longrightarrow> n \<in> set ns \<Longrightarrow> old_status (Some (published me mine old ns)) n = status_for me mine old n"
  unfolding published_def old_status_def elems_simps
  by (rule find_map_filter) (rule status_for_name)

lemma map_filter_cong: "(\<And>x. x \<in> set xs \<Longrightarrow> f x = g x) \<Longrightarrow> List.map_filter f xs = List.map_filter g xs"
  by (induction xs) (auto simp: List.map_filter_simps split: option.split)

text \<open>Publishing again what was published changes nothing.\<close>

lemma published_idem:
  assumes "st_Name mine = me"
  shows "published me mine (Some (published me mine old ns)) ns = published me mine old ns"
proof -
  have "status_for me mine (Some (published me mine old ns)) n = status_for me mine old n" if "n \<in> set ns" for n
    using old_status_published [OF assms that] by (simp add: status_for_def)
  then show ?thesis unfolding published_def [of me mine _ ns] by (intro map_filter_cong)
qed

text \<open>After a round trip through the API server, it changes nothing if this node's status is kept by it.\<close>

lemma published_json:
  assumes "st_Name mine = me" "json_node_status mine = mine"
  shows "published me mine (Some (map json_node_status (published me mine old ns))) ns =
    map json_node_status (published me mine old ns)"
proof -
  have name: "st_Name (json_node_status v) = st_Name v" for v by (simp add: json_node_status_def)
  have map_find: "find (\<lambda>v. st_Name v = n) (map json_node_status vs) =
      map_option json_node_status (find (\<lambda>v. st_Name v = n) vs)" for n vs
    by (induction vs) (auto simp: name)
  have "status_for me mine (Some (map json_node_status (published me mine old ns))) n =
      map_option json_node_status (status_for me mine old n)" if "n \<in> set ns" for n
    using old_status_published [OF assms(1) that, of old] assms(2)
    by (simp add: status_for_def old_status_def map_find)
  then have "published me mine (Some (map json_node_status (published me mine old ns))) ns =
      List.map_filter (\<lambda>n. map_option json_node_status (status_for me mine old n)) ns"
    unfolding published_def [of me mine "Some _"] by (intro map_filter_cong)
  also have "\<dots> = map json_node_status (published me mine old ns)"
    by (induction ns) (auto simp: published_def List.map_filter_simps split: option.split)
  finally show ?thesis .
qed

text \<open>Statuses the round trip keeps: every interface has an address.\<close>

lemma json_node_status_id:
  assumes "st_IfaceNetList st \<noteq> Some []" "\<forall>i \<in> set (elems (st_IfaceNetList st)). elems (if_IPs i) \<noteq> []"
  shows "json_node_status st = st"
proof (cases "st_IfaceNetList st")
  case None
  then show ?thesis by (simp add: json_node_status_def json_omitempty_def)
next
  case (Some ifs)
  then have "map json_iface ifs = ifs"
    using assms(2) by (auto simp: json_iface_def json_omitempty_id intro!: map_idI)
  then show ?thesis using Some assms(1) by (auto simp: json_node_status_def json_omitempty_def)
qed

lemma json_iface_IPs: "if_IPs (json_iface i) \<noteq> Some []"
  by (cases "if_IPs i") (auto simp: json_iface_def json_omitempty_def)

lemma json_statuses_IPs:
  assumes "st \<in> set (elems (json_node_statuses ss))" "i \<in> set (elems (st_IfaceNetList st))"
  shows "if_IPs i \<noteq> Some []"
proof -
  obtain st0 where "st = json_node_status st0"
    using assms(1) by (auto simp: json_node_statuses_def)
  then have "i \<in> json_iface ` set (elems (st_IfaceNetList st0))"
    using assms(2) by (simp add: json_node_status_def)
  then show ?thesis using json_iface_IPs by auto
qed

section \<open>What OnUpdate leaves alone\<close>

text \<open>The parts of the provider that no update changes, apart from the list of sent resources.\<close>

definition iv_frame :: "'w ipvsdr \<Rightarrow> 'w ipvsdr \<Rightarrow> bool" where
  "iv_frame p p' \<longleftrightarrow> iv_nodeName p' = iv_nodeName p \<and> iv_sysctlDefault p' = iv_sysctlDefault p
     \<and> iv_host p' = iv_host p \<and> iv_calls p' = iv_calls p
     \<and> ks_cmd (iv_keepalived p') = ks_cmd (iv_keepalived p)"

definition cache_same :: "'w ipvsdr \<Rightarrow> 'w ipvsdr \<Rightarrow> bool" where
  "cache_same p p' \<longleftrightarrow> iv_cache_lb p' = iv_cache_lb p \<and> iv_cache_tcps p' = iv_cache_tcps p
     \<and> iv_cache_udps p' = iv_cache_udps p"

lemma frame_refl [simp]: "iv_frame p p" "cache_same p p"
  by (simp_all add: iv_frame_def cache_same_def)

lemma onUpdateKeepalived_cmd: "onUpdateKeepalived env me lb ipvs sels nets k = (r, k') \<Longrightarrow> ks_cmd k' = ks_cmd k"
  by (auto simp: onUpdateKeepalived_def Let_def UpdateConfig_def Reload_def
      split: sum.splits prod.splits if_splits option.splits)

lemma on_world_frame:
  "on_world m s = (r, s') \<Longrightarrow> snd s' = snd s \<and> iv_frame (fst s) (fst s') \<and> cache_same (fst s) (fst s')
     \<and> iv_updates (fst s') = iv_updates (fst s) \<and> iv_keepalived (fst s') = iv_keepalived (fst s)
     \<and> m (iv_world (fst s)) = (r, iv_world (fst s'))"
  by (auto simp: on_world_def iv_frame_def cache_same_def split: prod.splits)

lemma on_keepalived_frame:
  "on_keepalived (onUpdateKeepalived env me lb ipvs sels nets) s = (r, s') \<Longrightarrow>
     snd s' = snd s \<and> iv_frame (fst s) (fst s') \<and> cache_same (fst s) (fst s')
     \<and> iv_updates (fst s') = iv_updates (fst s) \<and> iv_world (fst s') = iv_world (fst s)"
  by (auto simp: on_keepalived_def iv_frame_def cache_same_def dest: onUpdateKeepalived_cmd split: prod.splits)

lemma apply_update_frame:
  fixes s :: "'w ipvsdr bstate"
  assumes "apply_update env nodes a lb ipvs sels nets lbChange portChange tcps udps s = (r, s')"
  shows "snd s' = snd s \<and> iv_frame (fst s) (fst s') \<and> iv_updates (fst s') = iv_updates (fst s)
    \<and> (case r of Inr _ \<Rightarrow> iv_cache_lb (fst s') = Some a \<and> iv_cache_tcps (fst s') = Some tcps
                          \<and> iv_cache_udps (fst s') = Some udps
       | Inl _ \<Rightarrow> cache_same (fst s) (fst s'))"
proof -
  obtain q sels1 where sels: "all_selectors_of nodes (getAllBinds ipvs) (ns_Names (lb_Nodes lb)) sels = (q, sels1)"
    by fastforce
  show ?thesis
  proof (cases q)
    case (Inl e)
    then show ?thesis using assms sels by (auto simp: apply_update_def)
  next
    case (Inr u)
    define m1 :: "('w ipvsdr bstate, go_error, unit) prog" where "m1 = (if lbChange \<or> portChange
        then on_world (onUpdateIPtables (ie_ipt env) (iv_nodeName (fst s)) (ns_Names (lb_Nodes lb)) ipvs sels1 nets tcps udps)
        else retE ())"
    define m2 :: "('w ipvsdr bstate, go_error, unit) prog" where "m2 = (if lbChange
        then on_keepalived (onUpdateKeepalived (ie_keepalived env) (iv_nodeName (fst s)) lb ipvs sels1 nets)
        else retE ())"
    have run: "seqE m1 (\<lambda>_. seqE m2 (\<lambda>_ s. (Inr (), ((fst s)\<lparr>iv_cache_lb := Some a,
        iv_cache_tcps := Some tcps, iv_cache_udps := Some udps\<rparr>, snd s)))) s = (r, s')"
      using assms sels Inr by (simp add: apply_update_def m1_def m2_def)
    obtain r1 s1 where 1: "m1 s = (r1, s1)" by (cases "m1 s") blast
    then have f1: "snd s1 = snd s" "iv_frame (fst s) (fst s1)" "cache_same (fst s) (fst s1)"
        "iv_updates (fst s1) = iv_updates (fst s)"
      using on_world_frame [of _ s r1 s1] by (auto simp: m1_def split: if_splits)
    show ?thesis
    proof (cases r1)
      case (Inl e)
      then show ?thesis using run 1 f1 by (auto simp: seqE_def)
    next
      case (Inr u1)
      obtain r2 s2 where 2: "m2 s1 = (r2, s2)" by (cases "m2 s1") blast
      then have f2: "snd s2 = snd s1" "iv_frame (fst s1) (fst s2)" "cache_same (fst s1) (fst s2)"
          "iv_updates (fst s2) = iv_updates (fst s1)"
        using on_keepalived_frame [of "ie_keepalived env" "iv_nodeName (fst s)" lb ipvs sels1 nets s1 r2 s2]
        by (auto simp: m2_def split: if_splits)
      show ?thesis
        using run 1 2 Inr f1 f2 by (cases r2) (auto simp: seqE_def iv_frame_def cache_same_def)
    qed
  qed
qed

text \<open>The three outcomes of an update: nothing, a published status, or an application.\<close>

definition publishes :: "'w ipvsdr_env \<Rightarrow> nat \<Rightarrow> load_balancer \<Rightarrow> 'w ipvsdr bstate \<Rightarrow> 'w ipvsdr bstate \<Rightarrow> bool" where
  "publishes env a lb s s' \<longleftrightarrow> (\<exists>mine lb'. st_Name mine = iv_nodeName (fst s)
     \<and> lb' = lb\<lparr>lb_NodeStatuses := Some (published (iv_nodeName (fst s)) mine (lb_NodeStatuses lb) (ns_Names (lb_Nodes lb)))\<rparr>
     \<and> lb' \<noteq> lb
     \<and> s' = ((fst s)\<lparr>iv_updates := iv_updates (fst s) @ [lb']\<rparr>, heap_write a lb' (snd s)))"

lemma register_cases:
  assumes "registerNodeNetwork env a lb nns s = ((nets, updated, e), s')" "iv_nodeName (fst s) \<in> set (ns_Names (lb_Nodes lb))"
  shows "updated \<and> nets = None \<and> publishes env a lb s s' \<or> \<not> updated \<and> s' = s \<and> (e = None \<longleftrightarrow> nets \<noteq> None)"
proof (cases "getCurrentNodeIfaceIPs (ie_ifaces env) (iv_nodeName (fst s)) nns")
  case (Inl e)
  then show ?thesis using assms(1) by (auto simp: registerNodeNetwork_def)
next
  case (Inr mine)
  then have name: "st_Name mine = iv_nodeName (fst s)"
    by (auto simp: getCurrentNodeIfaceIPs_def split: option.splits)
  obtain new ns where m: "myNodeStatuses (iv_nodeName (fst s)) mine lb = (new, ns)" by fastforce
  then have new: "new = Some (published (iv_nodeName (fst s)) mine (lb_NodeStatuses lb) (ns_Names (lb_Nodes lb)))"
    using myNodeStatuses_fst [OF assms(2), of mine] by simp
  show ?thesis
  proof (cases "lb_NodeStatuses lb = new")
    case True
    then show ?thesis using assms(1) Inr m by (auto simp: registerNodeNetwork_def)
  next
    case False
    have "lb\<lparr>lb_NodeStatuses := new\<rparr> \<noteq> lb"
    proof
      assume "lb\<lparr>lb_NodeStatuses := new\<rparr> = lb"
      then have "lb_NodeStatuses (lb\<lparr>lb_NodeStatuses := new\<rparr>) = lb_NodeStatuses lb" by (rule arg_cong)
      with False show False by simp
    qed
    moreover have "updated \<and> nets = None \<and> s' = ((fst s)\<lparr>iv_updates := iv_updates (fst s) @ [lb\<lparr>lb_NodeStatuses := new\<rparr>]\<rparr>,
        heap_write a (lb\<lparr>lb_NodeStatuses := new\<rparr>) (snd s))"
      using assms(1) Inr m False by (simp add: registerNodeNetwork_def Let_def)
    ultimately show ?thesis using name unfolding new publishes_def by metis
  qed
qed

lemma OnUpdate_cases:
  assumes "ipvsdr_OnUpdate env L a s = (r, s')" "hp_obj (snd s) a = Some lb"
  shows "s' = s \<or> publishes env a lb s s' \<and> ipvsdr_validate (iv_nodeName (fst s)) lb = None
    \<or> (\<exists>ipvs sels nets c1 c2 tcp udp. ipvsdr_validate (iv_nodeName (fst s)) lb = None
        \<and> isListenPortChanged (sl_ConfigMap L) (iv_cache_tcps (fst s)) (iv_cache_udps (fst s)) lb =
             Inr (c2, sort tcp, sort udp)
        \<and> apply_update env (sl_Node L) a lb ipvs sels nets c1 c2 (sort tcp) (sort udp) s = (r, s'))"
proof (cases "ipvsdr_validate (iv_nodeName (fst s)) lb")
  case (Some e)
  then show ?thesis using assms by (simp add: ipvsdr_OnUpdate_def)
next
  case None
  then have me: "iv_nodeName (fst s) \<in> set (ns_Names (lb_Nodes lb))"
    by (auto simp: ipvsdr_validate_def split: if_splits)
  let ?ipvs = "the (ps_Ipvsdr (lb_Providers lb))"
  let ?c1 = "isLBChanged (cached_lb s) lb"
  show ?thesis
  proof (cases "isListenPortChanged (sl_ConfigMap L) (iv_cache_tcps (fst s)) (iv_cache_udps (fst s)) lb")
    case (Inl e)
    then show ?thesis using assms None by (simp add: ipvsdr_OnUpdate_def Let_def)
  next
    case (Inr x)
    then obtain c2 tcp udp where ports:
      "isListenPortChanged (sl_ConfigMap L) (iv_cache_tcps (fst s)) (iv_cache_udps (fst s)) lb = Inr (c2, sort tcp, sort udp)"
      by (auto simp: isListenPortChanged_def split: sum.splits prod.splits)
    show ?thesis
    proof (cases "\<not> ?c1 \<and> \<not> c2")
      case True
      then show ?thesis using assms None ports by (simp add: ipvsdr_OnUpdate_def Let_def)
    next
      case changed: False
      obtain q sels where sel: "getNodeNetSelector (sl_Node L) (iv_nodeName (fst s)) (getAllBinds ?ipvs) [] = (q, sels)"
        by fastforce
      show ?thesis
      proof (cases q)
        case (Inl e)
        then show ?thesis using assms None ports changed sel by (auto simp: ipvsdr_OnUpdate_def Let_def)
      next
        case (Inr nns)
        obtain nets updated e s1 where reg: "registerNodeNetwork env a lb nns s = ((nets, updated, e), s1)"
          by (metis prod_cases3 surj_pair)
        have run: "(if updated \<or> e \<noteq> None
             then (case e of None \<Rightarrow> Inr () | Some e \<Rightarrow> if e = KubeConflict then Inr () else Inl e, s1)
             else case nets of None \<Rightarrow> (Inr (), s1)
               | Some nets \<Rightarrow> apply_update env (sl_Node L) a lb ?ipvs sels nets ?c1 c2 (sort tcp) (sort udp) s1) = (r, s')"
          using assms None ports changed sel Inr reg by (auto simp: ipvsdr_OnUpdate_def Let_def)
        show ?thesis
          using register_cases [OF reg me] run None ports
          by (cases updated; cases e; cases nets) auto
      qed
    qed
  qed
qed

section \<open>Invariant\<close>

text \<open>
  What always holds of a published resource: it has a status for this node and only statuses of
  nodes the resource names.
\<close>

definition published_ok :: "string \<Rightarrow> load_balancer \<Rightarrow> bool" where
  "published_ok me lb \<longleftrightarrow> me \<in> set (ns_Names (lb_Nodes lb))
     \<and> me \<in> st_Name ` set (elems (lb_NodeStatuses lb))
     \<and> st_Name ` set (elems (lb_NodeStatuses lb)) \<subseteq> set (ns_Names (lb_Nodes lb))"

definition ipvsdr_inv :: "'w ipvsdr bstate \<Rightarrow> bool" where
  "ipvsdr_inv s \<longleftrightarrow>
     (\<forall>a. iv_cache_lb (fst s) = Some a \<longrightarrow> hp_obj (snd s) a \<noteq> None
        \<and> iv_cache_tcps (fst s) \<noteq> None \<and> iv_cache_udps (fst s) \<noteq> None)
     \<and> sorted (elems (iv_cache_tcps (fst s))) \<and> sorted (elems (iv_cache_udps (fst s)))
     \<and> (\<forall>d. ks_cmd (iv_keepalived (fst s)) = Some d \<longrightarrow> d_inv d)
     \<and> (\<forall>lb \<in> set (iv_updates (fst s)). published_ok (iv_nodeName (fst s)) lb)"

lemma published_names:
  assumes "st_Name mine = me" "me \<in> set ns"
  shows "me \<in> st_Name ` set (published me mine old ns)" "st_Name ` set (published me mine old ns) \<subseteq> set ns"
proof -
  have "mine \<in> set (published me mine old ns)"
    using assms(2) by (auto simp: published_def set_map_filter_Some status_for_def)
  then show "me \<in> st_Name ` set (published me mine old ns)" using assms(1) by blast
  show "st_Name ` set (published me mine old ns) \<subseteq> set ns"
    using status_for_name [OF assms(1)] by (fastforce simp: published_def set_map_filter_Some)
qed

lemma publishes_inv:
  assumes "ipvsdr_inv s" "publishes env a lb s s'" "hp_obj (snd s) a = Some lb"
    "iv_nodeName (fst s) \<in> set (ns_Names (lb_Nodes lb))"
  shows "ipvsdr_inv s'"
proof -
  obtain mine lb' where m: "st_Name mine = iv_nodeName (fst s)"
    and lb': "lb' = lb\<lparr>lb_NodeStatuses := Some (published (iv_nodeName (fst s)) mine (lb_NodeStatuses lb) (ns_Names (lb_Nodes lb)))\<rparr>"
    and s': "s' = ((fst s)\<lparr>iv_updates := iv_updates (fst s) @ [lb']\<rparr>, heap_write a lb' (snd s))"
    using assms(2) unfolding publishes_def by blast
  have "published_ok (iv_nodeName (fst s)) lb'"
    using published_names [OF m assms(4), of "lb_NodeStatuses lb"] assms(4) by (simp add: published_ok_def lb')
  then show ?thesis using assms(1) by (auto simp: ipvsdr_inv_def s')
qed

lemma apply_inv:
  assumes "ipvsdr_inv s" "hp_obj (snd s) a = Some lb"
    "apply_update env nodes a lb ipvs sels nets c1 c2 (sort tcp) (sort udp) s = (r, s')"
  shows "ipvsdr_inv s'"
proof -
  note f = apply_update_frame [OF assms(3)]
  show ?thesis
  proof (cases r)
    case (Inl e)
    then show ?thesis using f assms(1) by (simp add: ipvsdr_inv_def iv_frame_def cache_same_def)
  next
    case (Inr u)
    then show ?thesis using f assms(1,2) by (simp add: ipvsdr_inv_def iv_frame_def)
  qed
qed

lemma OnUpdate_inv:
  assumes "ipvsdr_inv s" "hp_obj (snd s) a = Some lb"
  shows "ipvsdr_inv (snd (ipvsdr_OnUpdate env L a s))"
proof -
  obtain r s' where run: "ipvsdr_OnUpdate env L a s = (r, s')" by (cases "ipvsdr_OnUpdate env L a s") blast
  have me: "iv_nodeName (fst s) \<in> set (ns_Names (lb_Nodes lb))"
    if "ipvsdr_validate (iv_nodeName (fst s)) lb = None"
    using that by (auto simp: ipvsdr_validate_def split: if_splits)
  from OnUpdate_cases [OF run assms(2)] have "ipvsdr_inv s'"
    using assms publishes_inv [OF assms(1) _ assms(2)] apply_inv [OF assms] me by blast
  then show ?thesis using run by simp
qed

lemma ipvsdr_inv_cong:
  assumes "ipvsdr_inv s" "cache_same (fst s) p" "iv_updates p = iv_updates (fst s)"
    "iv_nodeName p = iv_nodeName (fst s)" "\<And>d. ks_cmd (iv_keepalived p) = Some d \<Longrightarrow> d_inv d"
  shows "ipvsdr_inv (p, snd s)"
  using assms by (simp add: ipvsdr_inv_def cache_same_def)

lemma keepalived_daemon_simps [simp]:
  "d_cmd (keepalived_daemon look) = None" "d_stopCh (keepalived_daemon look) = None"
  "d_errCh (keepalived_daemon look) = None" "d_keepalive (keepalived_daemon look) = None"
  "os_live (keepalived_daemon look) = []" "os_next (keepalived_daemon look) = 0"
  "d_gracefulShutDown (keepalived_daemon look) = None" "d_gracePeriod (keepalived_daemon look) = 1"
  by (simp_all add: keepalived_daemon_def Let_def)

lemma keepalived_lookPath:
  "d_lookPathErr (keepalived_daemon look) = (case look ''keepalived'' of Inl e \<Rightarrow> Some e | Inr _ \<Rightarrow> None)"
  by (simp add: keepalived_daemon_def Daemon_def new_daemon_def is_base_name_def Let_def split: sum.split)

lemma Start_run_inv: "keepalived_run look ok k = (r, k') \<Longrightarrow> ks_cmd k' = Some d \<Longrightarrow> d_inv d"
  using d_inv_RunForever [OF d_inv_new, of "keepalived_daemon look" ok]
  by (auto simp: keepalived_run_def split: prod.splits sum.splits)

lemma keepalived_Stop_inv:
  "keepalived_Stop ends k = (r, k') \<Longrightarrow> (\<And>d. ks_cmd k = Some d \<Longrightarrow> d_inv d) \<Longrightarrow> ks_cmd k' = Some d \<Longrightarrow> d_inv d"
  by (auto simp: keepalived_Stop_def split: prod.splits option.splits)
     (metis d_inv_Stop ignoreE_snd snd_conv)

lemma seq_world_keepalived_inv:
  assumes "ipvsdr_inv s" "\<And>k r k' d. f k = (r, k') \<Longrightarrow> k = iv_keepalived (fst s) \<Longrightarrow> ks_cmd k' = Some d \<Longrightarrow> d_inv d"
  shows "ipvsdr_inv (snd (seqE (on_world m) (\<lambda>_. on_keepalived f) s))"
proof -
  obtain r1 s1 where 1: "on_world m s = (r1, s1)" by (cases "on_world m s") blast
  note f1 = on_world_frame [OF 1]
  have inv1: "ipvsdr_inv s1"
    using assms(1) f1 by (simp add: ipvsdr_inv_def iv_frame_def cache_same_def)
  show ?thesis
  proof (cases r1)
    case (Inl e)
    then show ?thesis using 1 inv1 by (simp add: seqE_def)
  next
    case (Inr u)
    obtain r2 k2 where 2: "f (iv_keepalived (fst s1)) = (r2, k2)" by fastforce
    have "ipvsdr_inv ((fst s1)\<lparr>iv_keepalived := k2\<rparr>, snd s1)"
      using assms(2) [OF 2] f1 by (intro ipvsdr_inv_cong [OF inv1]) (auto simp: cache_same_def)
    then show ?thesis using 1 2 Inr by (simp add: seqE_def on_keepalived_def)
  qed
qed

interpretation ipvsdr_driver: provider_backend "ipvsdr_backend env" ipvsdr_inv
  for env :: "nat \<Rightarrow> 'w ipvsdr_env"
proof unfold_locales
  have calls: "ipvsdr_inv ((fst s)\<lparr>iv_calls := n\<rparr>, snd s)" if "ipvsdr_inv s" for s :: "'w ipvsdr bstate" and n
    using that by (simp add: ipvsdr_inv_def)
  show "ipvsdr_inv (snd (be_OnUpdate (ipvsdr_backend env) L a s))"
    if "ipvsdr_inv s" "hp_obj (snd s) a = Some lb" "validateLoadBalancer lb = None" for s a lb L
    using OnUpdate_inv [OF calls [OF that(1)]] that(2) by (simp add: ipvsdr_backend_def with_call_def)
  show "ipvsdr_inv (snd (be_Start (ipvsdr_backend env) s))" if "ipvsdr_inv s" for s
  proof -
    have "ipvsdr_inv (changeSysctl s')" if "ipvsdr_inv s'" for s' :: "'w ipvsdr bstate"
      using that by (simp add: changeSysctl_def ipvsdr_inv_def split: prod.split)
    then have "ipvsdr_inv (snd (ipvsdr_Start e s'))" if "ipvsdr_inv s'" for e and s' :: "'w ipvsdr bstate"
      unfolding ipvsdr_Start_def using that Start_run_inv by (intro seq_world_keepalived_inv) blast+
    then show ?thesis using calls that by (simp add: ipvsdr_backend_def with_call_def)
  qed
  show "ipvsdr_inv (snd (be_Stop (ipvsdr_backend env) L s))" if "ipvsdr_inv s" for s L
  proof -
    have reset: "ipvsdr_inv (resetSysctl s')" if "ipvsdr_inv s'" for s' :: "'w ipvsdr bstate"
      using that by (simp add: resetSysctl_def ipvsdr_inv_def split: prod.split)
    have "ipvsdr_inv (snd (ipvsdr_Stop e s'))" if "ipvsdr_inv s'" for e and s' :: "'w ipvsdr bstate"
      unfolding ipvsdr_Stop_def
    proof (rule seq_world_keepalived_inv [OF reset [OF that]])
      fix k r k' d
      assume "keepalived_Stop (ie_termEnds e) k = (r, k')" "k = iv_keepalived (fst (resetSysctl s'))" "ks_cmd k' = Some d"
      then show "d_inv d"
        using keepalived_Stop_inv [of "ie_termEnds e" k r k' d] reset [OF that] by (simp add: ipvsdr_inv_def)
    qed
    then show ?thesis using calls that by (simp add: ipvsdr_backend_def with_call_def)
  qed
  show "ipvsdr_inv (b, h')" if "ipvsdr_inv (b, h)" "heap_extends h h'" for b :: "'w ipvsdr" and h h'
    using that unfolding ipvsdr_inv_def heap_extends_def by fastforce
qed

section \<open>Retries\<close>

text \<open>What \<open>OnUpdate\<close> sends is decided by \<open>registerNodeNetwork\<close> on the object as the heap has it.\<close>

lemma register_again:
  assumes "registerNodeNetwork env a lb nns s = ((nets, True, e), s1)"
    and "iv_nodeName (fst s) \<in> set (ns_Names (lb_Nodes lb))" "ie_ifaces env' = ie_ifaces env"
  shows "\<exists>lb1 nets1. hp_obj (snd s1) a = Some lb1 \<and> lb_Nodes lb1 = lb_Nodes lb \<and> lb_Providers lb1 = lb_Providers lb
    \<and> registerNodeNetwork env' a lb1 nns s1 = ((Some nets1, False, None), s1)"
proof -
  obtain mine where mine: "getCurrentNodeIfaceIPs (ie_ifaces env) (iv_nodeName (fst s)) nns = Inr mine"
    using assms(1) by (auto simp: registerNodeNetwork_def split: sum.splits)
  then have name: "st_Name mine = iv_nodeName (fst s)"
    by (auto simp: getCurrentNodeIfaceIPs_def split: option.splits)
  let ?new = "published (iv_nodeName (fst s)) mine (lb_NodeStatuses lb) (ns_Names (lb_Nodes lb))"
  let ?lb1 = "lb\<lparr>lb_NodeStatuses := Some ?new\<rparr>"
  have s1: "iv_nodeName (fst s1) = iv_nodeName (fst s)" "hp_obj (snd s1) a = Some ?lb1"
    using assms(1) mine myNodeStatuses_fst [OF assms(2), of mine]
    by (auto simp: registerNodeNetwork_def Let_def split: prod.splits if_splits)
  have "fst (myNodeStatuses (iv_nodeName (fst s)) mine ?lb1) = Some ?new"
    using myNodeStatuses_fst [of "iv_nodeName (fst s)" ?lb1 mine] assms(2) published_idem [OF name] by simp
  then have "\<exists>nets1. registerNodeNetwork env' a ?lb1 nns s1 = ((Some nets1, False, None), s1)"
    using mine s1(1) assms(3) by (auto simp: registerNodeNetwork_def split: prod.split)
  then show ?thesis using s1(2) by (intro exI [of _ ?lb1]) simp
qed

lemma apply_keeps_updates:
  "iv_updates (fst (snd (apply_update env nodes a lb ipvs sels nets c1 c2 tcps udps s))) = iv_updates (fst s)"
  using apply_update_frame [of env nodes a lb ipvs sels nets c1 c2 tcps udps s]
  by (cases "apply_update env nodes a lb ipvs sels nets c1 c2 tcps udps s") auto

lemma OnUpdate_registered:
  assumes "hp_obj (snd s) a = Some lb"
    and "\<And>nns sels. getNodeNetSelector (sl_Node L) (iv_nodeName (fst s))
           (getAllBinds (the (ps_Ipvsdr (lb_Providers lb)))) [] = (Inr nns, sels) \<Longrightarrow>
           \<exists>nets. registerNodeNetwork env a lb nns s = ((Some nets, False, None), s)"
  shows "iv_updates (fst (snd (ipvsdr_OnUpdate env L a s))) = iv_updates (fst s)"
proof -
  obtain q sels where sel: "getNodeNetSelector (sl_Node L) (iv_nodeName (fst s))
      (getAllBinds (the (ps_Ipvsdr (lb_Providers lb)))) [] = (q, sels)" by fastforce
  show ?thesis
  proof (cases q)
    case (Inl e)
    then show ?thesis using assms(1) sel
      by (simp add: ipvsdr_OnUpdate_def Let_def split: option.split sum.split prod.split)
  next
    case (Inr nns)
    then obtain nets where "registerNodeNetwork env a lb nns s = ((Some nets, False, None), s)"
      using assms(2) sel by blast
    then show ?thesis using assms(1) sel Inr
      by (simp add: ipvsdr_OnUpdate_def Let_def apply_keeps_updates split: option.split sum.split prod.split)
  qed
qed

lemma OnUpdate_sent:
  assumes "hp_obj (snd s) a = Some lb" "ipvsdr_OnUpdate env L a s = (r, s1)" "iv_updates (fst s1) \<noteq> iv_updates (fst s)"
  shows "\<exists>nns sels nets e. ipvsdr_validate (iv_nodeName (fst s)) lb = None
    \<and> getNodeNetSelector (sl_Node L) (iv_nodeName (fst s)) (getAllBinds (the (ps_Ipvsdr (lb_Providers lb)))) [] = (Inr nns, sels)
    \<and> registerNodeNetwork env a lb nns s = ((nets, True, e), s1)"
proof -
  have valid: "ipvsdr_validate (iv_nodeName (fst s)) lb = None"
    using assms by (cases "ipvsdr_validate (iv_nodeName (fst s)) lb") (auto simp: ipvsdr_OnUpdate_def)
  then have me: "iv_nodeName (fst s) \<in> set (ns_Names (lb_Nodes lb))"
    by (auto simp: ipvsdr_validate_def split: if_splits)
  obtain q sels where sel: "getNodeNetSelector (sl_Node L) (iv_nodeName (fst s))
      (getAllBinds (the (ps_Ipvsdr (lb_Providers lb)))) [] = (q, sels)" by fastforce
  show ?thesis
  proof (cases q)
    case (Inl e)
    then have "s1 = s" using assms(1,2) sel valid
      by (auto simp: ipvsdr_OnUpdate_def Let_def split: sum.splits prod.splits if_splits)
    then show ?thesis using assms(3) by simp
  next
    case (Inr nns)
    obtain nets updated e s2 where reg: "registerNodeNetwork env a lb nns s = ((nets, updated, e), s2)"
      by (metis prod_cases3 surj_pair)
    show ?thesis
    proof (cases updated)
      case True
      have "s1 = s2 \<or> s1 = s"
        using assms(1,2) sel valid Inr reg True
        by (auto simp: ipvsdr_OnUpdate_def Let_def split: sum.splits prod.splits if_splits)
      then have "s1 = s2" using assms(3) by blast
      then show ?thesis using valid sel Inr reg True by simp
    next
      case False
      then have "s2 = s" "e = None \<longleftrightarrow> nets \<noteq> None" using register_cases [OF reg me] by auto
      then have "iv_updates (fst s1) = iv_updates (fst s)"
        using assms(1,2) sel valid Inr reg False
        by (auto simp: ipvsdr_OnUpdate_def Let_def dest!: apply_update_frame
            split: sum.splits prod.splits if_splits option.splits)
      then show ?thesis using assms(3) by simp
    qed
  qed
qed

section \<open>From Start to Stop\<close>

text \<open>What holds while the provider runs: tables but for its chains, old settings, the daemon.\<close>

definition running ::
  "(protocol \<Rightarrow> 'w \<Rightarrow> tables) \<Rightarrow> (protocol \<Rightarrow> tables) \<Rightarrow> host \<Rightarrow> gomap \<Rightarrow> daemon \<Rightarrow> 'w ipvsdr bstate \<Rightarrow> bool" where
  "running view T h orig d s \<longleftrightarrow>
     (\<exists>V. \<forall>p. view p (iv_world (fst s)) = with_chains (T p) (fst (V p)) (snd (V p)))
     \<and> iv_host (fst s) = h \<and> iv_sysctlDefault (fst s) = orig
     \<and> ks_cmd (iv_keepalived (fst s)) = Some d"

lemma OnUpdate_none: "hp_obj (snd s) a = None \<Longrightarrow> snd (ipvsdr_OnUpdate env L a s) = s"
  by (simp add: ipvsdr_OnUpdate_def)

lemma apply_running:
  assumes api: "iptables_api (ie_ipt env) view same" and run: "running view T h orig d s"
    and ap: "apply_update env nodes a lb ipvs sels nets c1 c2 tcps udps s = (r, s')"
  shows "running view T h orig d s'"
proof -
  obtain q sels1 where sels: "all_selectors_of nodes (getAllBinds ipvs) (ns_Names (lb_Nodes lb)) sels = (q, sels1)"
    by fastforce
  have world: "\<exists>V. \<forall>p. view p (iv_world (fst s')) = with_chains (T p) (fst (V p)) (snd (V p))"
  proof (cases "iv_world (fst s') = iv_world (fst s)")
    case True
    then show ?thesis using run by (simp add: running_def)
  next
    case False
    then have "\<exists>r w. onUpdateIPtables (ie_ipt env) (iv_nodeName (fst s)) (ns_Names (lb_Nodes lb)) ipvs sels1 nets tcps udps
        (iv_world (fst s)) = (r, w) \<and> iv_world (fst s') = w"
      using ap sels
      by (auto simp: apply_update_def seqE_def dest!: on_world_frame on_keepalived_frame
          split: sum.splits prod.splits if_splits)
    moreover obtain V where "\<forall>p. view p (iv_world (fst s)) = with_chains (T p) (fst (V p)) (snd (V p))"
      using run by (auto simp: running_def)
    ultimately show ?thesis
      using iptables_api.onUpdate_with_chains [OF api, of "iv_world (fst s)" T V]
      unfolding iptables_api.views_def [OF api] by blast
  qed
  show ?thesis using world apply_update_frame [OF ap] run by (simp add: running_def iv_frame_def)
qed

lemma OnUpdate_running:
  assumes "iptables_api (ie_ipt env) view same" "running view T h orig d s"
  shows "running view T h orig d (snd (ipvsdr_OnUpdate env L a s))"
proof (cases "hp_obj (snd s) a")
  case None
  then show ?thesis using OnUpdate_none [OF None] assms(2) by simp
next
  case (Some lb)
  obtain r s' where run: "ipvsdr_OnUpdate env L a s = (r, s')" by (cases "ipvsdr_OnUpdate env L a s") blast
  from OnUpdate_cases [OF run Some] have "running view T h orig d s'"
  proof (elim disjE exE conjE)
    assume "publishes env a lb s s'"
    then show ?thesis using assms(2) by (auto simp: publishes_def running_def)
  qed (use assms apply_running in \<open>simp, blast\<close>)
  then show ?thesis using run by simp
qed

text \<open>While the controller works and the daemon lives its own life, the provider is serving.\<close>

definition serving ::
  "(protocol \<Rightarrow> 'w \<Rightarrow> tables) \<Rightarrow> (protocol \<Rightarrow> tables) \<Rightarrow> host \<Rightarrow> gomap \<Rightarrow> 'w ipvsdr bstate \<Rightarrow> bool" where
  "serving view T h orig s \<longleftrightarrow> (\<exists>d. running view T h orig d s \<and> in_service d)"

text \<open>The daemon's part of the background of the process.\<close>

inductive ipvsdr_own :: "'w ipvsdr \<Rightarrow> 'w ipvsdr \<Rightarrow> bool" where
  keepalived_own: "ks_cmd (iv_keepalived p) = Some d \<Longrightarrow> d_background d d' \<Longrightarrow>
     ipvsdr_own p (p\<lparr>iv_keepalived := (iv_keepalived p)\<lparr>ks_cmd := Some d'\<rparr>\<rparr>)"

lemma serving_own: "ipvsdr_own p p' \<Longrightarrow> serving view T h orig (p, hp) \<Longrightarrow> serving view T h orig (p', hp)"
  by (induction rule: ipvsdr_own.induct) (auto simp: serving_def running_def intro: in_service_background)

lemma serving_worker:
  assumes "\<forall>n. iptables_api (ie_ipt (env n)) view same"
  shows "provider_worker (ipvsdr_backend env) (serving view T h orig)"
proof unfold_locales
  fix s :: "'a ipvsdr bstate" and L a
  assume "serving view T h orig s"
  then obtain d where d: "running view T h orig d s" "in_service d" by (auto simp: serving_def)
  let ?s = "((fst s)\<lparr>iv_calls := Suc (iv_calls (fst s))\<rparr>, snd s)"
  have "running view T h orig d ?s" using d(1) by (simp add: running_def)
  from OnUpdate_running [OF assms [rule_format, of "iv_calls (fst s)"] this, of L a] d(2)
  show "serving view T h orig (snd (be_OnUpdate (ipvsdr_backend env) L a s))"
    by (auto simp: serving_def ipvsdr_backend_def with_call_def)
qed (simp add: serving_def running_def)

text \<open>In particular over the documented iptables command.\<close>

interpretation ref_serving:
  provider_worker "ipvsdr_backend (\<lambda>n. (env n)\<lparr>ie_ipt := newRunner reference_exec\<rparr>)"
    "serving (\<lambda>p w. w p) T h orig"
  for env :: "nat \<Rightarrow> table_pair ipvsdr_env" and T h orig
  by (rule serving_worker [where same = "(=)"]) (simp add: iptables_tool.runner_api [OF ref_tool.iptables_tool_axioms])

lemma adjustment_paths:
  "sysctlPath ''net.ipv4.ip_nonlocal_bind'' = ''/proc/sys/net/ipv4/ip_nonlocal_bind''"
  "sysctlPath ''net.ipv4.vs.conntrack'' = ''/proc/sys/net/ipv4/vs/conntrack''"
  "sysctlPath ''net.ipv4.conf.all.arp_ignore'' = ''/proc/sys/net/ipv4/conf/all/arp_ignore''"
  "sysctlPath ''net.ipv4.conf.all.arp_announce'' = ''/proc/sys/net/ipv4/conf/all/arp_announce''"
  "sysctlPath ''net.ipv4.conf.lo.arp_ignore'' = ''/proc/sys/net/ipv4/conf/lo/arp_ignore''"
  "sysctlPath ''net.ipv4.conf.lo.arp_announce'' = ''/proc/sys/net/ipv4/conf/lo/arp_announce''"
  by (simp_all add: sysctl_eval)

lemma adjustments_distinct: "distinct (map (\<lambda>p. sysctlPath (fst p)) sysctlAdjustments)"
  by (simp add: sysctlAdjustments_def adjustment_paths)

text \<open>The settings after \<open>changeSysctl\<close> and \<open>resetSysctl\<close> are the ones before.\<close>

lemma sysctl_start_stop:
  assumes ready: "\<forall>k \<in> fst ` set sysctlAdjustments. sysctl_ready h (sysctlPath k)"
  shows "\<exists>orig h1 h2 o2. BulkModify sysctlAdjustments h = ((orig, None), h1) \<and> BulkModify orig h1 = ((o2, None), h2)
    \<and> (\<forall>k. GetSysctl h2 k = GetSysctl h k)"
proof -
  obtain orig h1 where 1: "BulkModify sysctlAdjustments h = ((orig, None), h1)"
    unfolding BulkModify_def using proc.bulk_ready [of sysctlAdjustments h "[]"] ready by blast
  have keys: "fst ` set orig \<subseteq> fst ` set sysctlAdjustments"
  proof
    fix k assume "k \<in> fst ` set orig"
    then obtain v where "map_of orig k = Some v" by (metis map_of_eq_None_iff not_None_eq)
    then show "k \<in> fst ` set sysctlAdjustments"
      using proc.bulk_orig [OF 1 [unfolded BulkModify_def] adjustments_distinct,
          THEN conjunct2, THEN conjunct1] by simp
  qed
  have "sysctl_ready h1 (sysctlPath k)" if "k \<in> fst ` set orig" for k
    using proc.bulk_keeps_ready [OF 1 [unfolded BulkModify_def]] ready keys that by blast
  then obtain o2 h2 where 2: "BulkModify orig h1 = ((o2, None), h2)"
    unfolding BulkModify_def using proc.bulk_ready [of orig h1 "[]"] by blast
  have "GetSysctl h2 k = GetSysctl h k" for k
    using proc.bulk_restore [OF 1 [unfolded BulkModify_def] adjustments_distinct refl 2 [unfolded BulkModify_def]] .
  with 1 2 show ?thesis by blast
qed

lemma Start_running:
  assumes tool: "iptables_tool exec view same" and fresh: "\<And>p. fresh_tables same (view p w)"
    and ready: "\<forall>k \<in> fst ` set sysctlAdjustments. sysctl_ready h (sysctlPath k)"
    and env: "ie_ipt env = newRunner exec" "ie_lookPath env ''keepalived'' = Inr path" "ie_startOk env"
    and s: "iv_world (fst s) = w" "iv_host (fst s) = h"
  shows "\<exists>s1 orig h1 d. ipvsdr_Start env s = (Inr (), s1)
    \<and> running view (\<lambda>p. view p w) h1 orig d s1 \<and> in_service d \<and> IsRunning d
    \<and> BulkModify sysctlAdjustments h = ((orig, None), h1)"
proof -
  have api: "iptables_api (newRunner exec) view same" using tool by (rule iptables_tool.runner_api)
  obtain orig h1 where 1: "BulkModify sysctlAdjustments h = ((orig, None), h1)"
    using sysctl_start_stop [OF ready] by blast
  obtain w1 where 2: "ensureChain (newRunner exec) w = (Inr (), w1)" "\<forall>p. view p w1 = with_chains (view p w) [] []"
    using iptables_api.ensureChain_ok [OF api fresh] by blast
  obtain d where d: "RunForever True (keepalived_daemon (ie_lookPath env)) = (Inr (), d)" "in_service d" "IsRunning d"
    using RunForever_in_service [of "keepalived_daemon (ie_lookPath env)"] env(2)
    by (auto simp: keepalived_lookPath)
  let ?p = "(fst s)\<lparr>iv_sysctlDefault := orig, iv_host := h1, iv_world := w1,
      iv_keepalived := (iv_keepalived (fst s))\<lparr>ks_cmd := Some d\<rparr>\<rparr>"
  have "ipvsdr_Start env s = (Inr (), (?p, snd s))"
    using 1 2(1) env s d(1)
    by (simp add: ipvsdr_Start_def changeSysctl_def on_world_def on_keepalived_def keepalived_run_def seqE_def)
  moreover have "running view (\<lambda>p. view p w) h1 orig d (?p, snd s)"
    using 2(2) by (simp add: running_def) (rule exI [of _ "\<lambda>_. ([], [])"], simp)
  ultimately show ?thesis using 1 d(2,3) by blast
qed

text \<open>
  Stopping a provider that serves restores the tables and the settings and leaves no process; it
  panics when the last restart of keepalived had failed.
\<close>

lemma Stop_serving:
  assumes tool: "iptables_tool exec view same" and fresh: "\<And>p. fresh_tables same (T p)"
    and reset: "BulkModify orig h1 = ((o2, None), h2)" and env: "ie_ipt env = newRunner exec"
    and s: "serving view T h1 orig s"
  shows "\<exists>r s'. ipvsdr_Stop env s = (r, s') \<and> (\<forall>p. view p (iv_world (fst s')) = T p) \<and> iv_host (fst s') = h2
    \<and> (\<exists>d'. ks_cmd (iv_keepalived (fst s')) = Some d' \<and> os_live d' = [])
    \<and> (r = Inr () \<or> r = Inl (Panic (NilDereference ''c.cmd.Process''))
         \<and> (\<exists>d. ks_cmd (iv_keepalived (fst s)) = Some d \<and> d_cmd d = Some None))"
proof -
  have api: "iptables_api (newRunner exec) view same" using tool by (rule iptables_tool.runner_api)
  obtain d where run: "running view T h1 orig d s" and d: "in_service d" using s by (auto simp: serving_def)
  obtain V where V: "\<And>p. view p (iv_world (fst s)) = with_chains (T p) (fst (V p)) (snd (V p))"
    using run by (auto simp: running_def)
  obtain w3 where w3: "deleteChain (newRunner exec) (iv_world (fst s)) = (Inr (), w3)" "\<forall>p. view p w3 = T p"
    using iptables_api.deleteChain_ok [OF api, where T = T and w = "iv_world (fst s)" and V = V, OF fresh] V
    unfolding iptables_api.views_def [OF api] by blast
  obtain d' where d': "ignoreE (d_Stop (ie_termEnds env)) d =
      (if d_cmd d = Some None then Inl (Panic (NilDereference ''c.cmd.Process'')) else Inr (), d')" "os_live d' = []"
    using in_service_stop [OF d] by blast
  have kd: "iv_host (fst s) = h1" "iv_sysctlDefault (fst s) = orig" "ks_cmd (iv_keepalived (fst s)) = Some d"
    using run by (simp_all add: running_def)
  show ?thesis
    using reset w3 d' kd env
    by (simp add: ipvsdr_Stop_def resetSysctl_def on_world_def on_keepalived_def keepalived_Stop_def seqE_def)
qed

section \<open>An example\<close>

text \<open>
  One node with one interface, an active-passive load balancer on it, an API server that answers
  \<open>up\<close>, and the documented iptables command.
\<close>

definition ex_env :: "go_error option \<Rightarrow> table_pair ipvsdr_env" where
  "ex_env up = \<lparr> ie_ipt = newRunner reference_exec, ie_keepalived = example_env,
     ie_ifaces = Some [\<lparr> hi_Name = ''eth0'', hi_Mac = ''02:00'', hi_Loopback = False, hi_PointToPoint = False,
       hi_Addrs = Some [Some \<lparr> net_IP = [10, 0, 0, 1], net_Mask = [255, 255, 255, 0] \<rparr>] \<rparr>],
     ie_Update = (\<lambda>_. up), ie_lookPath = Inr, ie_startOk = True, ie_termEnds = True \<rparr>"

definition ex_lister :: store_lister where
  "ex_lister = empty_lister\<lparr>sl_Node := (\<lambda>n. if n = ''n1''
     then Found \<lparr> kn_Name = ''n1'', kn_Labels = [], kn_Annotations = [], kn_Addresses = [(NodeInternalIP, ''10.0.0.1'')] \<rparr>
     else Missing)\<rparr>"

definition ex_heap :: "node_statuses \<Rightarrow> lb_heap" where
  "ex_heap st = snd (heap_alloc (example_lb\<lparr>lb_NodeStatuses := st\<rparr>) empty_heap)"

definition ex_host :: host where
  "ex_host = \<lparr> h_goos = ''linux'', h_files = (\<lambda>_. Some \<lparr> pf_content = ''0'', pf_writable = True \<rparr>) \<rparr>"

definition ex_provider :: "table_pair ipvsdr" where
  "ex_provider = (NewIpvsdrProvider ''n1'' example_tables ex_host)\<lparr>iv_keepalived := example_keepalived\<rparr>"

lemma ex_heap_obj: "hp_obj (ex_heap st) 0 = Some (example_lb\<lparr>lb_NodeStatuses := st\<rparr>)"
  by (simp add: ex_heap_def heap_alloc_def empty_heap_def)

lemma ex_node_name: "iv_nodeName ex_provider = ''n1''" "iv_cache_lb ex_provider = None"
    "iv_cache_tcps ex_provider = None" "iv_updates ex_provider = []"
  by (simp_all add: ex_provider_def NewIpvsdrProvider_def)

lemma ex_validate: "ipvsdr_validate ''n1'' (example_lb\<lparr>lb_NodeStatuses := st\<rparr>) = None"
proof -
  have "validate_ipvsdr example_ap = None"
    using example_version(4) by (simp add: validate_ipvsdr_None example_ap_def ipvs_schedulers_def)
  then have "validateLoadBalancer (example_lb\<lparr>lb_NodeStatuses := st\<rparr>) = None"
    by (simp add: validateLoadBalancer_def validateProviders_def first_error_def validateProxy_def
        proxy_types_def example_lb_def)
  then show ?thesis by (simp add: ipvsdr_validate_def) (simp add: example_lb_def)
qed

lemma ex_binds: "getAllBinds example_ap = []"
  "ps_Ipvsdr (lb_Providers example_lb) = Some example_ap"
  by (simp_all add: example_lb_def getAllBinds_def example_ap_def example_kl_def)

lemma ex_selector: "getNodeNetSelector (sl_Node ex_lister) ''n1'' [] [] = (Inr example_selector, [(''n1'', example_selector)])"
proof -
  have ip: "parseIP ''10.0.0.1'' = Some (v4_prefix @ [10, 0, 0, 1])" by (simp add: ip_eval)
  have str: "ip_string (v4_prefix @ [10, 0, 0, 1]) = ''10.0.0.1''" by (simp add: ip_string_eval)
  show ?thesis
    by (simp add: getNodeNetSelector_def ex_lister_def empty_lister_def new_selector_def getK8sNodeIP_def
        ip str Let_def example_selector_def)
qed

lemma ex_status: "getCurrentNodeIfaceIPs (ie_ifaces (ex_env up)) ''n1'' example_selector = Inr example_status"
proof -
  have str: "ip_string [10, 0, 0, 1] = ''10.0.0.1''" by (simp add: ip_string_eval)
  have "usable_addr (Some \<lparr> net_IP = [10, 0, 0, 1], net_Mask = [255, 255, 255, 0] \<rparr>)"
    by (simp add: usable_addr_def is_global_unicast_def ip_to4_def isMaskAllFF_def)
  then show ?thesis
    by (simp add: getCurrentNodeIfaceIPs_def ex_env_def selectIface_eq usable_ips_def wants_def str
        example_selector_def example_status_def example_iface_def slice_append_def)
qed

lemma ex_names: "ns_Names (lb_Nodes example_lb) = [''n1'']"
  by (simp add: example_lb_def)

lemma ex_config_maps: "sl_ConfigMap ex_lister x y = Missing"
  by (simp add: ex_lister_def empty_lister_def)

lemma ex_published: "published ''n1'' example_status st [''n1''] = [example_status]"
  by (simp add: published_def List.map_filter_simps status_for_def)

lemma ex_register:
  "registerNodeNetwork (ex_env up) 0 (example_lb\<lparr>lb_NodeStatuses := None\<rparr>) example_selector (ex_provider, ex_heap None) =
     ((None, True, up), (ex_provider\<lparr>iv_updates := [example_lb\<lparr>lb_NodeStatuses := Some [example_status]\<rparr>]\<rparr>,
        heap_write 0 (example_lb\<lparr>lb_NodeStatuses := Some [example_status]\<rparr>) (ex_heap None)))"
proof -
  have "fst (myNodeStatuses ''n1'' example_status (example_lb\<lparr>lb_NodeStatuses := None\<rparr>)) = Some [example_status]"
    using myNodeStatuses_fst [of "''n1''" "example_lb\<lparr>lb_NodeStatuses := None\<rparr>" example_status]
    by (simp add: ex_names ex_published)
  then show ?thesis
    using ex_status [of up]
    by (cases "myNodeStatuses ''n1'' example_status (example_lb\<lparr>lb_NodeStatuses := None\<rparr>)")
       (simp add: registerNodeNetwork_def ex_node_name Let_def, simp add: ex_env_def)
qed

lemma ex_publish:
  "ipvsdr_OnUpdate (ex_env (Some (KubeOther ''refused''))) ex_lister 0 (ex_provider, ex_heap None) =
     (Inl (KubeOther ''refused''),
      (ex_provider\<lparr>iv_updates := [example_lb\<lparr>lb_NodeStatuses := Some [example_status]\<rparr>]\<rparr>,
       heap_write 0 (example_lb\<lparr>lb_NodeStatuses := Some [example_status]\<rparr>) (ex_heap None)))"
  by (simp add: ipvsdr_OnUpdate_def ex_heap_obj ex_node_name ex_validate ex_binds ex_selector ex_register
      cached_lb_def isLBChanged_def Let_def isListenPortChanged_def found_config_map_def
      ex_config_maps split: prod.split)

lemma ex_apply:
  "\<exists>s1. ipvsdr_OnUpdate (ex_env None) ex_lister 0 (ex_provider, ex_heap (Some [example_status])) = (Inr (), s1)
     \<and> iv_cache_lb (fst s1) = Some 0"
proof -
  let ?lb = "example_lb\<lparr>lb_NodeStatuses := Some [example_status]\<rparr>"
  let ?s = "(ex_provider, ex_heap (Some [example_status]))"
  have lb: "?lb = example_lb" by (simp add: example_lb_def)
  have "fst (myNodeStatuses ''n1'' example_status ?lb) = Some [example_status]"
    using myNodeStatuses_fst [of "''n1''" ?lb example_status] by (simp add: ex_names ex_published)
  moreover have "snd (myNodeStatuses ''n1'' example_status ?lb) = [(''n1'', example_status)]"
    by (simp add: myNodeStatuses_def ex_names)
  ultimately have "myNodeStatuses ''n1'' example_status ?lb = (Some [example_status], [(''n1'', example_status)])"
    by (cases "myNodeStatuses ''n1'' example_status ?lb") simp
  then have reg: "registerNodeNetwork (ex_env None) 0 ?lb example_selector ?s =
      ((Some [(''n1'', example_status)], False, None), ?s)"
    using ex_status [of None] by (simp add: registerNodeNetwork_def ex_node_name)
  have ips: "getIPs ''n1'' [''n1''] [(''n1'', example_selector)] [(''n1'', example_status)] (kp_Bind example_ap) None [] =
      Inr (Some \<lparr> fp_Net = example_iface, fp_preferredIP = ''10.0.0.1'' \<rparr>,
           [\<lparr> fp_Net = example_iface, fp_preferredIP = ''10.0.0.1'' \<rparr>])"
    using example_getIPs by (simp add: example_ipvs_def example_ap_def)
  have "holds_chains (\<lambda>p. example_tables p) (\<lambda>_. ([], []))"
    by (simp add: holds_chains_def example_tables_def own_chain_def)
  then have tables: "\<exists>x w. onUpdateIPtables (newRunner reference_exec) ''n1'' [''n1''] example_ap
      [(''n1'', example_selector)] [(''n1'', example_status)] tcps udps example_tables = (Inr x, w)" for tcps udps
    using ref_tool.refinesD [OF ref_tool.refines_onUpdate [OF ips], of example_tables "\<lambda>_. ([], [])" tcps udps]
    by blast
  obtain k where k: "onUpdateKeepalived example_env ''n1'' ?lb example_ap [(''n1'', example_selector)]
      [(''n1'', example_status)] example_keepalived = (Inr (), k)"
    using example_update [of None] by (auto simp: example_env_def lb)
  have sels: "all_selectors_of (sl_Node ex_lister) [] [''n1''] [(''n1'', example_selector)] =
      (Inr (), [(''n1'', example_selector)])"
    by (simp add: all_selectors_of_def seqE_def getNodeNetSelector_def)
  have fields: "iv_world ex_provider = example_tables" "iv_keepalived ex_provider = example_keepalived"
      "ie_ipt (ex_env None) = newRunner reference_exec" "ie_keepalived (ex_env None) = example_env"
    by (simp_all add: ex_provider_def NewIpvsdrProvider_def ex_env_def)
  have "\<exists>s1. apply_update (ex_env None) (sl_Node ex_lister) 0 ?lb example_ap [(''n1'', example_selector)]
      [(''n1'', example_status)] True True tcps udps ?s = (Inr (), s1) \<and> iv_cache_lb (fst s1) = Some 0" for tcps udps
  proof -
    obtain w where "onUpdateIPtables (newRunner reference_exec) ''n1'' [''n1''] example_ap
        [(''n1'', example_selector)] [(''n1'', example_status)] tcps udps example_tables = (Inr (), w)"
      using tables [of tcps udps] by auto
    then show ?thesis
      by (simp add: apply_update_def ex_binds ex_names sels on_world_def on_keepalived_def fields k
          ex_node_name seqE_def)
  qed
  then show ?thesis
    by (simp add: ipvsdr_OnUpdate_def ex_heap_obj ex_node_name ex_validate ex_binds ex_selector reg
        cached_lb_def isLBChanged_def Let_def isListenPortChanged_def found_config_map_def
        ex_config_maps split: prod.split)
qed

definition ex_new :: "table_pair ipvsdr" where
  "ex_new = NewIpvsdrProvider ''n1''
     (\<lambda>_ k. if k \<in> {(tableMangle, ChainPrerouting), (tableFilter, ChainOutput)} then Some [] else None) ex_host"

definition ex_controller :: "table_pair ipvsdr ctl" where
  "ex_controller = NewLoadBalancerProvider \<lparr> cfg_LoadBalancerName = ''lb'', cfg_LoadBalancerNamespace = ''ns'',
     cfg_TCPConfigMap = [], cfg_UDPConfigMap = [] \<rparr> ex_lister (ex_heap None) ex_new"

lemma ex_fresh: "fresh_tables (=) (iv_world ex_new p)"
  by (auto simp: ex_new_def NewIpvsdrProvider_def fresh_tables_def has_rule_def referenced_def split: if_splits)

lemma ex_ready: "sysctl_ready (iv_host ex_new) k"
  by (simp add: sysctl_ready_def ex_new_def NewIpvsdrProvider_def ex_host_def)

lemma ex_env_fields:
  "ie_ipt (ex_env u) = newRunner reference_exec" "ie_lookPath (ex_env u) x = Inr x" "ie_startOk (ex_env u)"
  by (simp_all add: ex_env_def)

lemma ex_start:
  "\<exists>s1 d. ipvsdr_Start (ex_env None) (ex_new\<lparr>iv_calls := n\<rparr>, ex_heap None) = (Inr (), s1)
     \<and> ks_cmd (iv_keepalived (fst s1)) = Some d \<and> in_service d \<and> IsRunning d"
  using Start_running [OF ref_tool.iptables_tool_axioms, of "iv_world ex_new", OF ex_fresh _ ex_env_fields,
      of "iv_host ex_new" "(ex_new\<lparr>iv_calls := n\<rparr>, ex_heap None)"]
  by (fastforce simp: running_def ex_ready)

section \<open>Properties\<close>







text \<open>
  C19: when every interface of the node has an address, one publication is enough: the resource read
  back from the API server needs no second one, and the networks of the nodes are returned.
\<close>

theorem publish_converges:
  assumes "registerNodeNetwork env a lb nns s = ((nets, True, None), s1)"
    and "hp_obj (snd s1) a = Some lb1"
    and "lb_NodeStatuses lb2 = json_node_statuses (lb_NodeStatuses lb1)" "lb_Nodes lb2 = lb_Nodes lb"
    and "getCurrentNodeIfaceIPs (ie_ifaces env) (iv_nodeName (fst s)) nns = Inr mine"
    and "st_IfaceNetList mine \<noteq> Some []" "\<forall>i \<in> set (elems (st_IfaceNetList mine)). elems (if_IPs i) \<noteq> []"
    and "iv_nodeName (fst s) \<in> set (ns_Names (lb_Nodes lb))"
  shows "\<exists>nets2. registerNodeNetwork env a2 lb2 nns s1 = ((Some nets2, False, None), s1)"
proof -
  let ?me = "iv_nodeName (fst s)"
  let ?new = "published ?me mine (lb_NodeStatuses lb) (ns_Names (lb_Nodes lb))"
  have name: "st_Name mine = ?me" using assms(5) by (auto simp: getCurrentNodeIfaceIPs_def split: option.splits)
  have s1: "iv_nodeName (fst s1) = ?me" "lb_NodeStatuses lb1 = Some ?new"
    using assms(1,2,5) myNodeStatuses_fst [OF assms(8), of mine]
    by (auto simp: registerNodeNetwork_def Let_def split: prod.splits if_splits)
  have "?new \<noteq> []" using published_not_Nil [OF assms(8)] .
  then have lb2: "lb_NodeStatuses lb2 = Some (map json_node_status ?new)"
    using assms(3) s1(2) by (simp add: json_node_statuses_def json_omitempty_def)
  have "fst (myNodeStatuses ?me mine lb2) = lb_NodeStatuses lb2"
    using myNodeStatuses_fst [of ?me lb2 mine] assms(4,8) lb2
      published_json [OF name json_node_status_id [OF assms(6,7)]] by simp
  then show ?thesis using assms(5) s1(1)
    by (cases "myNodeStatuses ?me mine lb2") (simp add: registerNodeNetwork_def)
qed

lemma publish_converges_witness:
  "\<exists>nets2 s1. registerNodeNetwork (ex_env None) 0 example_lb example_selector s1 = ((Some nets2, False, None), s1)
     \<and> length (iv_updates (fst s1)) = 1"
proof -
  let ?s1 = "(ex_provider\<lparr>iv_updates := [example_lb\<lparr>lb_NodeStatuses := Some [example_status]\<rparr>]\<rparr>,
        heap_write 0 (example_lb\<lparr>lb_NodeStatuses := Some [example_status]\<rparr>) (ex_heap None))"
  have json: "json_node_statuses (Some [example_status]) = Some [example_status]"
    by (simp add: json_node_statuses_def json_omitempty_def json_node_status_def json_iface_def
        example_status_def example_iface_def)
  have "\<exists>nets2. registerNodeNetwork (ex_env None) 0 example_lb example_selector ?s1 = ((Some nets2, False, None), ?s1)"
    by (rule publish_converges [OF ex_register [of None], where mine = example_status])
       (use ex_status [of None] json in \<open>simp_all add: ex_node_name ex_names\<close>,
        simp_all add: example_lb_def example_status_def example_iface_def)
  then obtain nets2 where
    "registerNodeNetwork (ex_env None) 0 example_lb example_selector ?s1 = ((Some nets2, False, None), ?s1)" by blast
  moreover have "length (iv_updates (fst ?s1)) = 1" by simp
  ultimately show ?thesis by blast
qed

text \<open>
  C22: \<open>OnUpdate\<close> remembers a resource only after it was applied without an error: when it returns an
  error, the cached resource and ports are the old ones, so the retry sees the change again. When
  it did remember, calling it again with the same object and config maps does nothing at all.
\<close>

theorem OnUpdate_cache:
  assumes "hp_obj (snd s) a = Some lb" "ipvsdr_OnUpdate env L a s = (r, s1)"
  shows "(\<forall>e. r = Inl e \<longrightarrow> cache_same (fst s) (fst s1))
    \<and> (\<not> cache_same (fst s) (fst s1) \<longrightarrow> iv_cache_lb (fst s1) = Some a \<and> ipvsdr_OnUpdate env' L a s1 = (Inr (), s1))"
proof -
  have pub: "cache_same (fst s) (fst s1)" if "publishes env a lb s s1"
    using that by (auto simp: publishes_def cache_same_def)
  have "cache_same (fst s) (fst s1) \<or> r = Inr () \<and> iv_cache_lb (fst s1) = Some a
      \<and> ipvsdr_OnUpdate env' L a s1 = (Inr (), s1)"
  proof (cases "s1 = s \<or> publishes env a lb s s1")
    case True
    then show ?thesis using pub by auto
  next
    case False
    then obtain ipvs sels nets c1 c2 tcp udp where v: "ipvsdr_validate (iv_nodeName (fst s)) lb = None"
      and pt: "isListenPortChanged (sl_ConfigMap L) (iv_cache_tcps (fst s)) (iv_cache_udps (fst s)) lb =
          Inr (c2, sort tcp, sort udp)"
      and ap: "apply_update env (sl_Node L) a lb ipvs sels nets c1 c2 (sort tcp) (sort udp) s = (r, s1)"
      using OnUpdate_cases [OF assms(2,1)] by blast
    note f = apply_update_frame [OF ap]
    show ?thesis
    proof (cases r)
      case (Inl e)
      then show ?thesis using f by simp
    next
      case (Inr u)
      have "isListenPortChanged (sl_ConfigMap L) (iv_cache_tcps (fst s1)) (iv_cache_udps (fst s1)) lb =
          Inr (False, elems (iv_cache_tcps (fst s1)), elems (iv_cache_udps (fst s1)))"
        using f Inr pt by (auto simp: isListenPortChanged_def split: sum.splits prod.splits)
      moreover have "\<not> isLBChanged (cached_lb s1) lb"
        using f Inr assms(1) by (simp add: cached_lb_def isLBChanged_def)
      moreover have "hp_obj (snd s1) a = Some lb" "iv_nodeName (fst s1) = iv_nodeName (fst s)"
        using f assms(1) by (simp_all add: iv_frame_def)
      ultimately have "ipvsdr_OnUpdate env' L a s1 = (Inr (), s1)"
        using v by (simp add: ipvsdr_OnUpdate_def Let_def)
      then show ?thesis using f Inr by simp
    qed
  qed
  then show ?thesis by auto
qed

lemma OnUpdate_cache_witness:
  "\<exists>s1. ipvsdr_OnUpdate (ex_env None) ex_lister 0 (ex_provider, ex_heap (Some [example_status])) = (Inr (), s1)
     \<and> iv_cache_lb (fst s1) = Some 0
     \<and> ipvsdr_OnUpdate (ex_env (Some KubeConflict)) ex_lister 0 s1 = (Inr (), s1)"
proof -
  obtain s1 where s1: "ipvsdr_OnUpdate (ex_env None) ex_lister 0 (ex_provider, ex_heap (Some [example_status])) = (Inr (), s1)"
      "iv_cache_lb (fst s1) = Some 0"
    using ex_apply by blast
  have "\<not> cache_same (fst (ex_provider, ex_heap (Some [example_status]))) (fst s1)"
    using s1(2) by (simp add: cache_same_def ex_node_name)
  then have "ipvsdr_OnUpdate (ex_env (Some KubeConflict)) ex_lister 0 s1 = (Inr (), s1)"
    using OnUpdate_cache [OF _ s1(1), of "example_lb\<lparr>lb_NodeStatuses := Some [example_status]\<rparr>"
        "ex_env (Some KubeConflict)"] by (simp add: ex_heap_obj)
  with s1 show ?thesis by blast
qed

end
