(* ===== verification/IngressSidecar.thy ===== *)
theory IngressSidecar
  imports Controller Sysctl
begin

text \<open>
  \<open>providers/ingress/sidecar.go\<close>: the sidecar of the ingress controller. It changes kernel
  settings when it starts and writes the old ones back when it stops; updates of the load balancer
  do nothing.
\<close>

record sidecar =
  sc_sysctlDefault :: gomap
  sc_host :: host

definition sidecar_adjustments :: gomap where
  "sidecar_adjustments =
     [(''net.ipv4.tcp_max_tw_buckets'', ''6000''), (''net.ipv4.tcp_max_syn_backlog'', ''8192''),
      (''net.core.somaxconn'', ''2048''), (''net.core.netdev_max_backlog'', ''262144'')]"

definition NewIngressSidecar :: "host \<Rightarrow> sidecar" where
  "NewIngressSidecar h = \<lparr> sc_sysctlDefault = [], sc_host = h \<rparr>"

definition sidecar_changeSysctl :: "sidecar \<Rightarrow> sysctl_error option \<times> sidecar" where
  "sidecar_changeSysctl p =
     (case BulkModify sidecar_adjustments (sc_host p) of
        ((orig, e), h) \<Rightarrow> (e, p\<lparr>sc_sysctlDefault := orig, sc_host := h\<rparr>))"

definition sidecar_resetSysctl :: "sidecar \<Rightarrow> sysctl_error option \<times> sidecar" where
  "sidecar_resetSysctl p =
     (case BulkModify (sc_sysctlDefault p) (sc_host p) of ((_, e), h) \<Rightarrow> (e, p\<lparr>sc_host := h\<rparr>))"

definition sidecar_OnUpdate :: "store_lister \<Rightarrow> nat \<Rightarrow> (sidecar bstate, go_error, unit) prog" where
  "sidecar_OnUpdate L a s = (Inr (), s)"

definition sidecar_Start :: "(sidecar bstate, go_error, unit) prog" where
  "sidecar_Start s = (Inr (), (snd (sidecar_changeSysctl (fst s)), snd s))"

definition sidecar_WaitForStart :: "sidecar \<Rightarrow> bool" where
  "sidecar_WaitForStart p = True"

definition sidecar_Stop :: "(sidecar bstate, go_error, unit) prog" where
  "sidecar_Stop s = (Inr (), (snd (sidecar_resetSysctl (fst s)), snd s))"

definition sidecar_backend :: "sidecar backend" where
  "sidecar_backend = \<lparr> be_OnUpdate = sidecar_OnUpdate, be_Start = sidecar_Start,
     be_WaitForStart = sidecar_WaitForStart, be_Stop = (\<lambda>_. sidecar_Stop) \<rparr>"

section \<open>The remembered settings\<close>

lemma sidecar_paths:
  "sysctlPath ''net.ipv4.tcp_max_tw_buckets'' = ''/proc/sys/net/ipv4/tcp_max_tw_buckets''"
  "sysctlPath ''net.ipv4.tcp_max_syn_backlog'' = ''/proc/sys/net/ipv4/tcp_max_syn_backlog''"
  "sysctlPath ''net.core.somaxconn'' = ''/proc/sys/net/core/somaxconn''"
  "sysctlPath ''net.core.netdev_max_backlog'' = ''/proc/sys/net/core/netdev_max_backlog''"
  by (simp_all add: sysctl_eval)

lemma sidecar_distinct: "distinct (map (\<lambda>p. sysctlPath (fst p)) sidecar_adjustments)"
  by (simp add: sidecar_adjustments_def sidecar_paths)

text \<open>Only settings of the adjustments are ever remembered, hence ever written back.\<close>

definition sidecar_inv :: "sidecar bstate \<Rightarrow> bool" where
  "sidecar_inv s \<longleftrightarrow> fst ` set (sc_sysctlDefault (fst s)) \<subseteq> fst ` set sidecar_adjustments"

lemma change_keys:
  assumes "BulkModify sidecar_adjustments h = ((orig, e), h1)"
  shows "fst ` set orig \<subseteq> fst ` set sidecar_adjustments"
proof
  fix k assume "k \<in> fst ` set orig"
  then obtain v where "map_of orig k = Some v" by (metis map_of_eq_None_iff not_None_eq)
  then show "k \<in> fst ` set sidecar_adjustments"
    using proc.bulk_orig [OF assms [unfolded BulkModify_def] sidecar_distinct, THEN conjunct2, THEN conjunct1]
    by simp
qed

interpretation sidecar_driver: provider_backend sidecar_backend sidecar_inv
proof unfold_locales
  show "sidecar_inv (snd (be_Start sidecar_backend s))" if "sidecar_inv s" for s
    using change_keys
    by (auto simp: sidecar_backend_def sidecar_Start_def sidecar_changeSysctl_def sidecar_inv_def
        split: prod.split)
  show "sidecar_inv (snd (be_Stop sidecar_backend L s))" if "sidecar_inv s" for s L
    using that
    by (simp add: sidecar_backend_def sidecar_Stop_def sidecar_resetSysctl_def sidecar_inv_def
        split: prod.split)
qed (simp_all add: sidecar_backend_def sidecar_OnUpdate_def sidecar_inv_def)

section \<open>Start and stop\<close>

text \<open>
  When the adjusted settings can be read, a start of the sidecar followed by a stop leaves every
  kernel setting as it was, even when the start gave up in the middle: if the stop reports no
  error, the settings are exactly the old ones. When all adjusted settings are writable, both
  succeed and the adjusted values are in place in between.
\<close>

theorem sidecar_restores_settings:
  assumes "sidecar_changeSysctl (NewIngressSidecar h) = (e1, p1)" "sidecar_resetSysctl p1 = (e2, p2)"
  shows "(e2 = None \<longrightarrow> (\<forall>k. GetSysctl (sc_host p2) k = GetSysctl h k))
    \<and> ((\<forall>k \<in> fst ` set sidecar_adjustments. sysctl_ready h (sysctlPath k)) \<longrightarrow>
         e1 = None \<and> e2 = None
         \<and> (\<forall>(k, v) \<in> set sidecar_adjustments. GetSysctl (sc_host p1) k = Inr (trim_space v)))"
proof -
  obtain orig h1 where 1: "BulkModify sidecar_adjustments h = ((orig, e1), h1)"
      and p1: "sc_sysctlDefault p1 = orig" "sc_host p1 = h1"
    using assms(1) by (auto simp: sidecar_changeSysctl_def NewIngressSidecar_def split: prod.splits)
  obtain o2 h2 where 2: "BulkModify orig h1 = ((o2, e2), h2)" and p2: "sc_host p2 = h2"
    using assms(2) p1 by (auto simp: sidecar_resetSysctl_def split: prod.splits)
  have restore: "GetSysctl h2 k = GetSysctl h k" if "e2 = None" for k
    using proc.bulk_restore [OF 1 [unfolded BulkModify_def] sidecar_distinct refl]
      2 [unfolded BulkModify_def] that by blast
  have ready: "e1 = None \<and> e2 = None
      \<and> (\<forall>(k, v) \<in> set sidecar_adjustments. GetSysctl h1 k = Inr (trim_space v))"
    if r: "\<forall>k \<in> fst ` set sidecar_adjustments. sysctl_ready h (sysctlPath k)"
  proof -
    have e1: "e1 = None"
      using proc.bulk_ready [of sidecar_adjustments h "[]"] r 1 by (auto simp: BulkModify_def)
    have "sysctl_ready h1 (sysctlPath k)" if "k \<in> fst ` set orig" for k
      using proc.bulk_keeps_ready [OF 1 [unfolded BulkModify_def]] change_keys [OF 1] r that by blast
    then have "e2 = None" using proc.bulk_ready [of orig h1 "[]"] 2 by (auto simp: BulkModify_def)
    then show ?thesis
      using e1 proc.bulk_set_all [OF 1 [unfolded BulkModify_def e1] sidecar_distinct] by auto
  qed
  show ?thesis using restore ready p1 p2 by blast
qed

lemma sidecar_restores_settings_witness:
  "\<exists>p1 p2. sidecar_changeSysctl (NewIngressSidecar
       \<lparr> h_goos = ''linux'', h_files = (\<lambda>_. Some \<lparr> pf_content = ''0'', pf_writable = True \<rparr>) \<rparr>) = (None, p1)
     \<and> sidecar_resetSysctl p1 = (None, p2)
     \<and> GetSysctl (sc_host p1) ''net.core.somaxconn'' = Inr (trim_space ''2048'')"
proof -
  let ?h = "\<lparr> h_goos = ''linux'', h_files = (\<lambda>_. Some \<lparr> pf_content = ''0'', pf_writable = True \<rparr>) \<rparr>"
  obtain e1 p1 where 1: "sidecar_changeSysctl (NewIngressSidecar ?h) = (e1, p1)" by fastforce
  obtain e2 p2 where 2: "sidecar_resetSysctl p1 = (e2, p2)" by fastforce
  have "\<forall>k \<in> fst ` set sidecar_adjustments. sysctl_ready ?h (sysctlPath k)" by (simp add: sysctl_ready_def)
  with sidecar_restores_settings [OF 1 2] 1 2 show ?thesis by (fastforce simp: sidecar_adjustments_def)
qed

end
