(* ===== verification/AzureClient.thy ===== *)
theory AzureClient
  imports ObjHeap
begin

text \<open>
  \<open>providers/azure/client\<close>: the Azure resources the provider reads and writes, the client
  interface over them, the wrappers that wait for Azure's long-running operations, and the error
  classification.

  A pointer field is an option and a pointer to a slice is a slice that may be nil. A resource
  carries its properties inline: Azure's answers always have a \<open>properties\<close> object. Only the frontend configurations keep
  the pointer, because the code tests it. Fields that the code neither reads, writes nor compares
  are left out; where it compares a whole nested object (a subnet, a public address) the remaining
  fields are one value, its JSON text. The Azure service is the world \<open>'w\<close> that the calls of the
  SDK act on, and the SDK's calls are parameters.
\<close>

section \<open>Resources\<close>

type_synonym int32 = "32 word"

text \<open>A reference to another resource (\<open>*network.SubResource\<close>), by the \<open>ID\<close> pointer in it.\<close>

type_synonym sub_resource = "string option option"

record az_probe =
  pb_Name :: "string option"
  pb_ID :: "string option"
  pb_Protocol :: string
  pb_Port :: "int32 option"
  pb_IntervalInSeconds :: "int option"
  pb_NumberOfProbes :: "int option"

record az_subnet =
  sn_ID :: "string option"
  sn_Rest :: "string option"

record az_public_ip =
  pi_ID :: "string option"
  pi_Rest :: "string option"

record az_frontend_props =
  fp_PrivateIPAddress :: "string option"
  fp_PrivateIPAllocationMethod :: string
  fp_Subnet :: "az_subnet option"
  fp_PublicIPAddress :: "az_public_ip option"

record az_frontend =
  fe_Name :: "string option"
  fe_ID :: "string option"
  fe_Properties :: "az_frontend_props option"

record az_rule =
  lr_Name :: "string option"
  lr_ID :: "string option"
  lr_FrontendIPConfiguration :: sub_resource
  lr_BackendAddressPool :: sub_resource
  lr_Probe :: sub_resource
  lr_Protocol :: string
  lr_LoadDistribution :: string
  lr_FrontendPort :: "int32 option"
  lr_BackendPort :: "int32 option"
  lr_IdleTimeoutInMinutes :: "int option"
  lr_EnableFloatingIP :: "bool option"
  lr_DisableOutboundSnat :: "bool option"

text \<open>A backend pool; of the IP configurations in it the code reads the \<open>ID\<close> only.\<close>

record az_pool =
  pl_Name :: "string option"
  pl_ID :: "string option"
  pl_BackendIPConfigurations :: "string option slice"

record az_lb =
  al_Name :: "string option"
  al_Location :: "string option"
  al_Sku :: "string option"
  al_FrontendIPConfigurations :: "az_frontend slice"
  al_BackendAddressPools :: "az_pool slice"
  al_LoadBalancingRules :: "az_rule slice"
  al_Probes :: "az_probe slice"
  al_ProvisioningState :: "string option"

record az_ip_config =
  ic_ID :: "string option"
  ic_Pools :: "az_pool slice"

record az_nic =
  ni_ID :: "string option"
  ni_SecurityGroup :: sub_resource
  ni_IPConfigurations :: "az_ip_config slice"

record az_security_rule =
  sr_Name :: "string option"
  sr_ID :: "string option"
  sr_Description :: "string option"
  sr_Protocol :: string
  sr_SourcePortRange :: "string option"
  sr_DestinationPortRange :: "string option"
  sr_SourceAddressPrefix :: "string option"
  sr_DestinationAddressPrefix :: "string option"
  sr_Access :: string
  sr_Priority :: "int option"
  sr_Direction :: string

record az_security_group =
  sg_ID :: "string option"
  sg_SecurityRules :: "az_security_rule slice"

text \<open>A virtual machine: the network profile may be missing, as may the list of interfaces in it.\<close>

record az_vm =
  vm_Name :: "string option"
  vm_NetworkProfile :: "string option slice option"

text \<open>\<open>to.String\<close>, \<open>to.Int32\<close> and \<open>to.Bool\<close>: the zero value for a nil pointer.\<close>

definition to_String :: "string option \<Rightarrow> string" where
  "to_String p = (case p of None \<Rightarrow> [] | Some s \<Rightarrow> s)"

definition to_Int32 :: "int32 option \<Rightarrow> int32" where
  "to_Int32 p = (case p of None \<Rightarrow> 0 | Some i \<Rightarrow> i)"

definition to_Int :: "int option \<Rightarrow> int" where
  "to_Int p = (case p of None \<Rightarrow> 0 | Some i \<Rightarrow> i)"

definition to_Bool :: "bool option \<Rightarrow> bool" where
  "to_Bool p = (case p of None \<Rightarrow> False | Some b \<Rightarrow> b)"

lemma to_simps [simp, go_simps]:
  "to_String None = []" "to_String (Some s) = s" "to_Int32 None = 0" "to_Int32 (Some i) = i"
  "to_Int None = 0" "to_Int (Some n) = n" "to_Bool None = False" "to_Bool (Some b) = b"
  by (simp_all add: to_String_def to_Int32_def to_Int_def to_Bool_def)

section \<open>The client\<close>

record azure_config =
  ac_SubscriptionID :: string
  ac_ClientID :: string
  ac_ClientSecret :: string
  ac_TenantID :: string

text \<open>\<open>Client\<close>: the operations of its interfaces that the provider calls.\<close>

record 'w az_client =
  cl_Config :: azure_config
  cl_lb_Get :: "string \<Rightarrow> string \<Rightarrow> ('w, go_error, az_lb) prog"
  cl_lb_CreateOrUpdate :: "string \<Rightarrow> string \<Rightarrow> az_lb \<Rightarrow> ('w, go_error, az_lb) prog"
  cl_lb_Delete :: "string \<Rightarrow> string \<Rightarrow> ('w, go_error, unit) prog"
  cl_vm_Get :: "string \<Rightarrow> string \<Rightarrow> ('w, go_error, az_vm) prog"
  cl_nic_Get :: "string \<Rightarrow> string \<Rightarrow> ('w, go_error, az_nic) prog"
  cl_nic_CreateOrUpdate :: "string \<Rightarrow> string \<Rightarrow> az_nic \<Rightarrow> ('w, go_error, az_nic) prog"
  cl_sg_Get :: "string \<Rightarrow> string \<Rightarrow> ('w, go_error, az_security_group) prog"
  cl_sg_CreateOrUpdate ::
    "string \<Rightarrow> string \<Rightarrow> az_security_group \<Rightarrow> ('w, go_error, az_security_group) prog"
  cl_ip_Get :: "string \<Rightarrow> string \<Rightarrow> ('w, go_error, string option) prog"

text \<open>
  The SDK behind it, with a type \<open>'f\<close> of futures; every client of it is made for one
  configuration. \<open>sd_Authorizer\<close> answers the text of an error.
\<close>

record ('w, 'f) azure_sdk =
  sd_Authorizer :: "azure_config \<Rightarrow> string option"
  sd_lb_Get :: "azure_config \<Rightarrow> string \<Rightarrow> string \<Rightarrow> ('w, go_error, az_lb) prog"
  sd_lb_CreateOrUpdate :: "azure_config \<Rightarrow> string \<Rightarrow> string \<Rightarrow> az_lb \<Rightarrow> ('w, go_error, 'f) prog"
  sd_lb_Delete :: "azure_config \<Rightarrow> string \<Rightarrow> string \<Rightarrow> ('w, go_error, 'f) prog"
  sd_lb_Result :: "azure_config \<Rightarrow> 'f \<Rightarrow> ('w, go_error, az_lb) prog"
  sd_vm_Get :: "azure_config \<Rightarrow> string \<Rightarrow> string \<Rightarrow> ('w, go_error, az_vm) prog"
  sd_nic_Get :: "azure_config \<Rightarrow> string \<Rightarrow> string \<Rightarrow> ('w, go_error, az_nic) prog"
  sd_nic_CreateOrUpdate :: "azure_config \<Rightarrow> string \<Rightarrow> string \<Rightarrow> az_nic \<Rightarrow> ('w, go_error, 'f) prog"
  sd_nic_Result :: "azure_config \<Rightarrow> 'f \<Rightarrow> ('w, go_error, az_nic) prog"
  sd_sg_Get :: "azure_config \<Rightarrow> string \<Rightarrow> string \<Rightarrow> ('w, go_error, az_security_group) prog"
  sd_sg_CreateOrUpdate ::
    "azure_config \<Rightarrow> string \<Rightarrow> string \<Rightarrow> az_security_group \<Rightarrow> ('w, go_error, 'f) prog"
  sd_sg_Result :: "azure_config \<Rightarrow> 'f \<Rightarrow> ('w, go_error, az_security_group) prog"
  sd_ip_Get :: "azure_config \<Rightarrow> string \<Rightarrow> string \<Rightarrow> ('w, go_error, string option) prog"
  sd_WaitForCompletionRef :: "azure_config \<Rightarrow> 'f \<Rightarrow> ('w, go_error, unit) prog"

section \<open>Errors\<close>

text \<open>\<open>IsNotFound\<close>: the status code is asserted to be an int, so another value panics.\<close>

definition IsNotFound :: "go_error \<Rightarrow> go_error + bool" where
  "IsNotFound e =
     (case e of
        Detailed (Some code) orig t \<Rightarrow> Inr (code = 404)
      | Detailed None orig t \<Rightarrow> Inl (Panic (CallerPanic ''interface conversion''))
      | _ \<Rightarrow> Inr False)"

definition NewServiceError :: "string \<Rightarrow> string \<Rightarrow> service_error" where
  "NewServiceError code message =
     \<lparr> se_StatusCode = 0, se_Code = code, se_Message = message, se_Target = [] \<rparr>"

definition ParseServiceError :: "go_error \<Rightarrow> service_error option" where
  "ParseServiceError e =
     (case e of
        Detailed (Some status) (Some orig) t \<Rightarrow>
          (case (case orig of
                   OrigService code message target \<Rightarrow> Some (code, message, target)
                 | OrigRequest svc \<Rightarrow> svc
                 | OrigOther _ \<Rightarrow> None) of
             None \<Rightarrow> None
           | Some (code, message, target) \<Rightarrow>
               Some \<lparr> se_StatusCode = status, se_Code = code, se_Message = message,
                      se_Target = to_String target \<rparr>)
      | _ \<Rightarrow> None)"

text \<open>\<open>Error()\<close> of an error value; a service error has a text of its own.\<close>

definition service_error_text :: "service_error \<Rightarrow> string" where
  "service_error_text e = ''statusCode '' @ itoa (se_StatusCode e) @ '' Code '' @ se_Code e
     @ '' Message '' @ se_Message e"

section \<open>Wrappers\<close>

text \<open>The \<open>CreateOrUpdate\<close> wrappers send the request, wait for the future and read its result.\<close>

definition securityGroup_CreateOrUpdate ::
  "('w, 'f) azure_sdk \<Rightarrow> azure_config \<Rightarrow> string \<Rightarrow> string \<Rightarrow> az_security_group
   \<Rightarrow> ('w, go_error, az_security_group) prog" where
  "securityGroup_CreateOrUpdate sdk cfg gname name sg =
     seqE (sd_sg_CreateOrUpdate sdk cfg gname name sg) (\<lambda>future.
     seqE (sd_WaitForCompletionRef sdk cfg future) (\<lambda>_. sd_sg_Result sdk cfg future))"

definition loadBalancer_CreateOrUpdate ::
  "('w, 'f) azure_sdk \<Rightarrow> azure_config \<Rightarrow> string \<Rightarrow> string \<Rightarrow> az_lb \<Rightarrow> ('w, go_error, az_lb) prog" where
  "loadBalancer_CreateOrUpdate sdk cfg gname name lb =
     seqE (sd_lb_CreateOrUpdate sdk cfg gname name lb) (\<lambda>future.
     seqE (sd_WaitForCompletionRef sdk cfg future) (\<lambda>_. sd_lb_Result sdk cfg future))"

definition networkInterface_CreateOrUpdate ::
  "('w, 'f) azure_sdk \<Rightarrow> azure_config \<Rightarrow> string \<Rightarrow> string \<Rightarrow> az_nic \<Rightarrow> ('w, go_error, az_nic) prog" where
  "networkInterface_CreateOrUpdate sdk cfg gname name nic =
     seqE (sd_nic_CreateOrUpdate sdk cfg gname name nic) (\<lambda>future.
     seqE (sd_WaitForCompletionRef sdk cfg future) (\<lambda>_. sd_nic_Result sdk cfg future))"

text \<open>\<open>Delete\<close> does not wait, and a load balancer that is gone counts as deleted.\<close>

definition loadBalancer_Delete ::
  "('w, 'f) azure_sdk \<Rightarrow> azure_config \<Rightarrow> string \<Rightarrow> string \<Rightarrow> ('w, go_error, unit) prog" where
  "loadBalancer_Delete sdk cfg gname name w =
     (case sd_lb_Delete sdk cfg gname name w of
        (Inr future, w') \<Rightarrow> (Inr (), w')
      | (Inl e, w') \<Rightarrow>
          (case IsNotFound e of
             Inl p \<Rightarrow> (Inl p, w')
           | Inr gone \<Rightarrow> (if gone then Inr () else Inl e, w')))"

section \<open>Construction\<close>

definition SecretTypeAzure :: string where "SecretTypeAzure = ''azure''"

definition getAPISecret :: "string \<Rightarrow> store_lister \<Rightarrow> go_error + gomap" where
  "getAPISecret provider L =
     (case lookup_err (sl_Secret L ''kube-system'') of
        Inl e \<Rightarrow> Inl e
      | Inr secrets \<Rightarrow>
          if secrets = [] then Inl (Errorf (''azure: there is no specify type of secret:'' @ provider))
          else (case find (\<lambda>s. sc_Type s = provider) secrets of
                  None \<Rightarrow> Inl (Errorf (''azure: get '' @ provider @ '' type secret failed''))
                | Some s \<Rightarrow> Inr (sc_Data s)))"

definition NewConfig :: "gomap \<Rightarrow> azure_config" where
  "NewConfig data =
     \<lparr> ac_SubscriptionID = to_String (map_of data ''subscriptionID''),
       ac_ClientID = to_String (map_of data ''clientID''),
       ac_ClientSecret = to_String (map_of data ''clientSecret''),
       ac_TenantID = to_String (map_of data ''tenantID'') \<rparr>"

definition NewClientWithConfig :: "('w, 'f) azure_sdk \<Rightarrow> azure_config \<Rightarrow> go_error + 'w az_client" where
  "NewClientWithConfig sdk cfg =
     (case sd_Authorizer sdk cfg of
        Some t \<Rightarrow> Inl (SvcError (NewServiceError ''InvalidAuth'' t))
      | None \<Rightarrow> Inr
          \<lparr> cl_Config = cfg,
            cl_lb_Get = sd_lb_Get sdk cfg,
            cl_lb_CreateOrUpdate = loadBalancer_CreateOrUpdate sdk cfg,
            cl_lb_Delete = loadBalancer_Delete sdk cfg,
            cl_vm_Get = sd_vm_Get sdk cfg,
            cl_nic_Get = sd_nic_Get sdk cfg,
            cl_nic_CreateOrUpdate = networkInterface_CreateOrUpdate sdk cfg,
            cl_sg_Get = sd_sg_Get sdk cfg,
            cl_sg_CreateOrUpdate = securityGroup_CreateOrUpdate sdk cfg,
            cl_ip_Get = sd_ip_Get sdk cfg \<rparr>)"

definition NewClient :: "('w, 'f) azure_sdk \<Rightarrow> store_lister \<Rightarrow> go_error + 'w az_client" where
  "NewClient sdk L =
     (case getAPISecret SecretTypeAzure L of
        Inl e \<Rightarrow> Inl e
      | Inr data \<Rightarrow> NewClientWithConfig sdk (NewConfig data))"

section \<open>What the error classification promises\<close>

lemma IsNotFound_true: "IsNotFound e = Inr True \<longleftrightarrow> (\<exists>orig t. e = Detailed (Some 404) orig t)"
  by (auto simp: IsNotFound_def split: go_error.splits option.splits)

lemma IsNotFound_Inl: "IsNotFound e = Inl p \<Longrightarrow> is_panic p"
  by (auto simp: IsNotFound_def split: go_error.splits option.splits)

text \<open>A not-found answer with a service error in it is never taken for another error.\<close>

lemma ParseServiceError_status:
  "ParseServiceError e = Some s \<Longrightarrow> IsNotFound e = Inr (se_StatusCode s = 404)"
  by (auto simp: ParseServiceError_def IsNotFound_def split: go_error.splits option.splits)

lemma loadBalancer_Delete_gone:
  assumes "sd_lb_Delete sdk cfg g n w = (Inl (Detailed (Some 404) orig t), w')"
  shows "loadBalancer_Delete sdk cfg g n w = (Inr (), w')"
  using assms by (simp add: loadBalancer_Delete_def IsNotFound_def)

lemma getAPISecret_type:
  assumes "getAPISecret provider L = Inr data"
  obtains secrets s where "sl_Secret L ''kube-system'' = Found secrets" "s \<in> set secrets"
    "sc_Type s = provider" "sc_Data s = data"
  using assms
  by (auto simp: getAPISecret_def lookup_err_def find_Some_iff split: lookup.splits if_splits option.splits)
    (metis nth_mem)

end
