(* ===== verification/AzureIds.thy ===== *)
theory AzureIds
  imports AzureClient
begin

text \<open>
  \<open>providers/azure/utils.go\<close>, first part: names inside Azure resource IDs, the virtual machine
  behind a Kubernetes node, and the network interfaces of the nodes.

  A Go set (\<open>map[string]struct{}\<close>) that the code builds itself is a list without duplicates. A
  \<open>range\<close> loop may visit its keys in any order, so the definitions take the order of the run as an
  argument and the theorems hold for every one.
\<close>

section \<open>Sets and the order of range loops\<close>

record range_order =
  ro_strings :: "string list \<Rightarrow> string list"
  ro_ints :: "int list \<Rightarrow> int list"

definition range_ok :: "range_order \<Rightarrow> bool" where
  "range_ok ord \<longleftrightarrow> (\<forall>xs. mset (ro_strings ord xs) = mset xs) \<and> (\<forall>xs. mset (ro_ints ord xs) = mset xs)"

definition set_add :: "'a \<Rightarrow> 'a list \<Rightarrow> 'a list" where
  "set_add x s = (if x \<in> set s then s else s @ [x])"

definition insertion_order :: range_order where
  "insertion_order = \<lparr> ro_strings = (\<lambda>xs. xs), ro_ints = (\<lambda>xs. xs) \<rparr>"

lemma insertion_order_ok [simp]: "range_ok insertion_order"
  by (simp add: range_ok_def insertion_order_def)

lemma range_strings:
  "range_ok ord \<Longrightarrow> set (ro_strings ord xs) = set xs"
  "range_ok ord \<Longrightarrow> distinct (ro_strings ord xs) = distinct xs"
  "range_ok ord \<Longrightarrow> length (ro_strings ord xs) = length xs"
  by (auto simp: range_ok_def dest: mset_eq_setD mset_eq_imp_distinct_iff mset_eq_length)

lemma range_ints:
  "range_ok ord \<Longrightarrow> set (ro_ints ord xs) = set xs"
  "range_ok ord \<Longrightarrow> length (ro_ints ord xs) = length xs"
  by (auto simp: range_ok_def dest: mset_eq_setD mset_eq_length)

lemma set_add_simps [simp]:
  "set (set_add x s) = insert x (set s)" "distinct (set_add x s) = distinct s"
  by (auto simp: set_add_def)

section \<open>Names in resource IDs\<close>

definition azureResourceGroups :: string where "azureResourceGroups = ''resourceGroups''"
definition azureNetworkInterfaces :: string where "azureNetworkInterfaces = ''networkInterfaces''"
definition azureSecurityGroups :: string where "azureSecurityGroups = ''networkSecurityGroups''"
definition azureVirtualMachines :: string where "azureVirtualMachines = ''virtualMachines''"
definition azurePublicIPAddresses :: string where "azurePublicIPAddresses = ''publicIPAddresses''"
definition azureIPConfigurations :: string where "azureIPConfigurations = ''/ipConfigurations''"

lemmas azure_words = azureResourceGroups_def azureNetworkInterfaces_def azureSecurityGroups_def
  azureVirtualMachines_def azurePublicIPAddresses_def azureIPConfigurations_def

definition getSpecifyName :: "string \<Rightarrow> string \<Rightarrow> go_error + string" where
  "getSpecifyName rid pfx =
     (case str_index rid pfx of
        None \<Rightarrow> Inl (Errorf (''find prefix '' @ pfx @ '' failed''))
      | Some index \<Rightarrow>
          let reSlice = split_on (CHR ''/'') (drop index rid)
          in if length reSlice < 2 then Inl (Errorf (''find prefix '' @ pfx @ '' failed''))
             else Inr (reSlice ! 1))"

definition getGroupAndResourceNameFromID :: "string \<Rightarrow> string \<Rightarrow> go_error + string \<times> string" where
  "getGroupAndResourceNameFromID rid resourceType =
     (case getSpecifyName rid azureResourceGroups of
        Inl e \<Rightarrow> Inl e
      | Inr groupName \<Rightarrow>
          (case getSpecifyName rid resourceType of
             Inl e \<Rightarrow> Inl e
           | Inr name \<Rightarrow> Inr (groupName, name)))"

definition getIPIDFromIPConfig :: "string \<Rightarrow> go_error + string" where
  "getIPIDFromIPConfig rid =
     (case str_index rid azureIPConfigurations of
        None \<Rightarrow> Inl (Errorf ''find ipConfigurations failed'')
      | Some index \<Rightarrow> Inr (take index rid))"

definition getAzureLBName :: "string \<Rightarrow> string \<Rightarrow> string" where
  "getAzureLBName lbName clusterID = lbName @ ''-'' @ clusterID"

section \<open>Machines\<close>

record machineInfo =
  mi_VMID :: string
  mi_VMName :: string
  mi_GroupName :: string

text \<open>\<open>Parse\<close> fills in what is missing from the machine's ID.\<close>

definition machineInfo_Parse :: "machineInfo \<Rightarrow> go_error + machineInfo" where
  "machineInfo_Parse m =
     (case (if mi_VMName m = [] then getSpecifyName (mi_VMID m) azureVirtualMachines
            else Inr (mi_VMName m)) of
        Inl e \<Rightarrow> Inl e
      | Inr vm \<Rightarrow>
          (case (if mi_GroupName m = [] then getSpecifyName (mi_VMID m) azureResourceGroups
                 else Inr (mi_GroupName m)) of
             Inl e \<Rightarrow> Inl e
           | Inr grp \<Rightarrow> Inr (m\<lparr>mi_VMName := vm, mi_GroupName := grp\<rparr>)))"

definition annotationCaicloudAzure :: string where "annotationCaicloudAzure = ''caicloud-azure''"
definition annotationMachineCloudProvider :: string where
  "annotationMachineCloudProvider = ''machine.resource.caicloud.io/cloud-provider''"
definition annotationVirtualMachineID :: string where
  "annotationVirtualMachineID = ''machine.resource.caicloud.io/virtual-machine-id''"
definition labelCaicloudAKSResource :: string where
  "labelCaicloudAKSResource = ''kubernetes.azure.com/cluster''"

definition getMachineInfoInAKSCluster :: "k8s_node \<Rightarrow> go_error + machineInfo" where
  "getMachineInfoInAKSCluster node =
     (case map_of (kn_Labels node) labelCaicloudAKSResource of
        None \<Rightarrow> Inl (Errorf (''get '' @ labelCaicloudAKSResource @ '' label failed''))
      | Some resourceGroup \<Rightarrow>
          Inr \<lparr> mi_VMID = [], mi_VMName = kn_Name node, mi_GroupName = resourceGroup \<rparr>)"

definition getMachineInfoFromNode :: "store_lister \<Rightarrow> string \<Rightarrow> go_error + machineInfo" where
  "getMachineInfoFromNode L nodeName =
     (case lookup_err (sl_Node L nodeName) of
        Inl e \<Rightarrow> Inl e
      | Inr node \<Rightarrow>
          (case map_of (kn_Annotations node) annotationMachineCloudProvider of
             None \<Rightarrow> getMachineInfoInAKSCluster node
           | Some cloudProvider \<Rightarrow>
               if cloudProvider \<noteq> annotationCaicloudAzure
               then Inl (Errorf ('' azure node type '' @ cloudProvider @ '' error''))
               else (case map_of (kn_Annotations node) annotationVirtualMachineID of
                       None \<Rightarrow> Inl (Errorf ''get node virtual machine ID failed'')
                     | Some vmID \<Rightarrow> Inr \<lparr> mi_VMID = vmID, mi_VMName = [], mi_GroupName = [] \<rparr>)))"

section \<open>Network interfaces of nodes\<close>

definition vm_interfaces :: "az_vm \<Rightarrow> go_error + string list" where
  "vm_interfaces vm =
     (case vm_NetworkProfile vm of
        None \<Rightarrow> Inl (Panic (NilDereference ''vm.NetworkProfile''))
      | Some nics \<Rightarrow>
          if elems nics = [] then Inl (Errorf (''vm '' @ to_String (vm_Name vm) @ '' has no networkInterfaces''))
          else Inr (map to_String (elems nics)))"

definition getNetworkInterfacesFromVM ::
  "'w az_client \<Rightarrow> machineInfo option \<Rightarrow> ('w, go_error, string list) prog" where
  "getNetworkInterfacesFromVM c machine =
     (case machine of
        None \<Rightarrow> throwE (Errorf ''invalid vm info'')
      | Some m \<Rightarrow>
          (case machineInfo_Parse m of
             Inl e \<Rightarrow> throwE e
           | Inr m' \<Rightarrow>
               seqE (cl_vm_Get c (mi_GroupName m') (mi_VMName m'))
                 (\<lambda>vm. case vm_interfaces vm of Inl e \<Rightarrow> throwE e | Inr ids \<Rightarrow> retE ids)))"

definition getAzureNetworkInterfacesByNodeName ::
  "'w az_client \<Rightarrow> store_lister \<Rightarrow> string \<Rightarrow> ('w, go_error, string list) prog" where
  "getAzureNetworkInterfacesByNodeName c L nodeName =
     (case getMachineInfoFromNode L nodeName of
        Inl e \<Rightarrow> throwE e
      | Inr machine \<Rightarrow> getNetworkInterfacesFromVM c (Some machine))"

fun backend_nodes_loop ::
  "'w az_client \<Rightarrow> store_lister \<Rightarrow> string list \<Rightarrow> string list \<Rightarrow> ('w, go_error, string list) prog" where
  "backend_nodes_loop c L [] nets = retE nets"
| "backend_nodes_loop c L (node # nodes) nets =
     seqE (getAzureNetworkInterfacesByNodeName c L node)
       (\<lambda>ids. backend_nodes_loop c L nodes (fold set_add ids nets))"

definition getBackendPoolIPFromNodes ::
  "'w az_client \<Rightarrow> store_lister \<Rightarrow> string list \<Rightarrow> ('w, go_error, string list) prog" where
  "getBackendPoolIPFromNodes c L nodes = backend_nodes_loop c L nodes []"

text \<open>The network interfaces that are in the load balancer's first backend pool now.\<close>

fun pool_interfaces :: "string option list \<Rightarrow> string list \<Rightarrow> string list" where
  "pool_interfaces [] nets = nets"
| "pool_interfaces (cfg # cfgs) nets =
     (case getIPIDFromIPConfig (to_String cfg) of
        Inl _ \<Rightarrow> pool_interfaces cfgs nets
      | Inr ipConfigID \<Rightarrow> pool_interfaces cfgs (set_add ipConfigID nets))"

definition getAzureBackendPoolIP :: "az_lb \<Rightarrow> go_error + string list" where
  "getAzureBackendPoolIP azlb =
     (case elems (al_BackendAddressPools azlb) of
        [] \<Rightarrow> Inl (Errorf ''azure lb backendAddressPools is nil'')
      | azBackendPool # _ \<Rightarrow> Inr (pool_interfaces (elems (pl_BackendIPConfigurations azBackendPool)) []))"

definition getDiffBetweenNetworkInterfaces :: "range_order \<Rightarrow> string list \<Rightarrow> string list \<Rightarrow> string list" where
  "getDiffBetweenNetworkInterfaces ord one two = filter (\<lambda>nid. nid \<notin> set two) (ro_strings ord one)"

definition diffBackendPoolNetworkInterfaecs ::
  "range_order \<Rightarrow> 'w az_client \<Rightarrow> store_lister \<Rightarrow> az_lb \<Rightarrow> string list
   \<Rightarrow> ('w, go_error, string list \<times> string list \<times> string list) prog" where
  "diffBackendPoolNetworkInterfaecs ord c L azlb nodes =
     (case getAzureBackendPoolIP azlb of
        Inl e \<Rightarrow> throwE e
      | Inr azBackendPoolMap \<Rightarrow>
          seqE (getBackendPoolIPFromNodes c L nodes) (\<lambda>cpsLBBackendConfigMap.
            retE (getDiffBetweenNetworkInterfaces ord azBackendPoolMap cpsLBBackendConfigMap,
                  getDiffBetweenNetworkInterfaces ord cpsLBBackendConfigMap azBackendPoolMap,
                  cpsLBBackendConfigMap)))"

section \<open>Parsing IDs\<close>

text \<open>\<open>at_first u p v\<close>: in \<open>u @ p @ v\<close> the word \<open>p\<close> does not occur before its place after \<open>u\<close>.\<close>

definition at_first :: "string \<Rightarrow> string \<Rightarrow> string \<Rightarrow> bool" where
  "at_first u p v \<longleftrightarrow> str_index (u @ p @ v) p = Some (length u)"

lemma split_second:
  assumes "CHR ''/'' \<notin> set p" "CHR ''/'' \<notin> set n" "r = [] \<or> hd r = CHR ''/''"
  shows "2 \<le> length (split_on (CHR ''/'') (p @ CHR ''/'' # n @ r))
    \<and> split_on (CHR ''/'') (p @ CHR ''/'' # n @ r) ! 1 = n"
proof (cases r)
  case Nil
  then show ?thesis using assms by (simp add: split_on_sep split_on_no_sep)
next
  case (Cons x xs)
  then show ?thesis using assms by (simp add: split_on_sep)
qed

lemma getSpecifyName_ok:
  assumes "at_first u p (CHR ''/'' # n @ r)" "CHR ''/'' \<notin> set p" "CHR ''/'' \<notin> set n"
    "r = [] \<or> hd r = CHR ''/''"
  shows "getSpecifyName (u @ p @ CHR ''/'' # n @ r) p = Inr n"
  using split_second [OF assms(2-4)] assms(1) by (simp add: getSpecifyName_def at_first_def Let_def)

text \<open>The ID of a resource, and what it takes for the parser to find the two names in it.\<close>

definition resource_id :: "string \<Rightarrow> string \<Rightarrow> string \<Rightarrow> string \<Rightarrow> string" where
  "resource_id sub grp rtype name =
     ''/subscriptions/'' @ sub @ ''/resourceGroups/'' @ grp @ ''/providers/Microsoft.Network/'' @ rtype
       @ CHR ''/'' # name"

definition parsable_id :: "string \<Rightarrow> string \<Rightarrow> string \<Rightarrow> string \<Rightarrow> bool" where
  "parsable_id sub grp rtype name \<longleftrightarrow>
     CHR ''/'' \<notin> set grp \<and> CHR ''/'' \<notin> set rtype \<and> CHR ''/'' \<notin> set name
     \<and> at_first (''/subscriptions/'' @ sub @ ''/'') azureResourceGroups
         (CHR ''/'' # grp @ ''/providers/Microsoft.Network/'' @ rtype @ CHR ''/'' # name)
     \<and> at_first (''/subscriptions/'' @ sub @ ''/resourceGroups/'' @ grp @ ''/providers/Microsoft.Network/'')
         rtype (CHR ''/'' # name)"

lemma has_prefix_len: "has_prefix s p \<Longrightarrow> length p \<le> length s"
  by (auto simp: has_prefix_iff)

lemma has_prefix_extend: "length p \<le> length s \<Longrightarrow> has_prefix (s @ t) p = has_prefix s p"
  by (simp add: has_prefix_def)

lemma str_index_len: "str_index s p = Some i \<Longrightarrow> length p \<le> length s"
  by (metis diff_le_self has_prefix_len le_trans length_drop str_index_Some)

lemma str_index_extend: "str_index s p = Some i \<Longrightarrow> str_index (s @ t) p = Some i"
proof (induction s p arbitrary: i rule: str_index.induct)
  case (1 p)
  then show ?case by (cases t) (auto split: if_splits simp: has_prefix_def)
next
  case (2 c s p)
  have "length p \<le> length (c # s)" using str_index_len [OF "2.prems"] .
  from has_prefix_extend [OF this, of t] 2 show ?case by (auto split: if_splits)
qed

lemma parse_resource_id:
  assumes "parsable_id sub grp rtype name" "r = [] \<or> hd r = CHR ''/''"
  shows "getGroupAndResourceNameFromID (resource_id sub grp rtype name @ r) rtype = Inr (grp, name)"
proof -
  let ?u = "''/subscriptions/'' @ sub @ ''/''"
  let ?r = "''/providers/Microsoft.Network/'' @ rtype @ CHR ''/'' # name"
  have extend: "at_first u p v \<Longrightarrow> at_first u p (v @ r)" for u p v
    unfolding at_first_def using str_index_extend [of "u @ p @ v" p "length u" r] by simp
  have 1: "getSpecifyName (?u @ azureResourceGroups @ CHR ''/'' # grp @ (?r @ r)) azureResourceGroups = Inr grp"
  proof (rule getSpecifyName_ok)
    show "at_first ?u azureResourceGroups (CHR ''/'' # grp @ (?r @ r))"
      using extend [of ?u azureResourceGroups "CHR ''/'' # grp @ ?r"] assms(1) by (simp add: parsable_id_def)
  qed (use assms in \<open>auto simp: parsable_id_def azureResourceGroups_def\<close>)
  let ?v = "''/subscriptions/'' @ sub @ ''/resourceGroups/'' @ grp @ ''/providers/Microsoft.Network/''"
  have 2: "getSpecifyName (?v @ rtype @ CHR ''/'' # name @ r) rtype = Inr name"
  proof (rule getSpecifyName_ok)
    show "at_first ?v rtype (CHR ''/'' # name @ r)"
      using extend [of ?v rtype "CHR ''/'' # name"] assms(1) by (simp add: parsable_id_def)
  qed (use assms in \<open>auto simp: parsable_id_def\<close>)
  show ?thesis
    using 1 2
    by (simp add: getGroupAndResourceNameFromID_def resource_id_def azureResourceGroups_def)
qed

lemma IPID_of_config:
  assumes "at_first nid azureIPConfigurations r"
  shows "getIPIDFromIPConfig (nid @ azureIPConfigurations @ r) = Inr nid"
  using assms by (simp add: getIPIDFromIPConfig_def at_first_def)

end
