(* ===== verification/AzureRules.thy ===== *)
theory AzureRules
  imports AzureClient
begin

text \<open>
  \<open>providers/azure/utils.go\<close>, second part: the probes and the load balancing rules. The default
  rules forward the ports 80 and 443; every other TCP or UDP rule is there because a port of the
  TCP or UDP config map wants it.
\<close>

section \<open>Probes and rules\<close>

definition TransportProtocolTCP :: string where "TransportProtocolTCP = ''Tcp''"
definition TransportProtocolUDP :: string where "TransportProtocolUDP = ''Udp''"

lemma protocols_differ [simp]: "TransportProtocolTCP \<noteq> TransportProtocolUDP"
  by (simp add: TransportProtocolTCP_def TransportProtocolUDP_def)

definition copyMap :: "gomap option \<Rightarrow> gomap" where
  "copyMap m = (case m of None \<Rightarrow> [] | Some kvs \<Rightarrow> kvs)"

definition port_string :: "int32 \<Rightarrow> string" where
  "port_string port = itoa (sint port)"

definition defaultClusterAzureLBProbes :: "az_probe list" where
  "defaultClusterAzureLBProbes =
     map (\<lambda>port. \<lparr> pb_Name = Some (port_string port), pb_ID = None, pb_Protocol = ''Tcp'',
                   pb_Port = Some port, pb_IntervalInSeconds = Some 5, pb_NumberOfProbes = Some 3 \<rparr>)
       [80, 443]"

definition getRuleName :: "int32 \<Rightarrow> string \<Rightarrow> string" where
  "getRuleName port protocol = to_lower (protocol @ ''-'' @ port_string port)"

definition azureLBProbes2Rules :: "string \<Rightarrow> string \<Rightarrow> az_probe list \<Rightarrow> az_rule list" where
  "azureLBProbes2Rules frontendID backendID probes =
     map (\<lambda>probe.
       \<lparr> lr_Name = Some (getRuleName (to_Int32 (pb_Port probe)) TransportProtocolTCP),
         lr_ID = None,
         lr_FrontendIPConfiguration = Some (Some frontendID),
         lr_BackendAddressPool = Some (Some backendID),
         lr_Probe = Some (pb_ID probe),
         lr_Protocol = TransportProtocolTCP,
         lr_LoadDistribution = ''SourceIPProtocol'',
         lr_FrontendPort = pb_Port probe,
         lr_BackendPort = pb_Port probe,
         lr_IdleTimeoutInMinutes = Some 4,
         lr_EnableFloatingIP = Some False,
         lr_DisableOutboundSnat = Some False \<rparr>) probes"

definition isDefaultRules :: "az_rule \<Rightarrow> bool" where
  "isDefaultRules rule =
     (lr_Protocol rule = TransportProtocolTCP
      \<and> (to_Int32 (lr_FrontendPort rule) = 80 \<or> to_Int32 (lr_FrontendPort rule) = 443))"

definition rule_key :: "az_rule \<Rightarrow> string" where
  "rule_key rule = port_string (to_Int32 (lr_FrontendPort rule))"

definition well_named :: "az_rule \<Rightarrow> bool" where
  "well_named rule =
     (to_String (lr_Name rule) = getRuleName (to_Int32 (lr_FrontendPort rule)) (lr_Protocol rule))"

text \<open>
  The rules that stay, whether one goes, and the two maps without the ports that a staying rule
  serves.
\<close>

type_synonym remained = "(az_rule list \<times> bool) \<times> gomap \<times> gomap"

definition keep_rule :: "az_rule \<Rightarrow> remained \<Rightarrow> remained" where
  "keep_rule rule x = ((rule # fst (fst x), snd (fst x)), snd x)"

definition drop_rule :: "remained \<Rightarrow> remained" where
  "drop_rule x = ((fst (fst x), True), snd x)"

fun remainConstantRules :: "az_rule list \<Rightarrow> gomap \<Rightarrow> gomap \<Rightarrow> remained" where
  "remainConstantRules [] tcp udp = (([], False), tcp, udp)"
| "remainConstantRules (rule # rules) tcp udp =
     (if lr_Protocol rule = TransportProtocolTCP
      then (if map_of tcp (rule_key rule) \<noteq> None \<and> well_named rule
            then keep_rule rule (remainConstantRules rules (AList.delete (rule_key rule) tcp) udp)
            else if isDefaultRules rule then keep_rule rule (remainConstantRules rules tcp udp)
            else drop_rule (remainConstantRules rules tcp udp))
      else if lr_Protocol rule = TransportProtocolUDP
      then (if map_of udp (rule_key rule) \<noteq> None \<and> well_named rule
            then keep_rule rule (remainConstantRules rules tcp (AList.delete (rule_key rule) udp))
            else if isDefaultRules rule then keep_rule rule (remainConstantRules rules tcp udp)
            else drop_rule (remainConstantRules rules tcp udp))
      else keep_rule rule (remainConstantRules rules tcp udp))"

lemma keep_drop_simps [simp]:
  "fst (fst (keep_rule r x)) = r # fst (fst x)" "snd (fst (keep_rule r x)) = snd (fst x)"
  "snd (keep_rule r x) = snd x" "fst (fst (drop_rule x)) = fst (fst x)" "snd (fst (drop_rule x))"
  "snd (drop_rule x) = snd x"
  by (simp_all add: keep_rule_def drop_rule_def)

definition newRuleWithConfig :: "az_lb \<Rightarrow> string \<Rightarrow> string \<Rightarrow> string \<Rightarrow> go_error + az_rule" where
  "newRuleWithConfig azlb port service protocol =
     (case (elems (al_Probes azlb), elems (al_FrontendIPConfigurations azlb),
            elems (al_BackendAddressPools azlb)) of
        ([], _, _) \<Rightarrow> Inl (Errorf ''azure lb probes is nil'')
      | (_, [], _) \<Rightarrow> Inl (Errorf ''azure lb frontendIPConfigurations is nil'')
      | (_, _, []) \<Rightarrow> Inl (Errorf ''azure lb backendAddressPools is nil'')
      | (probe # _, frontend # _, pool # _) \<Rightarrow>
          (case atoi port of
             (_, Some _) \<Rightarrow> Inl (Errorf (''strconv.Atoi: parsing '' @ port))
           | (lbPort, None) \<Rightarrow>
               let port32 = (word_of_int lbPort :: int32) in
               Inr \<lparr> lr_Name = Some (getRuleName port32 protocol),
                     lr_ID = None,
                     lr_FrontendIPConfiguration = Some (Some (to_String (fe_ID frontend))),
                     lr_BackendAddressPool = Some (Some (to_String (pl_ID pool))),
                     lr_Probe = Some (pb_ID probe),
                     lr_Protocol = protocol,
                     lr_LoadDistribution = ''SourceIPProtocol'',
                     lr_FrontendPort = Some port32,
                     lr_BackendPort = Some port32,
                     lr_IdleTimeoutInMinutes = Some 4,
                     lr_EnableFloatingIP = Some False,
                     lr_DisableOutboundSnat = Some False \<rparr>))"

text \<open>The loop over one map that appends a rule for each port and skips the ports it cannot use.\<close>

definition added_rules :: "az_lb \<Rightarrow> string \<Rightarrow> gomap \<Rightarrow> az_rule list" where
  "added_rules azlb protocol m =
     List.map_filter (\<lambda>(port, service).
       case newRuleWithConfig azlb port service protocol of Inl _ \<Rightarrow> None | Inr r \<Rightarrow> Some r) m"

definition makeUpRules :: "az_lb \<Rightarrow> gomap \<Rightarrow> gomap \<Rightarrow> az_lb \<times> bool" where
  "makeUpRules azlb tcpMap udpMap =
     (case remainConstantRules (elems (al_LoadBalancingRules azlb)) tcpMap udpMap of
        ((kept, diff0), tcp, udp) \<Rightarrow>
          let diff = (diff0 \<or> tcp \<noteq> [] \<or> udp \<noteq> []);
              newRules = kept @ added_rules azlb TransportProtocolTCP tcp
                              @ added_rules azlb TransportProtocolUDP udp
          in (if diff then azlb\<lparr>al_LoadBalancingRules := Some newRules\<rparr> else azlb, diff))"

section \<open>Which rule serves which port\<close>

definition untouched :: "az_rule \<Rightarrow> bool" where
  "untouched r \<longleftrightarrow> isDefaultRules r
     \<or> (lr_Protocol r \<noteq> TransportProtocolTCP \<and> lr_Protocol r \<noteq> TransportProtocolUDP)"

definition claims :: "string \<Rightarrow> string \<Rightarrow> az_rule \<Rightarrow> bool" where
  "claims protocol key r \<longleftrightarrow> lr_Protocol r = protocol \<and> rule_key r = key \<and> well_named r"

definition proto_map :: "gomap \<Rightarrow> gomap \<Rightarrow> string \<Rightarrow> gomap" where
  "proto_map tcp udp protocol = (if protocol = TransportProtocolTCP then tcp else udp)"

definition has_key :: "gomap \<Rightarrow> string \<Rightarrow> bool" where
  "has_key m k \<longleftrightarrow> k \<in> fst ` set m"

definition unclaimed :: "string \<Rightarrow> az_rule list \<Rightarrow> gomap \<Rightarrow> gomap" where
  "unclaimed protocol rules m = filter (\<lambda>(k, v). \<not> list_ex (claims protocol k) rules) m"

definition canonical_ports :: "gomap \<Rightarrow> bool" where
  "canonical_ports m \<longleftrightarrow> distinct (map fst m) \<and> (\<forall>k \<in> fst ` set m. \<exists>p::int32. k = port_string p)"

definition lb_ready :: "az_lb \<Rightarrow> bool" where
  "lb_ready azlb \<longleftrightarrow> elems (al_Probes azlb) \<noteq> [] \<and> elems (al_FrontendIPConfigurations azlb) \<noteq> []
     \<and> elems (al_BackendAddressPools azlb) \<noteq> []"

lemma port_string_inject [simp]: "port_string p = port_string q \<longleftrightarrow> p = q"
  unfolding port_string_def itoa_inject by (rule word_eq_iff_signed [symmetric])

lemma map_of_has_key: "map_of m k = None \<longleftrightarrow> \<not> has_key m k"
  by (simp add: has_key_def map_of_eq_None_iff)

lemma has_key_delete [simp]: "has_key (AList.delete k m) k' \<longleftrightarrow> has_key m k' \<and> k' \<noteq> k"
  by (auto simp: has_key_def)

lemma unclaimed_Nil [simp]: "unclaimed p [] m = m"
  by (simp add: unclaimed_def)

lemma unclaimed_delete:
  "claims p k r \<Longrightarrow> unclaimed p rs (AList.delete k m) = unclaimed p (r # rs) m"
  by (auto simp: unclaimed_def AList.delete_eq claims_def intro!: filter_cong)

lemma unclaimed_skip:
  "\<not> (lr_Protocol r = p \<and> has_key m (rule_key r) \<and> well_named r) \<Longrightarrow>
     unclaimed p (r # rs) m = unclaimed p rs m"
  by (force simp: unclaimed_def claims_def has_key_def intro!: filter_cong)

text \<open>What stays and what is left of the maps.\<close>

lemma remain_maps:
  "snd (remainConstantRules rules tcp udp) =
     (unclaimed TransportProtocolTCP rules tcp, unclaimed TransportProtocolUDP rules udp)"
proof (induction rules arbitrary: tcp udp)
  case Nil
  then show ?case by simp
next
  case (Cons r rules)
  let ?T = TransportProtocolTCP and ?U = TransportProtocolUDP and ?k = "rule_key r"
  consider "lr_Protocol r \<noteq> ?T" "lr_Protocol r \<noteq> ?U"
    | "lr_Protocol r = ?T" "has_key tcp ?k" "well_named r"
    | "lr_Protocol r = ?U" "has_key udp ?k" "well_named r"
    | "lr_Protocol r = ?T" "\<not> (has_key tcp ?k \<and> well_named r)"
    | "lr_Protocol r = ?U" "\<not> (has_key udp ?k \<and> well_named r)"
    by blast
  then show ?case
  proof cases
    case 1
    then show ?thesis by (simp add: Cons.IH unclaimed_skip)
  next
    case 2
    then show ?thesis
      by (simp add: Cons.IH map_of_has_key unclaimed_delete [of ?T ?k r] claims_def unclaimed_skip)
  next
    case 3
    then show ?thesis
      by (simp add: Cons.IH map_of_has_key unclaimed_delete [of ?U ?k r] claims_def unclaimed_skip
          protocols_differ [symmetric])
  next
    case 4
    then show ?thesis by (auto simp: Cons.IH map_of_has_key unclaimed_skip)
  next
    case 5
    then show ?thesis by (auto simp: Cons.IH map_of_has_key unclaimed_skip protocols_differ [symmetric])
  qed
qed

text \<open>
  A list of rules is good for two maps when every rule that is not untouchable serves a port of its
  map under the right name, and no two of them serve the same.
\<close>

definition claim_of :: "az_rule \<Rightarrow> string \<times> string" where
  "claim_of r = (lr_Protocol r, rule_key r)"

definition served_claims :: "az_rule list \<Rightarrow> (string \<times> string) list" where
  "served_claims rules = map claim_of (filter (\<lambda>r. \<not> untouched r) rules)"

definition wanted :: "gomap \<Rightarrow> gomap \<Rightarrow> az_rule \<Rightarrow> bool" where
  "wanted tcp udp r \<longleftrightarrow> well_named r \<and> has_key (proto_map tcp udp (lr_Protocol r)) (rule_key r)"

definition good_rules :: "gomap \<Rightarrow> gomap \<Rightarrow> az_rule list \<Rightarrow> bool" where
  "good_rules tcp udp rules \<longleftrightarrow>
     (\<forall>r \<in> set rules. \<not> untouched r \<longrightarrow> wanted tcp udp r) \<and> distinct (served_claims rules)"

lemma served_claims_simps [simp]:
  "served_claims [] = []"
  "served_claims (r # rs) = (if untouched r then served_claims rs else claim_of r # served_claims rs)"
  "served_claims (rs @ rs') = served_claims rs @ served_claims rs'"
  by (simp_all add: served_claims_def)

lemma untouched_cases:
  "lr_Protocol r = TransportProtocolTCP \<Longrightarrow> untouched r = isDefaultRules r"
  "lr_Protocol r = TransportProtocolUDP \<Longrightarrow> \<not> untouched r"
  "lr_Protocol r = TransportProtocolUDP \<Longrightarrow> \<not> isDefaultRules r"
  "lr_Protocol r \<noteq> TransportProtocolTCP \<Longrightarrow> lr_Protocol r \<noteq> TransportProtocolUDP \<Longrightarrow> untouched r"
  by (auto simp: untouched_def isDefaultRules_def protocols_differ [symmetric])

lemma served_claimsD: "(p, k) \<in> set (served_claims rs) \<Longrightarrow>
    \<exists>r \<in> set rs. \<not> untouched r \<and> lr_Protocol r = p \<and> rule_key r = k"
  by (auto simp: served_claims_def claim_of_def)

lemma wanted_delete:
  "wanted (AList.delete k tcp) udp r \<Longrightarrow> wanted tcp udp r"
  "wanted tcp (AList.delete k udp) r \<Longrightarrow> wanted tcp udp r"
  "wanted (AList.delete k tcp) udp r \<Longrightarrow> claim_of r \<noteq> (TransportProtocolTCP, k)"
  "wanted tcp (AList.delete k udp) r \<Longrightarrow> claim_of r \<noteq> (TransportProtocolUDP, k)"
  by (auto simp: wanted_def proto_map_def claim_of_def protocols_differ [symmetric] split: if_splits)

lemma good_cons:
  assumes "good_rules tcp' udp' rs" "untouched r \<or> wanted tcp udp r"
    "\<And>x. wanted tcp' udp' x \<Longrightarrow> wanted tcp udp x \<and> (untouched r \<or> claim_of x \<noteq> claim_of r)"
  shows "good_rules tcp udp (r # rs)"
proof -
  have "\<forall>x \<in> set rs. \<not> untouched x \<longrightarrow> wanted tcp udp x \<and> (untouched r \<or> claim_of x \<noteq> claim_of r)"
    using assms(1,3) by (auto simp: good_rules_def)
  with assms(1,2) show ?thesis by (fastforce simp: good_rules_def served_claims_def)
qed

lemma good_weaken:
  "good_rules tcp' udp' rs \<Longrightarrow> (\<And>x. wanted tcp' udp' x \<Longrightarrow> wanted tcp udp x) \<Longrightarrow> good_rules tcp udp rs"
  by (auto simp: good_rules_def)

lemma remain_good: "good_rules tcp udp (fst (fst (remainConstantRules rules tcp udp)))"
proof (induction rules arbitrary: tcp udp)
  case Nil
  then show ?case by (simp add: good_rules_def)
next
  case (Cons r rules)
  let ?T = TransportProtocolTCP and ?U = TransportProtocolUDP and ?k = "rule_key r"
  consider "lr_Protocol r \<noteq> ?T" "lr_Protocol r \<noteq> ?U"
    | "lr_Protocol r = ?T" "has_key tcp ?k" "well_named r"
    | "lr_Protocol r = ?U" "has_key udp ?k" "well_named r"
    | "lr_Protocol r = ?T" "\<not> (has_key tcp ?k \<and> well_named r)"
    | "lr_Protocol r = ?U" "\<not> (has_key udp ?k \<and> well_named r)"
    by blast
  then show ?case
  proof cases
    case 1
    then show ?thesis using Cons.IH [of tcp udp] by (auto intro: good_cons simp: untouched_cases)
  next
    case 2
    have "good_rules tcp udp (r # fst (fst (remainConstantRules rules (AList.delete ?k tcp) udp)))"
      by (rule good_cons [OF Cons.IH])
        (use 2 in \<open>auto simp: wanted_def proto_map_def claim_of_def split: if_splits\<close>)
    with 2 show ?thesis by (simp add: map_of_has_key)
  next
    case 3
    have "good_rules tcp udp (r # fst (fst (remainConstantRules rules tcp (AList.delete ?k udp))))"
      by (rule good_cons [OF Cons.IH])
        (use 3 in \<open>auto simp: wanted_def proto_map_def claim_of_def protocols_differ [symmetric] split: if_splits\<close>)
    with 3 show ?thesis by (simp add: map_of_has_key protocols_differ [symmetric])
  next
    case 4
    then show ?thesis
      using Cons.IH [of tcp udp] by (auto simp: map_of_has_key untouched_cases intro: good_cons)
  next
    case 5
    then show ?thesis
      using Cons.IH [of tcp udp]
      by (auto simp: map_of_has_key untouched_cases protocols_differ [symmetric])
  qed
qed

text \<open>Good rules all stay.\<close>

lemma good_tail:
  assumes "good_rules tcp udp (r # rs)"
  shows "good_rules tcp udp rs"
  using assms by (auto simp: good_rules_def split: if_splits)

lemma good_tail_claimed:
  assumes "good_rules tcp udp (r # rs)" "claims p (rule_key r) r"
    "p = TransportProtocolTCP \<and> tcp' = AList.delete (rule_key r) tcp \<and> udp' = udp
     \<or> p = TransportProtocolUDP \<and> tcp' = tcp \<and> udp' = AList.delete (rule_key r) udp"
  shows "good_rules tcp' udp' rs"
proof -
  have other: "claim_of x \<noteq> claim_of r" if "x \<in> set rs" "\<not> untouched x" for x
  proof (cases "untouched r")
    case False
    with assms(1) have "claim_of r \<notin> claim_of ` {x \<in> set rs. \<not> untouched x}"
      by (auto simp: good_rules_def served_claims_def)
    with that show ?thesis by (metis (mono_tags, lifting) imageI mem_Collect_eq)
  next
    case True
    with assms(2,3) have "isDefaultRules r" by (auto simp: claims_def untouched_cases)
    with that show ?thesis
      by (auto simp: claim_of_def isDefaultRules_def untouched_def rule_key_def)
  qed
  have "wanted tcp' udp' x" if x: "x \<in> set rs" "\<not> untouched x" for x
  proof -
    have "wanted tcp udp x" using good_tail [OF assms(1)] x by (auto simp: good_rules_def)
    moreover have "lr_Protocol x = TransportProtocolTCP \<or> lr_Protocol x = TransportProtocolUDP"
      using x(2) untouched_cases(4) by blast
    ultimately show ?thesis
      using other [OF x] assms(2,3)
      by (auto simp: wanted_def proto_map_def claims_def claim_of_def split: if_splits)
  qed
  with good_tail [OF assms(1)] show ?thesis by (simp add: good_rules_def)
qed

lemma good_remain: "good_rules tcp udp rules \<Longrightarrow> fst (remainConstantRules rules tcp udp) = (rules, False)"
proof (induction rules arbitrary: tcp udp)
  case Nil
  then show ?case by simp
next
  case (Cons r rules)
  let ?T = TransportProtocolTCP and ?U = TransportProtocolUDP and ?k = "rule_key r"
  have head: "untouched r \<or> wanted tcp udp r" using Cons.prems by (auto simp: good_rules_def)
  have tail: "fst (remainConstantRules rules tcp udp) = (rules, False)"
    using Cons.IH [OF good_tail [OF Cons.prems]] .
  consider "lr_Protocol r \<noteq> ?T" "lr_Protocol r \<noteq> ?U"
    | "lr_Protocol r = ?T" "has_key tcp ?k" "well_named r"
    | "lr_Protocol r = ?U" "has_key udp ?k" "well_named r"
    | "lr_Protocol r = ?T" "\<not> (has_key tcp ?k \<and> well_named r)" "isDefaultRules r"
  proof (cases "lr_Protocol r = ?T \<or> lr_Protocol r = ?U")
    case True
    with head that show ?thesis
      by (cases "lr_Protocol r = ?T")
        (auto simp: wanted_def proto_map_def untouched_cases protocols_differ [symmetric])
  qed (use that in blast)
  then show ?case
  proof cases
    case 1
    then show ?thesis using tail by (simp add: keep_rule_def)
  next
    case 2
    have "fst (remainConstantRules rules (AList.delete ?k tcp) udp) = (rules, False)"
      by (rule Cons.IH [OF good_tail_claimed [OF Cons.prems]]) (use 2 in \<open>auto simp: claims_def\<close>)
    with 2 show ?thesis by (simp add: map_of_has_key keep_rule_def)
  next
    case 3
    have "fst (remainConstantRules rules tcp (AList.delete ?k udp)) = (rules, False)"
      by (rule Cons.IH [OF good_tail_claimed [OF Cons.prems]]) (use 3 in \<open>auto simp: claims_def\<close>)
    with 3 show ?thesis by (simp add: map_of_has_key keep_rule_def protocols_differ [symmetric])
  next
    case 4
    then show ?thesis using tail by (auto simp: map_of_has_key keep_rule_def)
  qed
qed

lemma remain_kept:
  "filter untouched (fst (fst (remainConstantRules rules tcp udp))) = filter untouched rules
   \<and> set (fst (fst (remainConstantRules rules tcp udp))) \<subseteq> set rules"
proof (induction rules arbitrary: tcp udp)
  case Nil
  then show ?case by simp
next
  case (Cons r rules)
  then show ?case by (auto simp: untouched_cases)
qed

lemma remain_same:
  "\<not> snd (fst (remainConstantRules rules tcp udp)) \<Longrightarrow> fst (fst (remainConstantRules rules tcp udp)) = rules"
  by (induction rules arbitrary: tcp udp) (auto split: if_splits)

section \<open>New rules\<close>

lemma port_string_bounds: "min_int64 \<le> sint (p::int32) \<and> sint p \<le> max_int64"
  using sint_range_size [of p] by (simp add: min_int64_def max_int64_def word_size)

lemma newRule_ok:
  assumes "lb_ready azlb"
  shows "\<exists>r. newRuleWithConfig azlb (port_string p) service protocol = Inr r
    \<and> lr_FrontendPort r = Some p \<and> lr_Name r = Some (getRuleName p protocol) \<and> lr_Protocol r = protocol"
proof -
  obtain a as f fs b bs where "elems (al_Probes azlb) = a # as" "elems (al_FrontendIPConfigurations azlb) = f # fs"
    "elems (al_BackendAddressPools azlb) = b # bs"
    using assms by (auto simp: lb_ready_def neq_Nil_conv)
  moreover have "atoi (port_string p) = (sint p, None)"
    using port_string_bounds [of p] by (simp add: port_string_def atoi_itoa)
  ultimately show ?thesis by (simp add: newRuleWithConfig_def Let_def)
qed

lemma newRule_protocol:
  "newRuleWithConfig azlb port service protocol = Inr r \<Longrightarrow> lr_Protocol r = protocol \<and> well_named r"
  by (auto simp: newRuleWithConfig_def Let_def well_named_def split: list.splits prod.splits option.splits)

lemma added_rules_keys:
  assumes "lb_ready azlb" "\<forall>k \<in> fst ` set m. \<exists>p::int32. k = port_string p"
  shows "map rule_key (added_rules azlb protocol m) = map fst m
    \<and> (\<forall>r \<in> set (added_rules azlb protocol m). lr_Protocol r = protocol \<and> well_named r)"
  using assms(2)
proof (induction m)
  case Nil
  then show ?case by (simp add: added_rules_def List.map_filter_simps)
next
  case (Cons kv m)
  obtain p :: int32 and v where kv: "kv = (port_string p, v)" using Cons.prems by (cases kv) auto
  obtain r where r: "newRuleWithConfig azlb (port_string p) v protocol = Inr r"
      "lr_FrontendPort r = Some p" "lr_Name r = Some (getRuleName p protocol)" "lr_Protocol r = protocol"
    using newRule_ok [OF assms(1)] by blast
  have "added_rules azlb protocol (kv # m) = r # added_rules azlb protocol m"
    by (simp add: added_rules_def List.map_filter_simps kv r)
  with Cons r show ?case by (simp add: kv rule_key_def well_named_def)
qed

lemma added_rules_lb [simp]:
  "added_rules (azlb\<lparr>al_LoadBalancingRules := x\<rparr>) protocol m = added_rules azlb protocol m"
  by (simp add: added_rules_def newRuleWithConfig_def)

lemma added_claims:
  assumes "lb_ready azlb" "\<forall>k \<in> fst ` set m. \<exists>p::int32. k = port_string p" "(k, v) \<in> set m"
  shows "list_ex (claims protocol k) (added_rules azlb protocol m)"
proof -
  have "k \<in> set (map rule_key (added_rules azlb protocol m))"
    using assms added_rules_keys [OF assms(1,2)] by force
  then obtain r where "r \<in> set (added_rules azlb protocol m)" "rule_key r = k" by auto
  then show ?thesis using added_rules_keys [OF assms(1,2), of protocol] by (auto simp: claims_def list_ex_iff)
qed

lemma list_ex_claims_append:
  "list_ex (claims p k) rs \<Longrightarrow> list_ex (claims p k) (xs @ rs)"
  "list_ex (claims p k) rs \<Longrightarrow> list_ex (claims p k) (rs @ xs)"
  by auto

lemma unclaimed_subset: "set (unclaimed p rs m) \<subseteq> set m"
  by (auto simp: unclaimed_def)

text \<open>A claimed port is claimed by a rule that stays.\<close>

lemma remain_claims:
  assumes "list_ex (claims p k) rules" "has_key (proto_map tcp udp p) k"
    "p = TransportProtocolTCP \<or> p = TransportProtocolUDP"
  shows "list_ex (claims p k) (fst (fst (remainConstantRules rules tcp udp)))"
  using assms
proof (induction rules arbitrary: tcp udp)
  case Nil
  then show ?case by simp
next
  case (Cons r rules)
  show ?case
  proof (cases "claims p k r")
    case True
    with Cons.prems show ?thesis
      by (auto simp: claims_def map_of_has_key proto_map_def protocols_differ [symmetric])
  next
    case False
    then have rest: "list_ex (claims p k) rules" using Cons.prems by simp
    note IH = Cons.IH [OF rest _ Cons.prems(3)]
    have d: "has_key (proto_map (AList.delete (rule_key r) tcp) udp p) k"
      if "lr_Protocol r = TransportProtocolTCP" "well_named r"
      using False Cons.prems(2) that by (auto simp: proto_map_def claims_def)
    have e: "has_key (proto_map tcp (AList.delete (rule_key r) udp) p) k"
      if "lr_Protocol r = TransportProtocolUDP" "well_named r"
      using False Cons.prems(2,3) that
      by (auto simp: proto_map_def claims_def protocols_differ [symmetric])
    show ?thesis using IH [OF d] IH [OF e] IH [OF Cons.prems(2)] by simp
  qed
qed

lemma good_append_added:
  assumes ready: "lb_ready azlb" and tcp: "canonical_ports tcp" and udp: "canonical_ports udp"
    and kept: "good_rules tcp udp kept" "set kept \<subseteq> set old"
  shows "good_rules tcp udp (kept @ added_rules azlb TransportProtocolTCP (unclaimed TransportProtocolTCP old tcp)
    @ added_rules azlb TransportProtocolUDP (unclaimed TransportProtocolUDP old udp))"
proof -
  let ?T = TransportProtocolTCP and ?U = TransportProtocolUDP
  let ?t = "unclaimed ?T old tcp" and ?u = "unclaimed ?U old udp"
  have cts: "\<forall>k \<in> fst ` set ?t. \<exists>p::int32. k = port_string p" "\<forall>k \<in> fst ` set ?u. \<exists>p::int32. k = port_string p"
    using tcp udp unclaimed_subset [of ?T old tcp] unclaimed_subset [of ?U old udp]
    by (force simp: canonical_ports_def)+
  note nt = added_rules_keys [OF ready cts(1), of ?T] and nu = added_rules_keys [OF ready cts(2), of ?U]
  have sub: "set (served_claims xs) \<subseteq> claim_of ` set xs" for xs by (auto simp: served_claims_def)
  have dist_filter: "distinct (map rule_key xs) \<Longrightarrow> distinct (served_claims xs)" for xs
  proof (induction xs)
    case (Cons x xs)
    then show ?case using sub [of xs] by (auto simp: claim_of_def)
  qed simp
  have dk: "distinct (map rule_key (added_rules azlb ?T ?t))" "distinct (map rule_key (added_rules azlb ?U ?u))"
    using nt nu tcp udp by (auto simp: canonical_ports_def unclaimed_def distinct_map_filter)
  have key_t: "\<exists>v. (rule_key r, v) \<in> set ?t" if "r \<in> set (added_rules azlb ?T ?t)" for r
  proof -
    have "rule_key r \<in> set (map fst ?t)" using that nt by (metis image_eqI set_map)
    then show ?thesis by auto
  qed
  have key_u: "\<exists>v. (rule_key r, v) \<in> set ?u" if "r \<in> set (added_rules azlb ?U ?u)" for r
  proof -
    have "rule_key r \<in> set (map fst ?u)" using that nu by (metis image_eqI set_map)
    then show ?thesis by auto
  qed
  have old_free: "\<not> (claim_of x = claim_of r)"
    if x: "x \<in> set kept" "\<not> untouched x" and r: "r \<in> set (added_rules azlb ?T ?t @ added_rules azlb ?U ?u)" for x r
  proof
    assume eq: "claim_of x = claim_of r"
    have "well_named x" using kept(1) x by (auto simp: good_rules_def wanted_def)
    then have c: "claims (lr_Protocol r) (rule_key r) x" using eq by (simp add: claims_def claim_of_def)
    then have ex: "list_ex (claims (lr_Protocol r) (rule_key r)) old"
      using kept(2) x by (auto simp: list_ex_iff)
    from r consider "r \<in> set (added_rules azlb ?T ?t)" | "r \<in> set (added_rules azlb ?U ?u)" by auto
    then show False
      using ex nt nu key_t [of r] key_u [of r] by cases (fastforce simp: unclaimed_def)+
  qed
  have "distinct (served_claims (kept @ added_rules azlb ?T ?t @ added_rules azlb ?U ?u))"
  proof -
    let ?st = "served_claims (added_rules azlb ?T ?t)" and ?su = "served_claims (added_rules azlb ?U ?u)"
    have tu: "set ?st \<inter> set ?su = {}"
    proof -
      have "fst c = ?T" if "c \<in> set ?st" for c
        using subsetD [OF sub that] nt by (auto simp: claim_of_def)
      moreover have "fst c = ?U" if "c \<in> set ?su" for c
        using subsetD [OF sub that] nu by (auto simp: claim_of_def)
      ultimately show ?thesis by fastforce
    qed
    have k: "c \<notin> set ?st \<union> set ?su" if "c \<in> set (served_claims kept)" for c
    proof -
      from that obtain x where x: "x \<in> set kept" "\<not> untouched x" "c = claim_of x"
        by (auto simp: served_claims_def)
      have "c \<notin> claim_of ` set (added_rules azlb ?T ?t @ added_rules azlb ?U ?u)"
        unfolding x(3) using old_free [OF x(1,2)] by (metis (no_types, lifting) imageE)
      then show ?thesis using sub by fastforce
    qed
    have "distinct (served_claims kept)" using kept(1) by (simp add: good_rules_def)
    with tu k dist_filter [OF dk(1)] dist_filter [OF dk(2)] show ?thesis
      unfolding served_claims_simps distinct_append set_append by blast
  qed
  moreover have "wanted tcp udp r" if "r \<in> set (added_rules azlb ?T ?t)" for r
    using key_t [OF that] nt that by (force simp: wanted_def proto_map_def has_key_def unclaimed_def)
  moreover have "wanted tcp udp r" if "r \<in> set (added_rules azlb ?U ?u)" for r
    using key_u [OF that] nu that
    by (force simp: wanted_def proto_map_def has_key_def unclaimed_def protocols_differ [symmetric])
  ultimately show ?thesis using kept(1) by (auto simp: good_rules_def)
qed

section \<open>Properties\<close>

definition rules_of :: "az_lb \<Rightarrow> az_rule list" where
  "rules_of azlb = elems (al_LoadBalancingRules azlb)"

lemma claims_untouched:
  "claims p k r \<Longrightarrow> p = TransportProtocolTCP \<or> p = TransportProtocolUDP \<Longrightarrow> lr_Protocol r = p \<and> rule_key r = k"
  by (simp add: claims_def)

lemma unclaimed_empty:
  "(\<And>k. has_key m k \<Longrightarrow> list_ex (claims p k) rules) \<Longrightarrow> unclaimed p rules m = []"
  by (force simp: unclaimed_def filter_empty_conv has_key_def)

lemma makeUpRules_result:
  assumes ready: "lb_ready azlb" and tcp: "canonical_ports tcp" and udp: "canonical_ports udp"
    and run: "makeUpRules azlb tcp udp = (azlb', diff)"
  shows "good_rules tcp udp (rules_of azlb')"
    and "has_key tcp k \<Longrightarrow> list_ex (claims TransportProtocolTCP k) (rules_of azlb')"
    and "has_key udp k \<Longrightarrow> list_ex (claims TransportProtocolUDP k) (rules_of azlb')"
    and "prefix (filter untouched (rules_of azlb)) (filter untouched (rules_of azlb'))"
    and "azlb' = azlb\<lparr>al_LoadBalancingRules := al_LoadBalancingRules azlb'\<rparr>"
proof -
  let ?T = TransportProtocolTCP and ?U = TransportProtocolUDP and ?old = "rules_of azlb"
  let ?kept = "fst (fst (remainConstantRules ?old tcp udp))"
  let ?t = "unclaimed ?T ?old tcp" and ?u = "unclaimed ?U ?old udp"
  let ?new = "?kept @ added_rules azlb ?T ?t @ added_rules azlb ?U ?u"
  have maps: "snd (remainConstantRules ?old tcp udp) = (?t, ?u)" by (rule remain_maps)
  have res: "rules_of azlb' = ?new \<and> azlb' = azlb\<lparr>al_LoadBalancingRules := al_LoadBalancingRules azlb'\<rparr>"
  proof (cases diff)
    case True
    then show ?thesis
      using run maps by (auto simp: makeUpRules_def rules_of_def Let_def split: prod.splits)
  next
    case False
    then have "azlb' = azlb" "?t = []" "?u = []" "\<not> snd (fst (remainConstantRules ?old tcp udp))"
      using run maps by (auto simp: makeUpRules_def rules_of_def Let_def split: prod.splits)
    then show ?thesis using remain_same [of ?old tcp udp] by (simp add: added_rules_def List.map_filter_simps)
  qed
  have kept: "good_rules tcp udp ?kept" "set ?kept \<subseteq> set ?old" "filter untouched ?kept = filter untouched ?old"
    using remain_good remain_kept [of ?old tcp udp] by blast+
  show "good_rules tcp udp (rules_of azlb')"
    using good_append_added [OF ready tcp udp kept(1,2)] res by simp
  show "prefix (filter untouched ?old) (filter untouched (rules_of azlb'))"
    using kept(3) res by simp
  show "azlb' = azlb\<lparr>al_LoadBalancingRules := al_LoadBalancingRules azlb'\<rparr>" using res by simp
  have served: "list_ex (claims p k) (rules_of azlb')"
    if p: "p = ?T \<and> m = tcp \<and> m' = ?t \<or> p = ?U \<and> m = udp \<and> m' = ?u" and k: "has_key m k" for p m m'
  proof (cases "list_ex (claims p k) ?old")
    case True
    have "list_ex (claims p k) ?kept"
      by (rule remain_claims [OF True]) (use p k in \<open>auto simp: proto_map_def protocols_differ [symmetric]\<close>)
    then show ?thesis using res by simp
  next
    case False
    with p k obtain v where v: "(k, v) \<in> set m'" by (auto simp: unclaimed_def has_key_def)
    have "\<forall>k \<in> fst ` set m'. \<exists>q::int32. k = port_string q"
      using p tcp udp by (auto simp: canonical_ports_def unclaimed_def)
    from added_claims [OF ready this v, of p] p res show ?thesis by auto
  qed
  show "has_key tcp k \<Longrightarrow> list_ex (claims ?T k) (rules_of azlb')" using served [of ?T tcp ?t] by blast
  show "has_key udp k \<Longrightarrow> list_ex (claims ?U k) (rules_of azlb')" using served [of ?U udp ?u] by blast
qed

lemma makeUpRules_good:
  assumes "good_rules tcp udp (rules_of azlb)"
    "\<And>k. has_key tcp k \<Longrightarrow> list_ex (claims TransportProtocolTCP k) (rules_of azlb)"
    "\<And>k. has_key udp k \<Longrightarrow> list_ex (claims TransportProtocolUDP k) (rules_of azlb)"
  shows "makeUpRules azlb tcp udp = (azlb, False)"
proof -
  have "remainConstantRules (rules_of azlb) tcp udp = ((rules_of azlb, False), [], [])"
    using good_remain [OF assms(1)] remain_maps [of "rules_of azlb" tcp udp]
      unclaimed_empty [OF assms(2)] unclaimed_empty [OF assms(3)] by (metis prod.collapse)
  then show ?thesis by (simp add: makeUpRules_def rules_of_def Let_def)
qed


text \<open>A load balancer with the default probes, and one rule that no config map asks for.\<close>

definition example_rule :: "int32 \<Rightarrow> string \<Rightarrow> az_rule" where
  "example_rule port protocol =
     \<lparr> lr_Name = Some (getRuleName port protocol), lr_ID = None, lr_FrontendIPConfiguration = Some (Some ''f''),
       lr_BackendAddressPool = Some (Some ''b''), lr_Probe = Some (Some ''p''), lr_Protocol = protocol,
       lr_LoadDistribution = ''SourceIPProtocol'', lr_FrontendPort = Some port, lr_BackendPort = Some port,
       lr_IdleTimeoutInMinutes = Some 4, lr_EnableFloatingIP = Some False, lr_DisableOutboundSnat = Some False \<rparr>"

definition example_azlb :: az_lb where
  "example_azlb =
     \<lparr> al_Name = Some ''lb'', al_Location = None, al_Sku = None,
       al_FrontendIPConfigurations = Some [\<lparr> fe_Name = Some ''front'', fe_ID = Some ''f'', fe_Properties = None \<rparr>],
       al_BackendAddressPools = Some [\<lparr> pl_Name = Some ''back'', pl_ID = Some ''b'', pl_BackendIPConfigurations = None \<rparr>],
       al_LoadBalancingRules = Some [example_rule 80 TransportProtocolTCP, example_rule 9000 TransportProtocolTCP],
       al_Probes = Some defaultClusterAzureLBProbes, al_ProvisioningState = None \<rparr>"

lemma canonical_single [simp]: "canonical_ports [(port_string p, v)]" "canonical_ports []"
  by (auto simp: canonical_ports_def)


lemma noncanonical_kept:
  assumes "has_key m k" "\<forall>p::int32. k \<noteq> port_string p"
  shows "unclaimed protocol rules m \<noteq> []"
proof -
  have "\<not> claims protocol k r" for r using assms(2) by (auto simp: claims_def rule_key_def)
  then show ?thesis using assms(1) by (force simp: unclaimed_def filter_empty_conv has_key_def list_ex_iff)
qed


lemma port_string_hd: "hd (port_string p) \<noteq> CHR ''h''"
proof (cases "sint p < 0")
  case True
  then show ?thesis by (simp add: port_string_def itoa_def)
next
  case False
  obtain d where "d < 10" "hd (nat_str (nat (sint p))) = digit_char d" using hd_nat_str by blast
  moreover have "digit_char d \<noteq> CHR ''h''" if "d < 10" for d
    using of_char_digit [OF that] that by (auto dest: arg_cong [where f = "of_char :: char \<Rightarrow> nat"])
  ultimately show ?thesis using False by (simp add: port_string_def itoa_def)
qed


end
