(* ===== verification/AzureSecurity.thy ===== *)
theory AzureSecurity
  imports AzureIds AzureRules
begin

text \<open>
  \<open>providers/azure/loadbalancer.go\<close>, the security groups: for a load balancer with a public
  address, the groups of the network interfaces behind it must let its ports in. The rules the
  provider generates are told from the users' rules by a prefix of their name; a generated rule has
  one fixed form, and priorities are given out so that no two rules share one.
\<close>

section \<open>Rules\<close>

definition maxSecurityGroupPriority :: int where "maxSecurityGroupPriority = 4096"
definition defaultSecurityGroupPriorityStart :: int where "defaultSecurityGroupPriorityStart = 1000"
definition defaultSecurityGroupPriorityIncrease :: int where "defaultSecurityGroupPriorityIncrease = 10"
definition securityGroupTCPPrefix :: string where "securityGroupTCPPrefix = ''cps-lb-tcp-''"
definition securityGroupUDPPrefix :: string where "securityGroupUDPPrefix = ''cps-lb-udp-''"

definition getDefaultSecurityGroupRule :: "string \<Rightarrow> string \<Rightarrow> int option \<Rightarrow> az_security_rule" where
  "getDefaultSecurityGroupRule pfx port priority =
     \<lparr> sr_Name = Some (pfx @ port),
       sr_ID = None,
       sr_Description = Some ''use for cps'',
       sr_Protocol = (if pfx = securityGroupUDPPrefix then ''Udp'' else ''Tcp''),
       sr_SourcePortRange = Some ''*'',
       sr_DestinationPortRange = Some port,
       sr_SourceAddressPrefix = Some ''*'',
       sr_DestinationAddressPrefix = Some ''*'',
       sr_Access = ''Allow'',
       sr_Priority = priority,
       sr_Direction = ''Inbound'' \<rparr>"

definition getSecurityGroupRuleBrief :: "az_security_rule \<Rightarrow> az_security_rule" where
  "getSecurityGroupRuleBrief rule = rule\<lparr>sr_ID := None\<rparr>"

definition copySecurityGroup :: "az_security_rule \<Rightarrow> az_security_rule \<Rightarrow> az_security_rule" where
  "copySecurityGroup dst src =
     dst\<lparr>sr_Name := sr_Name src,
         sr_Description := sr_Description src,
         sr_Protocol := sr_Protocol src,
         sr_SourcePortRange := sr_SourcePortRange src,
         sr_DestinationPortRange := sr_DestinationPortRange src,
         sr_SourceAddressPrefix := sr_SourceAddressPrefix src,
         sr_DestinationAddressPrefix := sr_DestinationAddressPrefix src,
         sr_Access := sr_Access src,
         sr_Priority := sr_Priority src,
         sr_Direction := sr_Direction src\<rparr>"

text \<open>Whether the rule had to be changed, and the rule.\<close>

definition ensureSettingDefaultRules :: "az_security_rule \<Rightarrow> string \<Rightarrow> bool \<times> az_security_rule" where
  "ensureSettingDefaultRules rule pfx =
     (let defaultRule = getDefaultSecurityGroupRule pfx (to_String (sr_DestinationPortRange rule)) (sr_Priority rule)
      in if defaultRule = getSecurityGroupRuleBrief rule then (False, rule)
         else (True, copySecurityGroup rule defaultRule))"

text \<open>
  \<open>ensureSyncWithDefaultSetting\<close>: whether something is modified, whether the rule stays, the rule,
  and the two maps, without the port that the rule serves.
\<close>

type_synonym default_result = "(bool \<times> bool) \<times> az_security_rule \<times> gomap \<times> gomap"

definition ensureSyncWithDefaultSetting :: "az_security_rule \<Rightarrow> gomap \<Rightarrow> gomap \<Rightarrow> default_result" where
  "ensureSyncWithDefaultSetting rule tcp udp =
     (let name = to_String (sr_Name rule); port = to_String (sr_DestinationPortRange rule) in
      if has_prefix name securityGroupTCPPrefix
      then (if map_of tcp port = None then ((True, False), rule, tcp, udp)
            else case ensureSettingDefaultRules rule securityGroupTCPPrefix of
                (change, rule') \<Rightarrow> ((change, True), rule', AList.delete port tcp, udp))
      else if has_prefix name securityGroupUDPPrefix
      then (if map_of udp port = None then ((True, False), rule, tcp, udp)
            else case ensureSettingDefaultRules rule securityGroupUDPPrefix of
                (change, rule') \<Rightarrow> ((change, True), rule', tcp, AList.delete port udp))
      else ((False, True), rule, tcp, udp))"

section \<open>Priorities\<close>

function priority_loop :: "int list \<Rightarrow> int \<Rightarrow> int option" where
  "priority_loop used priority =
     (if priority > maxSecurityGroupPriority then None
      else if priority \<notin> set used then Some priority
      else priority_loop used (priority + defaultSecurityGroupPriorityIncrease))"
  by auto
termination
  by (relation "measure (\<lambda>(used, p). nat (maxSecurityGroupPriority + 1 - p))")
    (auto simp: defaultSecurityGroupPriorityIncrease_def)

declare priority_loop.simps [simp del]

text \<open>A priority that became free is used first; the map \<open>del\<close> loses it.\<close>

definition getValidPriority :: "range_order \<Rightarrow> int list \<Rightarrow> int list \<Rightarrow> (go_error + int) \<times> int list" where
  "getValidPriority ord used del =
     (case ro_ints ord del of
        pri # _ \<Rightarrow> (Inr pri, removeAll pri del)
      | [] \<Rightarrow>
          (case priority_loop used defaultSecurityGroupPriorityStart of
             None \<Rightarrow> (Inl (Errorf ''get valid priority failed, suggest to delete useless rule from cps''), del)
           | Some priority \<Rightarrow> (Inr priority, del)))"

section \<open>The rules of one group\<close>

text \<open>The first loop: the rules that stay, the used and the freed priorities, and the two maps.\<close>

record sync_state =
  ss_new :: "az_security_rule list"
  ss_used :: "int list"
  ss_del :: "int list"
  ss_change :: bool

definition sync_rule ::
  "az_security_rule \<Rightarrow> sync_state \<times> gomap \<times> gomap \<Rightarrow> sync_state \<times> gomap \<times> gomap" where
  "sync_rule rule s =
     (case s of (st, tcp, udp) \<Rightarrow>
       (case ensureSyncWithDefaultSetting rule tcp udp of
          ((modify, remain), rule', tcp', udp') \<Rightarrow>
            let st1 = (if remain
                  then st\<lparr>ss_new := ss_new st @ [rule'], ss_used := set_add (to_Int (sr_Priority rule')) (ss_used st)\<rparr>
                  else st\<lparr>ss_del := set_add (to_Int (sr_Priority rule')) (ss_del st)\<rparr>)
            in ((if modify then st1\<lparr>ss_change := True\<rparr> else st1), tcp', udp')))"

text \<open>The loops over the ports that are left.\<close>

fun add_port_rules ::
  "range_order \<Rightarrow> string \<Rightarrow> string list \<Rightarrow> sync_state \<Rightarrow> go_error + sync_state" where
  "add_port_rules ord pfx [] st = Inr st"
| "add_port_rules ord pfx (port # ports) st =
     (case getValidPriority ord (ss_used st) (ss_del st) of
        (Inl e, del) \<Rightarrow> Inl e
      | (Inr priority, del) \<Rightarrow>
          add_port_rules ord pfx ports
            (st\<lparr>ss_new := ss_new st @ [getDefaultSecurityGroupRule pfx port (Some priority)],
                ss_used := set_add priority (ss_used st), ss_del := del\<rparr>))"

text \<open>The new rules of a group, whether they differ, and what is left of the maps.\<close>

definition group_plan ::
  "range_order \<Rightarrow> az_security_rule list \<Rightarrow> gomap \<Rightarrow> gomap
   \<Rightarrow> (go_error + az_security_rule list \<times> bool) \<times> gomap \<times> gomap" where
  "group_plan ord rules tcp udp =
     (case fold sync_rule rules (\<lparr> ss_new = [], ss_used = [], ss_del = [], ss_change = False \<rparr>, tcp, udp) of
        (st, tcp', udp') \<Rightarrow>
          let st1 = (if udp' \<noteq> [] \<or> tcp' \<noteq> [] then st\<lparr>ss_change := True\<rparr> else st)
          in ((case add_port_rules ord securityGroupUDPPrefix (map fst udp') st1 of
                 Inl e \<Rightarrow> Inl e
               | Inr st2 \<Rightarrow>
                   (case add_port_rules ord securityGroupTCPPrefix (map fst tcp') st2 of
                      Inl e \<Rightarrow> Inl e
                    | Inr st3 \<Rightarrow> Inr (ss_new st3, ss_change st3))), tcp', udp'))"

section \<open>The groups\<close>

text \<open>The state of the loop over the groups: the service and the two maps, which all groups share.\<close>

type_synonym 'w sg_state = "'w \<times> gomap \<times> gomap"

definition on_cloud :: "('w, go_error, 'a) prog \<Rightarrow> ('w sg_state, go_error, 'a) prog" where
  "on_cloud m s = (case m (fst s) of (r, w) \<Rightarrow> (r, (w, snd s)))"

definition sync_group ::
  "range_order \<Rightarrow> 'w az_client \<Rightarrow> string \<Rightarrow> ('w sg_state, go_error, unit) prog" where
  "sync_group ord c sgID =
     (case getGroupAndResourceNameFromID sgID azureSecurityGroups of
        Inl e \<Rightarrow> throwE e
      | Inr (groupName, name) \<Rightarrow>
          seqE (on_cloud (cl_sg_Get c groupName name)) (\<lambda>sg.
            case sg_SecurityRules sg of
              None \<Rightarrow> throwE (Panic (NilDereference ''sg.SecurityRules''))
            | Some rules \<Rightarrow> (\<lambda>s.
                (case group_plan ord rules (fst (snd s)) (snd (snd s)) of
                   (Inl e, ms) \<Rightarrow> (Inl e, (fst s, ms))
                 | (Inr (newRules, change), ms) \<Rightarrow>
                     (if change
                      then seqE (on_cloud (cl_sg_CreateOrUpdate c groupName name
                                  (sg\<lparr>sg_SecurityRules := Some newRules\<rparr>))) (\<lambda>_. retE ()) (fst s, ms)
                      else (Inr (), (fst s, ms)))))))"

definition ensureSyncRulesToSecurityGroups ::
  "range_order \<Rightarrow> 'w az_client \<Rightarrow> string list \<Rightarrow> ('w sg_state, go_error, unit) prog" where
  "ensureSyncRulesToSecurityGroups ord c sgIDs = forE (ro_strings ord sgIDs) (sync_group ord c)"

definition generated :: "az_security_rule \<Rightarrow> bool" where
  "generated rule \<longleftrightarrow> has_prefix (to_String (sr_Name rule)) securityGroupTCPPrefix
     \<or> has_prefix (to_String (sr_Name rule)) securityGroupUDPPrefix"

definition clean_group :: "'w az_client \<Rightarrow> string \<Rightarrow> ('w, go_error, unit) prog" where
  "clean_group c sgID =
     (case getGroupAndResourceNameFromID sgID azureSecurityGroups of
        Inl e \<Rightarrow> throwE e
      | Inr (groupName, name) \<Rightarrow>
          seqE (cl_sg_Get c groupName name) (\<lambda>sg.
            let rules = elems (sg_SecurityRules sg); newRules = filter (\<lambda>r. \<not> generated r) rules
            in if list_ex generated rules
               then seqE (cl_sg_CreateOrUpdate c groupName name (sg\<lparr>sg_SecurityRules := Some newRules\<rparr>))
                      (\<lambda>_. retE ())
               else retE ()))"

definition deleteUselessSecurityRules ::
  "range_order \<Rightarrow> 'w az_client \<Rightarrow> string list \<Rightarrow> ('w, go_error, unit) prog" where
  "deleteUselessSecurityRules ord c sgIDs = forE (ro_strings ord sgIDs) (clean_group c)"

definition getSecurityGroupIDFromNetWork :: "'w az_client \<Rightarrow> string \<Rightarrow> ('w, go_error, string) prog" where
  "getSecurityGroupIDFromNetWork c network =
     (case getGroupAndResourceNameFromID network azureNetworkInterfaces of
        Inl e \<Rightarrow> throwE e
      | Inr (groupName, name) \<Rightarrow>
          seqE (cl_nic_Get c groupName name) (\<lambda>net.
            case ni_SecurityGroup net of
              None \<Rightarrow> throwE (Errorf (''network '' @ network @ '' has no network security group''))
            | Some sgid \<Rightarrow> retE (to_String sgid)))"

fun groups_of_networks ::
  "'w az_client \<Rightarrow> string list \<Rightarrow> string list \<Rightarrow> ('w, go_error, string list) prog" where
  "groups_of_networks c [] sgs = retE sgs"
| "groups_of_networks c (network # networks) sgs =
     seqE (getSecurityGroupIDFromNetWork c network) (\<lambda>sg. groups_of_networks c networks (set_add sg sgs))"

text \<open>The groups to clean and the groups to sync; a group of both is synced.\<close>

definition getSuitableSecurityGroup ::
  "range_order \<Rightarrow> 'w az_client \<Rightarrow> string list \<Rightarrow> string list
   \<Rightarrow> ('w, go_error, string list \<times> string list) prog" where
  "getSuitableSecurityGroup ord c detachs networks =
     seqE (groups_of_networks c detachs []) (\<lambda>deleteSg.
     seqE (groups_of_networks c (ro_strings ord networks) []) (\<lambda>syncSg.
       retE (filter (\<lambda>k. k \<notin> set syncSg) deleteSg, syncSg)))"

definition syncSecurityGroupRules ::
  "range_order \<Rightarrow> 'w az_client \<Rightarrow> gomap \<Rightarrow> gomap \<Rightarrow> string list \<Rightarrow> string list \<Rightarrow> ('w, go_error, unit) prog" where
  "syncSecurityGroupRules ord c tcp udp detachs networks =
     seqE (getSuitableSecurityGroup ord c detachs networks) (\<lambda>(deleteSg, syncSg).
     seqE (deleteUselessSecurityRules ord c deleteSg) (\<lambda>_ w.
       (case ensureSyncRulesToSecurityGroups ord c syncSg (w, tcp, udp) of (r, s) \<Rightarrow> (r, fst s))))"

section \<open>The plan of a group: invariant of the loop\<close>

definition port_names :: "gomap \<Rightarrow> gomap \<Rightarrow> string set" where
  "port_names tcp udp = (@) securityGroupTCPPrefix ` fst ` set tcp \<union> (@) securityGroupUDPPrefix ` fst ` set udp"

definition keys_ok :: "gomap \<Rightarrow> gomap \<Rightarrow> bool" where
  "keys_ok tcp udp \<longleftrightarrow> distinct (map fst tcp) \<and> distinct (map fst udp)"

definition kind :: "az_security_rule \<Rightarrow> string option" where
  "kind r = (if has_prefix (to_String (sr_Name r)) securityGroupTCPPrefix then Some securityGroupTCPPrefix
             else if has_prefix (to_String (sr_Name r)) securityGroupUDPPrefix then Some securityGroupUDPPrefix
             else None)"

definition default_form :: "string \<Rightarrow> az_security_rule \<Rightarrow> bool" where
  "default_form pfx r \<longleftrightarrow>
     getSecurityGroupRuleBrief r
       = getDefaultSecurityGroupRule pfx (to_String (sr_DestinationPortRange r)) (sr_Priority r)"

definition gen_names :: "az_security_rule list \<Rightarrow> string list" where
  "gen_names rules = map (\<lambda>r. to_String (sr_Name r)) (filter generated rules)"

definition prio :: "az_security_rule \<Rightarrow> int" where
  "prio r = to_Int (sr_Priority r)"

lemma prefixes_apart [simp]:
  "securityGroupTCPPrefix @ a \<noteq> securityGroupUDPPrefix @ b"
  "securityGroupUDPPrefix @ a \<noteq> securityGroupTCPPrefix @ b"
  "securityGroupTCPPrefix \<noteq> securityGroupUDPPrefix" "securityGroupUDPPrefix \<noteq> securityGroupTCPPrefix"
  by (simp_all add: securityGroupTCPPrefix_def securityGroupUDPPrefix_def)

lemma not_both_prefixes: "has_prefix n securityGroupTCPPrefix \<Longrightarrow> \<not> has_prefix n securityGroupUDPPrefix"
  by (auto simp: has_prefix_iff)

lemma kind_Some: "kind r = Some p \<Longrightarrow> generated r \<and> p \<in> {securityGroupTCPPrefix, securityGroupUDPPrefix}"
  by (auto simp: kind_def generated_def split: if_splits)

lemma kind_None: "kind r = None \<longleftrightarrow> \<not> generated r"
  by (auto simp: kind_def generated_def)

lemma gen_names_simps [simp]:
  "gen_names [] = []" "gen_names (xs @ ys) = gen_names xs @ gen_names ys"
  "gen_names (r # rs) = (if generated r then to_String (sr_Name r) # gen_names rs else gen_names rs)"
  by (simp_all add: gen_names_def)

lemma default_form_name:
  "default_form p r \<Longrightarrow> to_String (sr_Name r) = p @ to_String (sr_DestinationPortRange r)"
  by (auto simp: default_form_def getSecurityGroupRuleBrief_def getDefaultSecurityGroupRule_def
      dest: arg_cong [where f = sr_Name])

lemma default_form_generated:
  "default_form p r \<Longrightarrow> p \<in> {securityGroupTCPPrefix, securityGroupUDPPrefix} \<Longrightarrow> kind r = Some p \<and> generated r"
  using default_form_name [of p r] not_both_prefixes
  by (auto simp: generated_def kind_def dest: not_both_prefixes)

lemma default_rule_form [simp]:
  "default_form pfx (getDefaultSecurityGroupRule pfx port priority)"
  "to_String (sr_Name (getDefaultSecurityGroupRule pfx port priority)) = pfx @ port"
  "prio (getDefaultSecurityGroupRule pfx port (Some q)) = q"
  by (simp_all add: default_form_def getSecurityGroupRuleBrief_def getDefaultSecurityGroupRule_def prio_def)

lemma default_rule_generated:
  "pfx \<in> {securityGroupTCPPrefix, securityGroupUDPPrefix} \<Longrightarrow>
     generated (getDefaultSecurityGroupRule pfx port priority)"
  using default_form_generated default_rule_form(1) by blast

lemma ensureSetting:
  assumes "ensureSettingDefaultRules r p = (ch, r')"
  shows "default_form p r' \<and> sr_Priority r' = sr_Priority r
    \<and> to_String (sr_DestinationPortRange r') = to_String (sr_DestinationPortRange r)
    \<and> (ch \<longleftrightarrow> \<not> default_form p r) \<and> (\<not> ch \<longrightarrow> r' = r)"
  using assms
  by (auto simp: ensureSettingDefaultRules_def Let_def default_form_def copySecurityGroup_def
      getSecurityGroupRuleBrief_def getDefaultSecurityGroupRule_def split: if_splits)

lemma port_names_delete:
  "port_names (AList.delete k tcp) udp = port_names tcp udp - {securityGroupTCPPrefix @ k}"
  "port_names tcp (AList.delete k udp) = port_names tcp udp - {securityGroupUDPPrefix @ k}"
  by (auto simp: port_names_def)

lemma in_port_names [simp]:
  "securityGroupTCPPrefix @ k \<in> port_names tcp udp \<longleftrightarrow> map_of tcp k \<noteq> None"
  "securityGroupUDPPrefix @ k \<in> port_names tcp udp \<longleftrightarrow> map_of udp k \<noteq> None"
  by (auto simp: port_names_def image_iff map_of_eq_None_iff dest!: map_of_SomeD)

text \<open>One rule, by what it is.\<close>

lemma setting_foreign: "\<not> generated r \<Longrightarrow> ensureSyncWithDefaultSetting r tcp udp = ((False, True), r, tcp, udp)"
  by (simp add: ensureSyncWithDefaultSetting_def generated_def Let_def)

lemma setting_dropped:
  "kind r = Some p \<Longrightarrow> p @ to_String (sr_DestinationPortRange r) \<notin> port_names tcp udp \<Longrightarrow>
     ensureSyncWithDefaultSetting r tcp udp = ((True, False), r, tcp, udp)"
  by (auto simp: ensureSyncWithDefaultSetting_def kind_def Let_def split: if_splits)

lemma setting_kept:
  assumes "kind r = Some p" "p @ to_String (sr_DestinationPortRange r) \<in> port_names tcp udp"
  obtains ch r' tcp' udp' where "ensureSyncWithDefaultSetting r tcp udp = ((ch, True), r', tcp', udp')"
    "default_form p r'" "sr_Priority r' = sr_Priority r"
    "to_String (sr_DestinationPortRange r') = to_String (sr_DestinationPortRange r)"
    "ch \<longleftrightarrow> \<not> default_form p r" "\<not> ch \<longrightarrow> r' = r"
    "port_names tcp' udp' = port_names tcp udp - {p @ to_String (sr_DestinationPortRange r)}"
    "keys_ok tcp udp \<longrightarrow> keys_ok tcp' udp'"
proof -
  let ?port = "to_String (sr_DestinationPortRange r)"
  obtain ch r' where set: "ensureSettingDefaultRules r p = (ch, r')" by fastforce
  note e = ensureSetting [OF set]
  from assms(1) consider "p = securityGroupTCPPrefix" "has_prefix (to_String (sr_Name r)) securityGroupTCPPrefix"
    | "p = securityGroupUDPPrefix" "\<not> has_prefix (to_String (sr_Name r)) securityGroupTCPPrefix"
      "has_prefix (to_String (sr_Name r)) securityGroupUDPPrefix"
    by (auto simp: kind_def split: if_splits)
  then show ?thesis
  proof cases
    case 1
    have "ensureSyncWithDefaultSetting r tcp udp = ((ch, True), r', AList.delete ?port tcp, udp)"
      using 1 assms(2) set by (simp add: ensureSyncWithDefaultSetting_def Let_def)
    then show ?thesis
      by (rule that) (use e 1 in \<open>auto simp: port_names_delete keys_ok_def distinct_delete\<close>)
  next
    case 2
    have "ensureSyncWithDefaultSetting r tcp udp = ((ch, True), r', tcp, AList.delete ?port udp)"
      using 2 assms(2) set by (simp add: ensureSyncWithDefaultSetting_def Let_def)
    then show ?thesis
      by (rule that) (use e 2 in \<open>auto simp: port_names_delete keys_ok_def distinct_delete\<close>)
  qed
qed

text \<open>The state after the rules \<open>done\<close>, for the maps the group started with.\<close>

definition default_rules :: "az_security_rule list \<Rightarrow> bool" where
  "default_rules rules \<longleftrightarrow> (\<forall>r \<in> set rules. generated r \<longrightarrow> (\<exists>p. kind r = Some p \<and> default_form p r))"

definition names_inv :: "gomap \<Rightarrow> gomap \<Rightarrow> az_security_rule list \<Rightarrow> sync_state \<times> gomap \<times> gomap \<Rightarrow> bool" where
  "names_inv tcp udp done s \<longleftrightarrow> (case s of (st, tcp', udp') \<Rightarrow>
     filter (\<lambda>r. \<not> generated r) (ss_new st) = filter (\<lambda>r. \<not> generated r) done
     \<and> default_rules (ss_new st) \<and> distinct (gen_names (ss_new st))
     \<and> set (gen_names (ss_new st)) = port_names tcp udp - port_names tcp' udp'
     \<and> port_names tcp' udp' \<subseteq> port_names tcp udp \<and> keys_ok tcp' udp'
     \<and> (\<not> ss_change st \<longrightarrow> ss_new st = done))"

definition prio_inv :: "az_security_rule list \<Rightarrow> sync_state \<Rightarrow> bool" where
  "prio_inv done st \<longleftrightarrow> set (ss_used st) = prio ` set (ss_new st) \<and> distinct (map prio (ss_new st))
     \<and> set (ss_del st) \<inter> set (ss_used st) = {} \<and> set (ss_del st) \<union> set (ss_used st) \<subseteq> prio ` set done"

definition start_state :: sync_state where
  "start_state = \<lparr> ss_new = [], ss_used = [], ss_del = [], ss_change = False \<rparr>"

lemma sync_rule_apply:
  "sync_rule r (st, t, u) =
     (case ensureSyncWithDefaultSetting r t u of
        ((modify, remain), rule', tcp', udp') \<Rightarrow>
          let st1 = (if remain
                then st\<lparr>ss_new := ss_new st @ [rule'], ss_used := set_add (to_Int (sr_Priority rule')) (ss_used st)\<rparr>
                else st\<lparr>ss_del := set_add (to_Int (sr_Priority rule')) (ss_del st)\<rparr>)
          in ((if modify then st1\<lparr>ss_change := True\<rparr> else st1), tcp', udp'))"
  by (simp add: sync_rule_def)

lemma names_inv_step:
  assumes inv: "names_inv tcp udp done s"
  shows "names_inv tcp udp (done @ [r]) (sync_rule r s)"
proof -
  obtain st tcp' udp' where s: "s = (st, tcp', udp')" by (cases s)
  show ?thesis
  proof (cases "kind r")
    case None
    then have "\<not> generated r" by (simp add: kind_None)
    then show ?thesis
      using inv by (auto simp: s names_inv_def sync_rule_def setting_foreign default_rules_def Let_def)
  next
    case (Some p)
    let ?nm = "p @ to_String (sr_DestinationPortRange r)"
    have gen: "generated r" and p: "p \<in> {securityGroupTCPPrefix, securityGroupUDPPrefix}"
      using kind_Some [OF Some] by auto
    show ?thesis
    proof (cases "?nm \<in> port_names tcp' udp'")
      case False
      then show ?thesis using inv gen
        by (auto simp: s names_inv_def sync_rule_def setting_dropped [OF Some] default_rules_def Let_def)
    next
      case True
      obtain ch r' tcp'' udp'' where k:
        "ensureSyncWithDefaultSetting r tcp' udp' = ((ch, True), r', tcp'', udp'')"
        "default_form p r'" "to_String (sr_DestinationPortRange r') = to_String (sr_DestinationPortRange r)"
        "\<not> ch \<longrightarrow> r' = r" "port_names tcp'' udp'' = port_names tcp' udp' - {?nm}"
        "keys_ok tcp' udp' \<longrightarrow> keys_ok tcp'' udp''"
        by (rule setting_kept [OF Some True]) blast
      have r': "kind r' = Some p" "generated r'" using default_form_generated [OF k(2) p] by auto
      have nm: "to_String (sr_Name r') = ?nm" using default_form_name [OF k(2)] k(3) by simp
      show ?thesis using inv True k r' nm gen
        by (auto simp: s names_inv_def sync_rule_def default_rules_def Let_def)
    qed
  qed
qed

lemma prio_inv_step:
  assumes inv: "prio_inv done (fst s)" and new: "prio r \<notin> prio ` set done"
  shows "prio_inv (done @ [r]) (fst (sync_rule r s))"
proof -
  obtain st tcp' udp' where s: "s = (st, tcp', udp')" by (cases s)
  obtain md rm r' tcp'' udp'' where
    e: "ensureSyncWithDefaultSetting r tcp' udp' = ((md, rm), r', tcp'', udp'')" by (metis prod.collapse)
  have "sr_Priority r' = sr_Priority r"
  proof (cases "kind r")
    case None
    then show ?thesis using e setting_foreign [of r] by (simp add: kind_None)
  next
    case (Some p)
    show ?thesis
    proof (cases "p @ to_String (sr_DestinationPortRange r) \<in> port_names tcp' udp'")
      case True
      then show ?thesis using e by (auto elim: setting_kept [OF Some])
    qed (use e setting_dropped [OF Some] in auto)
  qed
  then have pr: "prio r' = prio r" by (simp add: prio_def)
  have "prio ` set (ss_new st) \<union> set (ss_del st) \<subseteq> prio ` set done"
    using inv unfolding s prio_inv_def fst_conv by (metis Un_commute)
  then have "prio r \<notin> prio ` set (ss_new st)" "prio r \<notin> set (ss_del st)" using new by blast+
  moreover have "prio_inv (done @ [r]) (st\<lparr>ss_new := ss_new st @ [r'], ss_used := set_add (prio r') (ss_used st)\<rparr>)"
    "prio_inv (done @ [r]) (st\<lparr>ss_del := set_add (prio r') (ss_del st)\<rparr>)"
    using inv pr calculation unfolding s prio_inv_def fst_conv
    by (simp_all add: subset_insertI2) (metis subset_insertI2)+
  moreover have "prio_inv (done @ [r]) (x\<lparr>ss_change := True\<rparr>) = prio_inv (done @ [r]) x" for x
    by (simp add: prio_inv_def)
  ultimately show ?thesis using e
    by (simp add: s sync_rule_apply Let_def flip: prio_def)
qed

lemma fold_inv:
  assumes "keys_ok tcp udp"
  shows "names_inv tcp udp rules (fold sync_rule rules (start_state, tcp, udp))
    \<and> (distinct (map prio rules) \<longrightarrow> prio_inv rules (fst (fold sync_rule rules (start_state, tcp, udp))))"
proof (induction rules rule: rev_induct)
  case Nil
  then show ?case
    using assms by (simp add: names_inv_def prio_inv_def start_state_def default_rules_def)
next
  case (snoc r rules)
  then show ?case by (auto intro: names_inv_step prio_inv_step)
qed

section \<open>The plan of a group: adding rules\<close>

lemma priority_loop_Some:
  "priority_loop used p = Some q \<Longrightarrow> q \<notin> set used \<and> p \<le> q \<and> q \<le> maxSecurityGroupPriority"
proof (induction used p rule: priority_loop.induct)
  case (1 used p)
  from "1.prems" show ?case
    by (subst (asm) priority_loop.simps)
      (auto simp: defaultSecurityGroupPriorityIncrease_def dest!: "1.IH" split: if_splits)
qed

lemma priority_loop_None:
  "priority_loop used p = None \<Longrightarrow> p + 10 * int n \<le> maxSecurityGroupPriority \<Longrightarrow> p + 10 * int n \<in> set used"
proof (induction n arbitrary: p)
  case 0
  then show ?case by (subst (asm) priority_loop.simps) (auto split: if_splits)
next
  case (Suc n)
  then have "priority_loop used (p + 10) = None"
    by (subst (asm) (1) priority_loop.simps)
      (auto simp: defaultSecurityGroupPriorityIncrease_def split: if_splits)
  from Suc.IH [OF this] Suc.prems(2) show ?case by (simp add: algebra_simps)
qed

lemma getValidPriority_ok:
  assumes "range_ok ord" "getValidPriority ord used del = (Inr pri, del')" "set del \<inter> set used = {}"
  shows "pri \<notin> set used \<and> set del' = set del - {pri}"
proof (cases "ro_ints ord del")
  case Nil
  then have "set del = {}" using range_ints(1) [OF assms(1), of del] by simp
  then show ?thesis
    using assms(2) Nil by (auto simp: getValidPriority_def dest: priority_loop_Some split: option.splits)
next
  case (Cons q qs)
  then have "q \<in> set del" using range_ints(1) [OF assms(1), of del] by (metis list.set_intros(1))
  then show ?thesis using assms(2,3) Cons by (auto simp: getValidPriority_def)
qed

definition prio_ok :: "sync_state \<Rightarrow> bool" where
  "prio_ok st \<longleftrightarrow> set (ss_used st) = prio ` set (ss_new st) \<and> distinct (map prio (ss_new st))
     \<and> set (ss_del st) \<inter> set (ss_used st) = {}"

lemma add_port_rules_ok:
  assumes ord: "range_ok ord" and pfx: "pfx \<in> {securityGroupTCPPrefix, securityGroupUDPPrefix}"
  shows "add_port_rules ord pfx ports st = Inr st' \<Longrightarrow> default_rules (ss_new st) \<Longrightarrow>
    default_rules (ss_new st') \<and> gen_names (ss_new st') = gen_names (ss_new st) @ map ((@) pfx) ports
    \<and> filter (\<lambda>r. \<not> generated r) (ss_new st') = filter (\<lambda>r. \<not> generated r) (ss_new st)
    \<and> ss_change st' = ss_change st \<and> (ports = [] \<longrightarrow> st' = st)
    \<and> (prio_ok st \<longrightarrow> prio_ok st')"
proof (induction ports arbitrary: st)
  case Nil
  then show ?case by auto
next
  case (Cons port ports)
  obtain pri del where v: "getValidPriority ord (ss_used st) (ss_del st) = (Inr pri, del)"
    using Cons.prems(1) by (auto split: prod.splits sum.splits)
  let ?rule = "getDefaultSecurityGroupRule pfx port (Some pri)"
  let ?st1 = "st\<lparr>ss_new := ss_new st @ [?rule], ss_used := set_add pri (ss_used st), ss_del := del\<rparr>"
  have run: "add_port_rules ord pfx ports ?st1 = Inr st'" using Cons.prems(1) v by simp
  have gen: "generated ?rule" "kind ?rule = Some pfx"
    using default_rule_generated [OF pfx] default_form_generated [OF default_rule_form(1) pfx] by auto
  have "default_rules (ss_new ?st1)" using Cons.prems(2) gen by (auto simp: default_rules_def)
  note IH = Cons.IH [OF run this]
  have "prio_ok st \<Longrightarrow> prio_ok ?st1"
    using getValidPriority_ok [OF ord v] by (auto simp: prio_ok_def)
  with IH gen show ?case by simp
qed

section \<open>The plan of a group: result\<close>

text \<open>A group is good for two maps: its generated rules are exactly the ports' default rules.\<close>

definition good_group :: "gomap \<Rightarrow> gomap \<Rightarrow> az_security_rule list \<Rightarrow> bool" where
  "good_group tcp udp rules \<longleftrightarrow> default_rules rules \<and> distinct (gen_names rules)
     \<and> set (gen_names rules) = port_names tcp udp"

lemma port_names_Nil [simp]: "port_names tcp udp = {} \<longleftrightarrow> tcp = [] \<and> udp = []"
  by (auto simp: port_names_def)

lemma group_plan_result:
  assumes ord: "range_ok ord" and keys: "keys_ok tcp udp"
    and run: "group_plan ord rules tcp udp = (Inr (new, change), tcp', udp')"
  shows "good_group tcp udp new" "filter (\<lambda>r. \<not> generated r) new = filter (\<lambda>r. \<not> generated r) rules"
    "\<not> change \<Longrightarrow> new = rules" "distinct (map prio rules) \<Longrightarrow> distinct (map prio new)"
proof -
  obtain st t u where f: "fold sync_rule rules (start_state, tcp, udp) = (st, t, u)" by (metis prod.collapse)
  let ?st1 = "if u \<noteq> [] \<or> t \<noteq> [] then st\<lparr>ss_change := True\<rparr> else st"
  obtain st2 where s2: "add_port_rules ord securityGroupUDPPrefix (map fst u) ?st1 = Inr st2"
    using run f by (auto simp: group_plan_def start_state_def Let_def split: sum.splits)
  obtain st3 where s3: "add_port_rules ord securityGroupTCPPrefix (map fst t) st2 = Inr st3"
    using run f s2 by (auto simp: group_plan_def start_state_def Let_def split: sum.splits if_splits)
  have new: "new = ss_new st3" "change = ss_change st3"
    using run f s2 s3 by (auto simp: group_plan_def start_state_def Let_def)
  have names: "names_inv tcp udp rules (st, t, u)" using fold_inv [OF keys, of rules] f by simp
  have prio: "distinct (map prio rules) \<Longrightarrow> prio_inv rules st" using fold_inv [OF keys, of rules] f by simp
  have d1: "default_rules (ss_new ?st1)" using names by (simp add: names_inv_def)
  note a2 = add_port_rules_ok [OF ord _ s2 d1, simplified]
  note a3 = add_port_rules_ok [OF ord _ s3, simplified]
  have d2: "default_rules (ss_new st2)" using a2 by simp
  have gn: "gen_names new = gen_names (ss_new st) @ map ((@) securityGroupUDPPrefix) (map fst u)
      @ map ((@) securityGroupTCPPrefix) (map fst t)"
    using a2 a3 d2 new by simp
  have pn: "set (map ((@) securityGroupUDPPrefix) (map fst u)) \<union> set (map ((@) securityGroupTCPPrefix) (map fst t))
      = port_names t u"
    by (auto simp: port_names_def)
  have "set (gen_names new) = port_names tcp udp"
    using names pn gn by (auto simp: names_inv_def)
  moreover have "distinct (gen_names new)"
  proof -
    have "distinct (gen_names (ss_new st))" "distinct (map fst u)" "distinct (map fst t)"
        "set (gen_names (ss_new st)) \<inter> port_names t u = {}"
      using names by (auto simp: names_inv_def keys_ok_def)
    moreover have "distinct (map ((@) x) ks)" if "distinct ks" for x :: string and ks
      using that by (simp add: distinct_map inj_on_def)
    moreover have "set (map ((@) securityGroupUDPPrefix) (map fst u))
        \<inter> set (map ((@) securityGroupTCPPrefix) (map fst t)) = {}" by auto
    ultimately show ?thesis using pn unfolding gn distinct_append set_append by blast
  qed
  ultimately show "good_group tcp udp new" using a3 d2 new by (simp add: good_group_def)
  show "filter (\<lambda>r. \<not> generated r) new = filter (\<lambda>r. \<not> generated r) rules"
    using a2 a3 d2 names new by (simp add: names_inv_def split: if_splits)
  show "distinct (map prio new)" if "distinct (map prio rules)"
    using a2 a3 d2 prio [OF that] new by (auto simp: prio_inv_def prio_ok_def split: if_splits)
  show "new = rules" if "\<not> change"
  proof -
    have "ss_change st3 = ss_change ?st1" using a2 a3 d2 by simp
    then have "u = []" "t = []" "\<not> ss_change st" using that new by (auto split: if_splits)
    then show ?thesis using a2 a3 d2 names new by (simp add: names_inv_def)
  qed
qed

text \<open>On a good group the loop changes nothing and uses up both maps.\<close>

lemma fold_good:
  assumes "default_rules rules" "distinct (gen_names rules)" "set (gen_names rules) \<subseteq> port_names tcp udp"
  shows "\<exists>used t u. fold sync_rule rules (start_state, tcp, udp)
      = (\<lparr> ss_new = rules, ss_used = used, ss_del = [], ss_change = False \<rparr>, t, u)
    \<and> port_names t u = port_names tcp udp - set (gen_names rules)"
  using assms
proof (induction rules rule: rev_induct)
  case Nil
  then show ?case by (simp add: start_state_def)
next
  case (snoc r rules)
  have "default_rules rules" "distinct (gen_names rules)" "set (gen_names rules) \<subseteq> port_names tcp udp"
    using snoc.prems by (auto simp: default_rules_def split: if_splits)
  from snoc.IH [OF this] obtain used t u where f: "fold sync_rule rules (start_state, tcp, udp)
      = (\<lparr> ss_new = rules, ss_used = used, ss_del = [], ss_change = False \<rparr>, t, u)"
    and pn: "port_names t u = port_names tcp udp - set (gen_names rules)" by blast
  show ?case
  proof (cases "generated r")
    case False
    then show ?thesis using f pn by (simp add: sync_rule_apply setting_foreign Let_def)
  next
    case True
    then obtain p where p: "kind r = Some p" "default_form p r" using snoc.prems(1) by (auto simp: default_rules_def)
    have nm: "to_String (sr_Name r) = p @ to_String (sr_DestinationPortRange r)"
      using default_form_name [OF p(2)] .
    have "p @ to_String (sr_DestinationPortRange r) \<in> port_names t u"
      using snoc.prems(2,3) True nm pn by auto
    then obtain ch r' t' u' where k:
        "ensureSyncWithDefaultSetting r t u = ((ch, True), r', t', u')" "ch \<longleftrightarrow> \<not> default_form p r" "\<not> ch \<longrightarrow> r' = r"
        "port_names t' u' = port_names t u - {p @ to_String (sr_DestinationPortRange r)}"
      by (rule setting_kept [OF p(1)]) blast
    then show ?thesis using f pn p(2) True nm by (auto simp: sync_rule_apply Let_def)
  qed
qed

lemma group_plan_good:
  assumes "good_group tcp udp rules"
  shows "group_plan ord rules tcp udp = (Inr (rules, False), [], [])"
proof -
  obtain used t u where f: "fold sync_rule rules (start_state, tcp, udp)
      = (\<lparr> ss_new = rules, ss_used = used, ss_del = [], ss_change = False \<rparr>, t, u)"
    and "port_names t u = {}"
    using fold_good [of rules tcp udp] assms by (auto simp: good_group_def)
  then have "t = []" "u = []" by simp_all
  with f show ?thesis by (simp add: group_plan_def start_state_def)
qed

text \<open>With no ports left in the maps, a group loses every generated rule.\<close>

lemma group_plan_empty:
  assumes "range_ok ord" "group_plan ord rules [] [] = (Inr (new, change), tcp', udp')"
  shows "new = filter (\<lambda>r. \<not> generated r) rules"
proof -
  have k: "keys_ok [] []" by (simp add: keys_ok_def)
  have "gen_names new = []" "filter (\<lambda>r. \<not> generated r) new = filter (\<lambda>r. \<not> generated r) rules"
    using group_plan_result(1,2) [OF assms(1) k assms(2)] by (simp_all add: good_group_def port_names_def)
  then show ?thesis by (simp add: gen_names_def filter_empty_conv)
qed

section \<open>The service\<close>

text \<open>
  What the client relies on of Azure's security groups: a successful \<open>Get\<close> answers the stored group
  and changes nothing, a successful \<open>CreateOrUpdate\<close> stores the group sent, with IDs and further
  fields of Azure's own (here: up to the IDs of its rules), and leaves the other groups alone.
\<close>

definition same_rules :: "az_security_rule list \<Rightarrow> az_security_rule list \<Rightarrow> bool" where
  "same_rules rs rs' \<longleftrightarrow> map getSecurityGroupRuleBrief rs = map getSecurityGroupRuleBrief rs'"

locale sg_service =
  fixes c :: "'w az_client" and groups :: "'w \<Rightarrow> string \<times> string \<Rightarrow> az_security_rule list option"
  assumes sg_get: "cl_sg_Get c g n w = (Inr sg, w') \<Longrightarrow>
            groups w (g, n) = Some (elems (sg_SecurityRules sg)) \<and> groups w' = groups w"
    and sg_put: "cl_sg_CreateOrUpdate c g n sg w = (Inr sg', w') \<Longrightarrow>
            \<exists>rs. groups w' = (groups w)((g, n) \<mapsto> rs) \<and> same_rules rs (elems (sg_SecurityRules sg))"
begin

lemma sync_group_ok:
  assumes "sync_group ord c sgID (w, tcp, udp) = (Inr (), (w', tcp', udp'))"
  obtains g n rules new change rs where "getGroupAndResourceNameFromID sgID azureSecurityGroups = Inr (g, n)"
    "groups w (g, n) = Some rules" "group_plan ord rules tcp udp = (Inr (new, change), tcp', udp')"
    "groups w' = (groups w)((g, n) \<mapsto> rs)" "same_rules rs (if change then new else rules)"
proof -
  obtain g n where gn: "getGroupAndResourceNameFromID sgID azureSecurityGroups = Inr (g, n)"
    using assms by (auto simp: sync_group_def split: sum.splits)
  obtain sg w1 where get: "cl_sg_Get c g n w = (Inr sg, w1)"
    using assms by (auto simp: sync_group_def gn on_cloud_def seqE_def split: sum.splits prod.splits)
  obtain rules where rules: "sg_SecurityRules sg = Some rules"
    using assms by (auto simp: sync_group_def gn on_cloud_def seqE_def get split: option.splits)
  note g1 = sg_get [OF get]
  obtain new change where plan: "group_plan ord rules tcp udp = (Inr (new, change), tcp', udp')"
    and rest: "change \<Longrightarrow> \<exists>sg'. cl_sg_CreateOrUpdate c g n (sg\<lparr>sg_SecurityRules := Some new\<rparr>) w1 = (Inr sg', w')"
      "\<not> change \<Longrightarrow> w' = w1"
    using assms
    by (auto simp: sync_group_def gn on_cloud_def seqE_def get rules split: prod.splits sum.splits if_splits)
  show ?thesis
  proof (cases change)
    case True
    then obtain sg' where "cl_sg_CreateOrUpdate c g n (sg\<lparr>sg_SecurityRules := Some new\<rparr>) w1 = (Inr sg', w')"
      using rest(1) by blast
    from sg_put [OF this] g1 rules gn plan True show ?thesis by (auto intro: that)
  next
    case False
    then have "groups w' = (groups w)((g, n) \<mapsto> rules)" using rest(2) g1 rules by auto
    with False gn plan g1 rules show ?thesis by (auto intro: that simp: same_rules_def)
  qed
qed

lemma clean_group_ok:
  assumes "clean_group c sgID w = (Inr (), w')"
  obtains g n rules rs where "getGroupAndResourceNameFromID sgID azureSecurityGroups = Inr (g, n)"
    "groups w (g, n) = Some rules" "groups w' = (groups w)((g, n) \<mapsto> rs)"
    "same_rules rs (filter (\<lambda>r. \<not> generated r) rules)"
proof -
  obtain g n where gn: "getGroupAndResourceNameFromID sgID azureSecurityGroups = Inr (g, n)"
    using assms by (auto simp: clean_group_def split: sum.splits)
  obtain sg w1 where get: "cl_sg_Get c g n w = (Inr sg, w1)"
    using assms by (auto simp: clean_group_def gn seqE_def split: sum.splits prod.splits)
  note g1 = sg_get [OF get]
  let ?rules = "elems (sg_SecurityRules sg)" and ?new = "filter (\<lambda>r. \<not> generated r) (elems (sg_SecurityRules sg))"
  show ?thesis
  proof (cases "list_ex generated ?rules")
    case True
    then obtain sg' where "cl_sg_CreateOrUpdate c g n (sg\<lparr>sg_SecurityRules := Some ?new\<rparr>) w1 = (Inr sg', w')"
      using assms by (auto simp: clean_group_def gn seqE_def get Let_def split: prod.splits sum.splits)
    from sg_put [OF this] g1 gn show ?thesis by (auto intro: that)
  next
    case False
    then have "w' = w1" using assms by (simp add: clean_group_def gn seqE_def get)
    moreover have "?new = ?rules" using False by (simp add: list_ex_iff)
    ultimately show ?thesis using g1 gn by (intro that [of g n ?rules ?rules]) (auto simp: same_rules_def)
  qed
qed

end

text \<open>Being good and the users' rules survive what Azure adds.\<close>

lemma brief_eqD:
  assumes "getSecurityGroupRuleBrief r = getSecurityGroupRuleBrief r'"
  shows "sr_Name r = sr_Name r'" "sr_DestinationPortRange r = sr_DestinationPortRange r'" "sr_Priority r = sr_Priority r'"
  using assms
  by (auto simp: getSecurityGroupRuleBrief_def dest: arg_cong [where f = sr_Name]
      arg_cong [where f = sr_DestinationPortRange] arg_cong [where f = sr_Priority])

lemma same_rules_all2:
  "same_rules rs rs' \<longleftrightarrow> list_all2 (\<lambda>r r'. getSecurityGroupRuleBrief r = getSecurityGroupRuleBrief r') rs rs'"
  by (simp add: same_rules_def list_all2_map1 list_all2_map2 flip: list.rel_eq)

lemma same_rules_good:
  assumes "same_rules rs rs'"
  shows "gen_names rs = gen_names rs'" "default_rules rs = default_rules rs'" "map prio rs = map prio rs'"
    "same_rules (filter (\<lambda>r. \<not> generated r) rs) (filter (\<lambda>r. \<not> generated r) rs')"
  using assms unfolding same_rules_all2
proof (induction rs rs' rule: list_all2_induct)
  case (Cons r rs r' rs')
  note b = brief_eqD [OF Cons.hyps(1)]
  have "generated r = generated r'" "kind r = kind r'" "default_form p r = default_form p r'"
    "prio r = prio r'" for p
    using b Cons.hyps(1) by (simp_all add: generated_def kind_def default_form_def prio_def)
  with b Cons show "gen_names (r # rs) = gen_names (r' # rs')" "map prio (r # rs) = map prio (r' # rs')"
    "default_rules (r # rs) = default_rules (r' # rs')"
    "list_all2 (\<lambda>r r'. getSecurityGroupRuleBrief r = getSecurityGroupRuleBrief r')
       (filter (\<lambda>r. \<not> generated r) (r # rs)) (filter (\<lambda>r. \<not> generated r) (r' # rs'))"
    by (auto simp: default_rules_def)
qed (simp_all add: default_rules_def)

section \<open>Properties\<close>

text \<open>An Azure that stores what it is sent, as the reference for the laws: groups by group and name.\<close>

record azure_cloud =
  az_groups :: "string \<times> string \<Rightarrow> az_security_rule list option"
  az_nics :: "string \<times> string \<Rightarrow> az_nic option"
  az_lbs :: "string \<times> string \<Rightarrow> az_lb option"
  az_vms :: "string \<times> string \<Rightarrow> az_vm option"

definition not_found :: go_error where
  "not_found = Detailed (Some 404) None ''NotFound''"

definition cloud_get :: "(azure_cloud \<Rightarrow> string \<times> string \<Rightarrow> 'a option) \<Rightarrow> string \<Rightarrow> string
    \<Rightarrow> (azure_cloud, go_error, 'a) prog" where
  "cloud_get f g n w = (case f w (g, n) of None \<Rightarrow> (Inl not_found, w) | Some x \<Rightarrow> (Inr x, w))"

definition reference_client :: "azure_cloud az_client" where
  "reference_client =
     \<lparr> cl_Config = NewConfig [],
       cl_lb_Get = cloud_get (\<lambda>w k. map_option (\<lambda>azlb. azlb\<lparr>al_Name := Some (snd k)\<rparr>) (az_lbs w k)),
       cl_lb_CreateOrUpdate = (\<lambda>g n lb w. (Inr lb, w\<lparr>az_lbs := (az_lbs w)((g, n) \<mapsto> lb)\<rparr>)),
       cl_lb_Delete = (\<lambda>g n w. (Inr (), w\<lparr>az_lbs := (az_lbs w)((g, n) := None)\<rparr>)),
       cl_vm_Get = cloud_get az_vms,
       cl_nic_Get = cloud_get az_nics,
       cl_nic_CreateOrUpdate = (\<lambda>g n nic w. (Inr nic, w\<lparr>az_nics := (az_nics w)((g, n) \<mapsto> nic)\<rparr>)),
       cl_sg_Get = cloud_get (\<lambda>w k. map_option (\<lambda>rs. \<lparr> sg_ID = None, sg_SecurityRules = Some rs \<rparr>) (az_groups w k)),
       cl_sg_CreateOrUpdate = (\<lambda>g n sg w.
         (Inr sg, w\<lparr>az_groups := (az_groups w)((g, n) \<mapsto> elems (sg_SecurityRules sg))\<rparr>)),
       cl_ip_Get = (\<lambda>g n w. (Inr (Some ''1.2.3.4''), w)) \<rparr>"

interpretation ref_groups: sg_service reference_client az_groups
  by unfold_locales
    (auto simp: reference_client_def cloud_get_def same_rules_def split: option.splits)

text \<open>
  C14: syncing one security group for the ports of the config maps. When it returns nil, the stored
  group has, next to the users' rules in their old order, exactly one generated rule for each
  TCP port and each UDP port, in the default form; if the priorities of its rules were distinct,
  they are distinct; and syncing again would find nothing to change.
\<close>

theorem security_group_synced:
  assumes "sg_service c groups" "range_ok ord" "keys_ok tcp udp"
    and "ensureSyncRulesToSecurityGroups ord c [sgID] (w, tcp, udp) = (Inr (), (w', tcp', udp'))"
  shows "\<exists>g n rules rules'. getGroupAndResourceNameFromID sgID azureSecurityGroups = Inr (g, n)
    \<and> groups w (g, n) = Some rules \<and> groups w' = (groups w)((g, n) \<mapsto> rules')
    \<and> good_group tcp udp rules'
    \<and> same_rules (filter (\<lambda>r. \<not> generated r) rules') (filter (\<lambda>r. \<not> generated r) rules)
    \<and> (distinct (map prio rules) \<longrightarrow> distinct (map prio rules'))
    \<and> group_plan ord rules' tcp udp = (Inr (rules', False), [], [])"
proof -
  have "mset (ro_strings ord [sgID]) = {#sgID#}" using assms(2) by (simp add: range_ok_def)
  then have "sync_group ord c sgID (w, tcp, udp) = (Inr (), (w', tcp', udp'))"
    using assms(4) by (auto simp: ensureSyncRulesToSecurityGroups_def seqE_def split: prod.splits sum.splits)
  then obtain g n rules new change rs where r: "getGroupAndResourceNameFromID sgID azureSecurityGroups = Inr (g, n)"
      "groups w (g, n) = Some rules" "group_plan ord rules tcp udp = (Inr (new, change), tcp', udp')"
      "groups w' = (groups w)((g, n) \<mapsto> rs)" "same_rules rs (if change then new else rules)"
    by (rule sg_service.sync_group_ok [OF assms(1)]) blast
  note p = group_plan_result [OF assms(2,3) r(3)]
  have same: "same_rules rs new" using r(5) p(3) by (auto split: if_splits)
  note s = same_rules_good [OF same]
  have "good_group tcp udp rs" using p(1) s by (simp add: good_group_def)
  moreover have "same_rules (filter (\<lambda>r. \<not> generated r) rs) (filter (\<lambda>r. \<not> generated r) rules)"
    using s(4) p(2) by simp
  ultimately show ?thesis
    using r(1,2,4) p(4) s(3) group_plan_good by metis
qed

definition example_cloud :: azure_cloud where
  "example_cloud =
     \<lparr> az_groups = (\<lambda>_. None)((''g'', ''sg'') \<mapsto>
         [getDefaultSecurityGroupRule securityGroupTCPPrefix ''99'' (Some 1000)],
                 (''g'', ''sg2'') \<mapsto> [getDefaultSecurityGroupRule securityGroupTCPPrefix ''80'' (Some 1000)]),
       az_nics = (\<lambda>_. None), az_lbs = (\<lambda>_. None), az_vms = (\<lambda>_. None) \<rparr>"

definition sg_path :: "string \<Rightarrow> string" where
  "sg_path name = ''resourceGroups/g/networkSecurityGroups/'' @ name"

lemma sg_path_parse:
  "getGroupAndResourceNameFromID (sg_path ''sg'') azureSecurityGroups = Inr (''g'', ''sg'')"
  "getGroupAndResourceNameFromID (sg_path ''sg2'') azureSecurityGroups = Inr (''g'', ''sg2'')"
  by (simp_all add: sg_path_def getGroupAndResourceNameFromID_def getSpecifyName_def azure_words
      has_prefix_def Let_def)

lemma example_has_prefix:
  "has_prefix (securityGroupTCPPrefix @ p) securityGroupTCPPrefix"
  by simp

lemma security_group_synced_witness:
  "\<exists>w' rules'. ensureSyncRulesToSecurityGroups insertion_order reference_client [sg_path ''sg'']
       (example_cloud, [(''80'', [])], []) = (Inr (), (w', [(''80'', [])], []))
     \<and> az_groups w' (''g'', ''sg'') = Some rules' \<and> good_group [(''80'', [])] [] rules'"
proof -
  have k: "keys_ok [(''80'', [])] []" by (simp add: keys_ok_def)
  have nm: "map_of [(''80'', [])] (to_String (Some ''99'')) = None" by simp
  have plan: "group_plan insertion_order [getDefaultSecurityGroupRule securityGroupTCPPrefix ''99'' (Some 1000)]
      [(''80'', [])] [] = (Inr ([getDefaultSecurityGroupRule securityGroupTCPPrefix ''80'' (Some 1000)], True),
        [(''80'', [])], [])"
    by (simp add: group_plan_def sync_rule_apply ensureSyncWithDefaultSetting_def
        getDefaultSecurityGroupRule_def Let_def insertion_order_def getValidPriority_def set_add_def)
  obtain w' where run: "ensureSyncRulesToSecurityGroups insertion_order reference_client [sg_path ''sg'']
       (example_cloud, [(''80'', [])], []) = (Inr (), (w', [(''80'', [])], []))"
    by (simp add: ensureSyncRulesToSecurityGroups_def insertion_order_def sync_group_def sg_path_parse
        on_cloud_def seqE_def reference_client_def cloud_get_def example_cloud_def plan [unfolded insertion_order_def])
  from security_group_synced [OF ref_groups.sg_service_axioms insertion_order_ok k run]
  show ?thesis using run by (auto simp: sg_path_parse)
qed

text \<open>
  C38: all groups of a sync share the two maps of ports, and a port is deleted from them when a rule
  of a group serves it. So when the group visited first is already complete, the group visited
  second loses every generated rule it has and gets none.
\<close>

theorem second_group_loses_rules:
  assumes "sg_service c groups" "range_ok ord" "ro_strings ord [sg1, sg2] = [sg1, sg2]"
    and "getGroupAndResourceNameFromID sg1 azureSecurityGroups = Inr (g1, n1)"
    and "groups w (g1, n1) = Some rules1" "good_group tcp udp rules1"
    and "ensureSyncRulesToSecurityGroups ord c [sg1, sg2] (w, tcp, udp) = (Inr (), (w', ms'))"
  shows "\<exists>g n rules2. getGroupAndResourceNameFromID sg2 azureSecurityGroups = Inr (g, n)
    \<and> groups w' (g, n) = Some rules2 \<and> gen_names rules2 = []"
proof -
  have run: "seqE (sync_group ord c sg1) (\<lambda>_. seqE (sync_group ord c sg2) retE) (w, tcp, udp) = (Inr (), (w', ms'))"
    using assms(3,7) by (simp add: ensureSyncRulesToSecurityGroups_def)
  then obtain u1 s1 where s1: "sync_group ord c sg1 (w, tcp, udp) = (Inr u1, s1)"
      and rest: "seqE (sync_group ord c sg2) retE s1 = (Inr (), (w', ms'))"
    by (rule seqE_InrE)
  obtain w1 tcp1 udp1 where eq: "s1 = (w1, tcp1, udp1)" by (cases s1)
  from rest obtain u2 where s2: "sync_group ord c sg2 s1 = (Inr u2, (w', ms'))"
    by (rule seqE_InrE) simp
  obtain g n rules new change where "getGroupAndResourceNameFromID sg1 azureSecurityGroups = Inr (g, n)"
      "groups w (g, n) = Some rules" "group_plan ord rules tcp udp = (Inr (new, change), tcp1, udp1)"
    by (rule sg_service.sync_group_ok [OF assms(1) s1 [unfolded eq, simplified]]) blast
  then have empty: "tcp1 = []" "udp1 = []"
    using assms(4-6) group_plan_good [OF assms(6), of ord] by auto
  obtain t2 d2 where ms: "ms' = (t2, d2)" by (cases ms')
  obtain g2 n2 rules' new' change' rs where r: "getGroupAndResourceNameFromID sg2 azureSecurityGroups = Inr (g2, n2)"
      "group_plan ord rules' [] [] = (Inr (new', change'), t2, d2)"
      "groups w' = (groups w1)((g2, n2) \<mapsto> rs)" "same_rules rs (if change' then new' else rules')"
    by (rule sg_service.sync_group_ok [OF assms(1) s2 [unfolded eq empty ms, simplified]]) blast
  have k: "keys_ok [] []" by (simp add: keys_ok_def)
  have "same_rules rs new'" using r(4) group_plan_result(3) [OF assms(2) k r(2)] by (auto split: if_splits)
  then have "gen_names rs = gen_names new'" by (rule same_rules_good)
  also have "\<dots> = []" unfolding group_plan_empty [OF assms(2) r(2)] by (simp add: gen_names_def)
  finally show ?thesis using r(1,3) by auto
qed

lemma good_single:
  "good_group [(port, v)] [] [getDefaultSecurityGroupRule securityGroupTCPPrefix port p]"
  using default_rule_generated [of securityGroupTCPPrefix port p]
    default_form_generated [OF default_rule_form(1), of securityGroupTCPPrefix port p]
  by (simp add: good_group_def default_rules_def port_names_def)

lemma second_group_loses_rules_witness:
  "\<exists>w' ms'. ensureSyncRulesToSecurityGroups insertion_order reference_client [sg_path ''sg'', sg_path ''sg2'']
       (example_cloud\<lparr>az_groups := (az_groups example_cloud)((''g'', ''sg'') \<mapsto>
          [getDefaultSecurityGroupRule securityGroupTCPPrefix ''80'' (Some 1000)])\<rparr>, [(''80'', [])], [])
       = (Inr (), (w', ms')) \<and> gen_names (the (az_groups w' (''g'', ''sg2''))) = []"
proof -
  let ?r = "getDefaultSecurityGroupRule securityGroupTCPPrefix ''80'' (Some 1000)"
  let ?w = "example_cloud\<lparr>az_groups := (az_groups example_cloud)((''g'', ''sg'') \<mapsto> [?r])\<rparr>"
  have plan1: "group_plan insertion_order [?r] [(''80'', [])] [] = (Inr ([?r], False), [], [])"
    by (rule group_plan_good [OF good_single])
  have plan2: "group_plan insertion_order [?r] [] [] = (Inr ([], True), [], [])"
    by (simp add: group_plan_def sync_rule_apply ensureSyncWithDefaultSetting_def
        getDefaultSecurityGroupRule_def Let_def insertion_order_def)
  obtain w' ms' where run: "ensureSyncRulesToSecurityGroups insertion_order reference_client
      [sg_path ''sg'', sg_path ''sg2''] (?w, [(''80'', [])], []) = (Inr (), (w', ms'))"
    by (simp add: ensureSyncRulesToSecurityGroups_def insertion_order_def sync_group_def sg_path_parse
        on_cloud_def seqE_def reference_client_def cloud_get_def example_cloud_def
        plan1 [unfolded insertion_order_def] plan2 [unfolded insertion_order_def])
  have "ro_strings insertion_order [sg_path ''sg'', sg_path ''sg2''] = [sg_path ''sg'', sg_path ''sg2'']"
    by (simp add: insertion_order_def)
  moreover have "az_groups ?w (''g'', ''sg'') = Some [?r]" by simp
  ultimately have "\<exists>g n rules2. getGroupAndResourceNameFromID (sg_path ''sg2'') azureSecurityGroups = Inr (g, n)
      \<and> az_groups w' (g, n) = Some rules2 \<and> gen_names rules2 = []"
    by (rule second_group_loses_rules [OF ref_groups.sg_service_axioms insertion_order_ok _ sg_path_parse(1) _
          good_single run])
  then show ?thesis using run by (auto simp: sg_path_parse)
qed

text \<open>
  C26: cleaning a security group. When \<open>deleteUselessSecurityRules\<close> returns nil for a group, the stored group
  holds the users' rules in their order and no generated rule.
\<close>

theorem security_group_cleaned:
  assumes "sg_service c groups" "range_ok ord" "deleteUselessSecurityRules ord c [sgID] w = (Inr (), w')"
  shows "\<exists>g n rules rules'. getGroupAndResourceNameFromID sgID azureSecurityGroups = Inr (g, n)
    \<and> groups w (g, n) = Some rules \<and> groups w' = (groups w)((g, n) \<mapsto> rules')
    \<and> same_rules rules' (filter (\<lambda>r. \<not> generated r) rules) \<and> gen_names rules' = []"
proof -
  have "mset (ro_strings ord [sgID]) = {#sgID#}" using assms(2) by (simp add: range_ok_def)
  then have "clean_group c sgID w = (Inr (), w')"
    using assms(3) by (auto simp: deleteUselessSecurityRules_def seqE_def split: prod.splits sum.splits)
  then obtain g n rules rs where r: "getGroupAndResourceNameFromID sgID azureSecurityGroups = Inr (g, n)"
      "groups w (g, n) = Some rules" "groups w' = (groups w)((g, n) \<mapsto> rs)"
      "same_rules rs (filter (\<lambda>r. \<not> generated r) rules)"
    by (rule sg_service.clean_group_ok [OF assms(1)]) blast
  have "gen_names rs = []" using same_rules_good(1) [OF r(4)] by (simp add: gen_names_def)
  with r show ?thesis by blast
qed

lemma security_group_cleaned_witness:
  "\<exists>w'. deleteUselessSecurityRules insertion_order reference_client [sg_path ''sg''] example_cloud = (Inr (), w')
     \<and> gen_names (the (az_groups w' (''g'', ''sg''))) = []"
proof -
  let ?r = "getDefaultSecurityGroupRule securityGroupTCPPrefix ''99'' (Some 1000)"
  have "generated ?r" by (rule default_rule_generated) simp
  then obtain w' where run:
      "deleteUselessSecurityRules insertion_order reference_client [sg_path ''sg''] example_cloud = (Inr (), w')"
    by (simp add: deleteUselessSecurityRules_def insertion_order_def clean_group_def sg_path_parse seqE_def
        reference_client_def cloud_get_def example_cloud_def)
  from security_group_cleaned [OF ref_groups.sg_service_axioms insertion_order_ok run]
  show ?thesis using run by (auto simp: sg_path_parse)
qed

text \<open>
  The priority given to a new rule is one that became free, or the first free one of 1000, 1010, and
  so on up to 4096; it is never in use; and giving out a priority fails only when none became free
  and all of those 310 are in use.
\<close>

theorem priority_choice:
  assumes "range_ok ord" "set del \<inter> set used = {}"
  shows "case getValidPriority ord used del of
      (Inr p, del') \<Rightarrow> p \<notin> set used \<and> set del' = set del - {p}
         \<and> (p \<in> set del \<or> 1000 \<le> p \<and> p \<le> maxSecurityGroupPriority)
    | (Inl e, del') \<Rightarrow> del' = del \<and> del = [] \<and> (\<forall>n < 310. 1000 + 10 * int n \<in> set used)"
proof (cases "getValidPriority ord used del")
  case (Pair r del')
  show ?thesis
  proof (cases r)
    case (Inl e)
    then have n: "ro_ints ord del = []" "del' = del" "priority_loop used 1000 = None"
      using Pair by (auto simp: getValidPriority_def defaultSecurityGroupPriorityStart_def split: list.splits option.splits)
    have "del = []" using range_ints(2) [OF assms(1), of del] n(1) by simp
    then show ?thesis
      using Inl Pair n priority_loop_None [OF n(3)] by (auto simp: maxSecurityGroupPriority_def)
  next
    case (Inr p)
    have "p \<in> set del \<or> 1000 \<le> p \<and> p \<le> maxSecurityGroupPriority"
    proof (cases "ro_ints ord del")
      case Nil
      then show ?thesis using Pair Inr
        by (auto simp: getValidPriority_def defaultSecurityGroupPriorityStart_def
            dest!: priority_loop_Some split: option.splits)
    next
      case (Cons q qs)
      then have "q \<in> set del" using range_ints(1) [OF assms(1), of del] by (metis list.set_intros(1))
      then show ?thesis using Cons Pair Inr by (simp add: getValidPriority_def)
    qed
    then show ?thesis using getValidPriority_ok [OF assms(1) _ assms(2), of p del'] Pair Inr by simp
  qed
qed

lemma priority_choice_witness: "fst (getValidPriority insertion_order [1000, 1010] []) = Inr 1020"
proof -
  have "getValidPriority insertion_order [1000, 1010] [] = (Inr 1020, [])"
    by (simp add: getValidPriority_def insertion_order_def defaultSecurityGroupPriorityStart_def
        priority_loop.simps maxSecurityGroupPriority_def defaultSecurityGroupPriorityIncrease_def)
  with priority_choice [OF insertion_order_ok, of "[]" "[1000, 1010]"] show ?thesis by simp
qed

end
