(* ===== verification/AzureNics.thy ===== *)
theory AzureNics
  imports AzureSecurity
begin

text \<open>
  \<open>providers/azure/loadbalancer.go\<close>, the backend pool: which network interfaces are in it is written
  in the interfaces themselves, in the list of pools of each of their IP configurations. A sync
  takes the pool out of the interfaces of nodes that left and puts it into those of new nodes.
\<close>

section \<open>One interface\<close>

definition is_pool :: "string \<Rightarrow> az_pool \<Rightarrow> bool" where
  "is_pool poolID pool = equal_fold (to_String (pl_ID pool)) poolID"

definition detach_config :: "string \<Rightarrow> az_ip_config \<Rightarrow> bool \<times> az_ip_config" where
  "detach_config poolID ipc =
     (let pools = elems (ic_Pools ipc); newPools = filter (\<lambda>p. \<not> is_pool poolID p) pools
      in if list_ex (is_pool poolID) pools then (True, ipc\<lparr>ic_Pools := Some newPools\<rparr>) else (False, ipc))"

definition detachNetworkInterfacesAndLoadBalancer ::
  "'w az_client \<Rightarrow> string \<Rightarrow> string \<Rightarrow> ('w, go_error, unit) prog" where
  "detachNetworkInterfacesAndLoadBalancer c detachID poolID =
     (case getGroupAndResourceNameFromID detachID azureNetworkInterfaces of
        Inl e \<Rightarrow> throwE e
      | Inr (groupName, name) \<Rightarrow>
          seqE (cl_nic_Get c groupName name) (\<lambda>nic.
            case ni_IPConfigurations nic of
              None \<Rightarrow> retE ()
            | Some ipcs \<Rightarrow>
                let rs = map (detach_config poolID) ipcs
                in if list_ex fst rs
                   then seqE (cl_nic_CreateOrUpdate c groupName name (nic\<lparr>ni_IPConfigurations := Some (map snd rs)\<rparr>))
                          (\<lambda>_. retE ())
                   else retE ()))"

definition attach_config :: "string \<Rightarrow> az_ip_config \<Rightarrow> bool \<times> az_ip_config" where
  "attach_config poolID ipc =
     (if list_ex (is_pool poolID) (elems (ic_Pools ipc)) then (False, ipc)
      else (True, ipc\<lparr>ic_Pools := slice_append (ic_Pools ipc)
              \<lparr> pl_Name = None, pl_ID = Some poolID, pl_BackendIPConfigurations = None \<rparr>\<rparr>))"

definition attachNetworkInterfacesAndLoadBalancer ::
  "'w az_client \<Rightarrow> string \<Rightarrow> string \<Rightarrow> ('w, go_error, unit) prog" where
  "attachNetworkInterfacesAndLoadBalancer c attachID poolID =
     (case getGroupAndResourceNameFromID attachID azureNetworkInterfaces of
        Inl e \<Rightarrow> throwE e
      | Inr (groupName, name) \<Rightarrow>
          seqE (cl_nic_Get c groupName name) (\<lambda>nic.
            case ni_IPConfigurations nic of
              None \<Rightarrow> throwE (Errorf ''ipc is zero'')
            | Some ipcs \<Rightarrow>
                let rs = map (attach_config poolID) ipcs
                in if list_ex fst rs
                   then seqE (cl_nic_CreateOrUpdate c groupName name (nic\<lparr>ni_IPConfigurations := Some (map snd rs)\<rparr>))
                          (\<lambda>_. retE ())
                   else retE ()))"

section \<open>The pool\<close>

definition syncBackendPoolsWithNodes ::
  "range_order \<Rightarrow> 'w az_client \<Rightarrow> store_lister \<Rightarrow> az_lb \<Rightarrow> string list
   \<Rightarrow> ('w, go_error, string list \<times> string list) prog" where
  "syncBackendPoolsWithNodes ord c L azlb nodes =
     seqE (diffBackendPoolNetworkInterfaecs ord c L azlb nodes) (\<lambda>(detachs, attachs, azlbBackendNetworksMap).
       case elems (al_BackendAddressPools azlb) of
         [] \<Rightarrow> throwE (Errorf ''backend pools is empty'')
       | pool # _ \<Rightarrow>
           let poolID = to_String (pl_ID pool) in
           seqE (forE detachs (\<lambda>d. detachNetworkInterfacesAndLoadBalancer c d poolID)) (\<lambda>_.
           seqE (forE attachs (\<lambda>a. attachNetworkInterfacesAndLoadBalancer c a poolID)) (\<lambda>_.
             retE (detachs, azlbBackendNetworksMap))))"

definition syncBackendPools ::
  "range_order \<Rightarrow> 'w az_client \<Rightarrow> store_lister \<Rightarrow> az_lb \<Rightarrow> load_balancer
   \<Rightarrow> ('w, go_error, string list \<times> string list) prog" where
  "syncBackendPools ord c L azlb lb = syncBackendPoolsWithNodes ord c L azlb (ns_Names (lb_Nodes lb))"

section \<open>What is in a pool\<close>

text \<open>The pools of the IP configurations of an interface, by their IDs.\<close>

definition nic_pools :: "az_nic \<Rightarrow> string option list list" where
  "nic_pools nic = map (\<lambda>ipc. map pl_ID (elems (ic_Pools ipc))) (elems (ni_IPConfigurations nic))"

definition has_pool :: "string \<Rightarrow> string option \<Rightarrow> bool" where
  "has_pool poolID pid = equal_fold (to_String pid) poolID"

definition attached :: "string \<Rightarrow> string option list list \<Rightarrow> bool" where
  "attached poolID pss \<longleftrightarrow> (\<forall>ps \<in> set pss. list_ex (has_pool poolID) ps)"

definition detached :: "string \<Rightarrow> string option list list \<Rightarrow> bool" where
  "detached poolID pss \<longleftrightarrow> (\<forall>ps \<in> set pss. \<not> list_ex (has_pool poolID) ps)"

definition other_pools :: "string \<Rightarrow> string option list list \<Rightarrow> string option list list" where
  "other_pools poolID pss = map (filter (\<lambda>p. \<not> has_pool poolID p)) pss"

text \<open>The interface an ID names.\<close>

definition nic_of :: "string \<Rightarrow> (string \<times> string) option" where
  "nic_of nid = (case getGroupAndResourceNameFromID nid azureNetworkInterfaces of Inl _ \<Rightarrow> None | Inr k \<Rightarrow> Some k)"

lemma list_ex_is_pool: "list_ex (is_pool poolID) ps = list_ex (has_pool poolID) (map pl_ID ps)"
  by (simp add: list_ex_iff is_pool_def has_pool_def)

lemma detach_config_pools:
  "map pl_ID (elems (ic_Pools (snd (detach_config poolID ipc))))
     = filter (\<lambda>p. \<not> has_pool poolID p) (map pl_ID (elems (ic_Pools ipc)))"
proof (cases "list_ex (is_pool poolID) (elems (ic_Pools ipc))")
  case True
  then show ?thesis by (simp add: detach_config_def Let_def filter_map o_def is_pool_def has_pool_def)
next
  case False
  then have "filter (\<lambda>p. \<not> has_pool poolID p) (map pl_ID (elems (ic_Pools ipc))) = map pl_ID (elems (ic_Pools ipc))"
    by (auto simp: filter_id_conv list_ex_iff is_pool_def has_pool_def)
  with False show ?thesis by (simp add: detach_config_def Let_def)
qed

lemma attach_config_pools:
  "list_ex (has_pool poolID) (map pl_ID (elems (ic_Pools (snd (attach_config poolID ipc)))))
   \<and> filter (\<lambda>p. \<not> has_pool poolID p) (map pl_ID (elems (ic_Pools (snd (attach_config poolID ipc)))))
     = filter (\<lambda>p. \<not> has_pool poolID p) (map pl_ID (elems (ic_Pools ipc)))"
  by (simp add: attach_config_def list_ex_is_pool) (simp add: has_pool_def)

lemma config_unchanged:
  "\<not> fst (detach_config poolID ipc) \<Longrightarrow> snd (detach_config poolID ipc) = ipc"
  "\<not> fst (attach_config poolID ipc) \<Longrightarrow> snd (attach_config poolID ipc) = ipc"
  by (auto simp: detach_config_def attach_config_def Let_def split: if_splits)

lemma nic_pools_map:
  "nic_pools (nic\<lparr>ni_IPConfigurations := Some (map f ipcs)\<rparr>) = map (\<lambda>ipc. map pl_ID (elems (ic_Pools (f ipc)))) ipcs"
  by (simp add: nic_pools_def)

text \<open>
  What the client relies on of Azure's interfaces: a successful \<open>Get\<close> answers the stored one, a
  successful \<open>CreateOrUpdate\<close> stores the pools that were sent and leaves the other interfaces alone, and
  reading a virtual machine changes no interface.
\<close>

locale nic_service =
  fixes c :: "'w az_client" and pools :: "'w \<Rightarrow> string \<times> string \<Rightarrow> string option list list option"
  assumes nic_get: "cl_nic_Get c g n w = (Inr nic, w') \<Longrightarrow> pools w (g, n) = Some (nic_pools nic) \<and> pools w' = pools w"
    and nic_put: "cl_nic_CreateOrUpdate c g n nic w = (Inr nic', w') \<Longrightarrow> pools w' = (pools w)((g, n) \<mapsto> nic_pools nic)"
    and vm_get: "pools (snd (cl_vm_Get c g n w)) = pools w"
begin

lemma detach_ok:
  assumes "detachNetworkInterfacesAndLoadBalancer c d poolID w = (Inr u, w')"
  obtains g n pss where "getGroupAndResourceNameFromID d azureNetworkInterfaces = Inr (g, n)"
    "pools w (g, n) = Some pss" "pools w' = (pools w)((g, n) \<mapsto> other_pools poolID pss)"
proof -
  obtain g n where gn: "getGroupAndResourceNameFromID d azureNetworkInterfaces = Inr (g, n)"
    using assms by (auto simp: detachNetworkInterfacesAndLoadBalancer_def split: sum.splits)
  obtain nic w1 where get: "cl_nic_Get c g n w = (Inr nic, w1)"
    using assms by (auto simp: detachNetworkInterfacesAndLoadBalancer_def gn seqE_def split: sum.splits prod.splits)
  note g1 = nic_get [OF get]
  show ?thesis
  proof (cases "ni_IPConfigurations nic")
    case None
    then have "w' = w1" using assms by (simp add: detachNetworkInterfacesAndLoadBalancer_def gn seqE_def get)
    then show ?thesis using that [OF gn] g1 None by (simp add: nic_pools_def other_pools_def fun_upd_idem)
  next
    case (Some ipcs)
    let ?rs = "map (detach_config poolID) ipcs"
    let ?nic = "nic\<lparr>ni_IPConfigurations := Some (map snd ?rs)\<rparr>"
    have p: "nic_pools ?nic = other_pools poolID (nic_pools nic)"
      using Some by (simp add: nic_pools_def other_pools_def detach_config_pools o_def)
    show ?thesis
    proof (cases "list_ex fst ?rs")
      case True
      then obtain nic' where "cl_nic_CreateOrUpdate c g n ?nic w1 = (Inr nic', w')"
        using assms Some
        by (auto simp: detachNetworkInterfacesAndLoadBalancer_def gn seqE_def get Let_def split: prod.splits sum.splits)
      from nic_put [OF this] p g1 gn show ?thesis by (auto intro: that)
    next
      case False
      then have "map snd ?rs = ipcs"
        by (auto simp: list_ex_iff intro!: map_idI config_unchanged(1))
      then have "?nic = nic" using Some by simp
      moreover have "w' = w1"
        using assms Some False by (simp add: detachNetworkInterfacesAndLoadBalancer_def gn seqE_def get Let_def)
      ultimately show ?thesis using that [OF gn, of "nic_pools nic"] g1 p by (simp add: fun_upd_idem)
    qed
  qed
qed

lemma attach_ok:
  assumes "attachNetworkInterfacesAndLoadBalancer c d poolID w = (Inr u, w')"
  obtains g n pss pss' where "getGroupAndResourceNameFromID d azureNetworkInterfaces = Inr (g, n)"
    "pools w (g, n) = Some pss" "pools w' = (pools w)((g, n) \<mapsto> pss')" "attached poolID pss'"
    "other_pools poolID pss' = other_pools poolID pss"
proof -
  obtain g n where gn: "getGroupAndResourceNameFromID d azureNetworkInterfaces = Inr (g, n)"
    using assms by (auto simp: attachNetworkInterfacesAndLoadBalancer_def split: sum.splits)
  obtain nic w1 where get: "cl_nic_Get c g n w = (Inr nic, w1)"
    using assms by (auto simp: attachNetworkInterfacesAndLoadBalancer_def gn seqE_def split: sum.splits prod.splits)
  note g1 = nic_get [OF get]
  obtain ipcs where ipcs: "ni_IPConfigurations nic = Some ipcs"
    using assms by (cases "ni_IPConfigurations nic")
      (auto simp: attachNetworkInterfacesAndLoadBalancer_def gn seqE_def get)
  let ?rs = "map (attach_config poolID) ipcs"
  let ?nic = "nic\<lparr>ni_IPConfigurations := Some (map snd ?rs)\<rparr>"
  have p: "attached poolID (nic_pools ?nic)" "other_pools poolID (nic_pools ?nic) = other_pools poolID (nic_pools nic)"
    using ipcs attach_config_pools [of poolID]
    by (auto simp: nic_pools_def other_pools_def attached_def)
  show ?thesis
  proof (cases "list_ex fst ?rs")
    case True
    then obtain nic' where "cl_nic_CreateOrUpdate c g n ?nic w1 = (Inr nic', w')"
      using assms ipcs
      by (auto simp: attachNetworkInterfacesAndLoadBalancer_def gn seqE_def get Let_def split: prod.splits sum.splits)
    from nic_put [OF this] p g1 gn show ?thesis by (auto intro: that)
  next
    case False
    then have "map snd ?rs = ipcs"
      by (auto simp: list_ex_iff intro!: map_idI config_unchanged(2))
    then have "?nic = nic" using ipcs by simp
    moreover have "w' = w1"
      using assms ipcs False by (simp add: attachNetworkInterfacesAndLoadBalancer_def gn seqE_def get Let_def)
    ultimately show ?thesis using that [OF gn, of "nic_pools nic" "nic_pools nic"] g1 p by (simp add: fun_upd_idem)
  qed
qed

text \<open>The loops: every interface visited is done, and what is done stays done.\<close>

lemma detach_loop:
  assumes "forE ds (\<lambda>d. detachNetworkInterfacesAndLoadBalancer c d poolID) w = (Inr u, w')"
  shows "(\<forall>d \<in> set ds. \<exists>k pss. nic_of d = Some k \<and> pools w' k = Some pss \<and> detached poolID pss)
    \<and> (\<forall>k. map_option (other_pools poolID) (pools w' k) = map_option (other_pools poolID) (pools w k))
    \<and> (\<forall>k. (\<exists>d \<in> set ds. nic_of d = Some k) \<or> pools w' k = pools w k)
    \<and> (\<forall>k pss. pools w k = Some pss \<and> detached poolID pss \<longrightarrow> (\<exists>pss'. pools w' k = Some pss' \<and> detached poolID pss'))"
  using assms
proof (induction ds arbitrary: w)
  case Nil
  then show ?case by simp
next
  case (Cons d ds)
  from Cons.prems obtain u1 w1 where 1: "detachNetworkInterfacesAndLoadBalancer c d poolID w = (Inr u1, w1)"
      and 2: "forE ds (\<lambda>d. detachNetworkInterfacesAndLoadBalancer c d poolID) w1 = (Inr u, w')"
    unfolding forE.simps by (rule seqE_InrE)
  obtain g n pss where k: "nic_of d = Some (g, n)" "pools w (g, n) = Some pss"
      "pools w1 = (pools w)((g, n) \<mapsto> other_pools poolID pss)"
    by (rule detach_ok [OF 1]) (auto simp: nic_of_def)
  have det: "detached poolID (other_pools poolID x)" "other_pools poolID (other_pools poolID x) = other_pools poolID x" for x
    by (auto simp: detached_def other_pools_def list_ex_iff)
  note IH = Cons.IH [OF 2]
  have keep: "pools w k' = Some p \<and> detached poolID p \<longrightarrow> (\<exists>p'. pools w1 k' = Some p' \<and> detached poolID p')" for k' p
    using k(3) det by auto
  have "\<exists>p. pools w' (g, n) = Some p \<and> detached poolID p" using IH k(3) det(1) by (metis fun_upd_same)
  moreover have "map_option (other_pools poolID) (pools w1 k') = map_option (other_pools poolID) (pools w k')" for k'
    using k det(2) by simp
  ultimately show ?case using IH k keep by (auto simp: fun_upd_def split: if_splits) metis+
qed

lemma attach_loop:
  assumes "forE as (\<lambda>a. attachNetworkInterfacesAndLoadBalancer c a poolID) w = (Inr u, w')"
  shows "(\<forall>a \<in> set as. \<exists>k pss. nic_of a = Some k \<and> pools w' k = Some pss \<and> attached poolID pss)
    \<and> (\<forall>k. map_option (other_pools poolID) (pools w' k) = map_option (other_pools poolID) (pools w k))
    \<and> (\<forall>k. (\<exists>a \<in> set as. nic_of a = Some k) \<or> pools w' k = pools w k)
    \<and> (\<forall>k pss. pools w k = Some pss \<and> attached poolID pss \<longrightarrow> (\<exists>pss'. pools w' k = Some pss' \<and> attached poolID pss'))"
  using assms
proof (induction as arbitrary: w)
  case Nil
  then show ?case by simp
next
  case (Cons a as)
  from Cons.prems obtain u1 w1 where 1: "attachNetworkInterfacesAndLoadBalancer c a poolID w = (Inr u1, w1)"
      and 2: "forE as (\<lambda>a. attachNetworkInterfacesAndLoadBalancer c a poolID) w1 = (Inr u, w')"
    unfolding forE.simps by (rule seqE_InrE)
  obtain g n pss pss' where k: "nic_of a = Some (g, n)" "pools w (g, n) = Some pss"
      "pools w1 = (pools w)((g, n) \<mapsto> pss')" "attached poolID pss'" "other_pools poolID pss' = other_pools poolID pss"
    by (rule attach_ok [OF 1]) (auto simp: nic_of_def)
  note IH = Cons.IH [OF 2]
  have keep: "pools w k' = Some p \<and> attached poolID p \<longrightarrow> (\<exists>p'. pools w1 k' = Some p' \<and> attached poolID p')" for k' p
    using k(3,4) by auto
  have "\<exists>p. pools w' (g, n) = Some p \<and> attached poolID p" using IH k(3,4) by (metis fun_upd_same)
  moreover have "map_option (other_pools poolID) (pools w1 k') = map_option (other_pools poolID) (pools w k')" for k'
    using k by simp
  ultimately show ?case using IH k keep by (auto simp: fun_upd_def split: if_splits) metis+
qed

lemma nodes_keep_pools:
  "getAzureNetworkInterfacesByNodeName c L node w = (r, w') \<Longrightarrow> pools w' = pools w"
  using vm_get
  by (auto simp: getAzureNetworkInterfacesByNodeName_def getNetworkInterfacesFromVM_def seqE_def
      split: sum.splits prod.splits option.splits) (metis snd_conv)+

lemma backend_loop_keep: "backend_nodes_loop c L nodes nets w = (r, w') \<Longrightarrow> pools w' = pools w"
proof (induction nodes arbitrary: nets w)
  case (Cons node nodes)
  from Cons.prems show ?case
    by (auto simp: seqE_def dest!: nodes_keep_pools Cons.IH split: prod.splits sum.splits)
qed simp

lemma sync_pools:
  assumes ord: "range_ok ord" and pool: "elems (al_BackendAddressPools azlb) = pool # rest"
    and run: "syncBackendPoolsWithNodes ord c L azlb nodes w = (Inr (detachs, nets), w')"
  obtains current attachs w1 w2 where "getAzureBackendPoolIP azlb = Inr current"
    "getBackendPoolIPFromNodes c L nodes w = (Inr nets, w1)" "pools w1 = pools w"
    "set detachs = set current - set nets" "set attachs = set nets - set current"
    "forE detachs (\<lambda>d. detachNetworkInterfacesAndLoadBalancer c d (to_String (pl_ID pool))) w1 = (Inr (), w2)"
    "forE attachs (\<lambda>a. attachNetworkInterfacesAndLoadBalancer c a (to_String (pl_ID pool))) w2 = (Inr (), w')"
proof -
  obtain current where cur: "getAzureBackendPoolIP azlb = Inr current"
    using pool by (simp add: getAzureBackendPoolIP_def)
  obtain d n a w1 where diff: "diffBackendPoolNetworkInterfaecs ord c L azlb nodes w = (Inr (d, a, n), w1)"
      and n: "getBackendPoolIPFromNodes c L nodes w = (Inr n, w1)"
      and da: "d = getDiffBetweenNetworkInterfaces ord current n" "a = getDiffBetweenNetworkInterfaces ord n current"
    using run
    by (auto simp: syncBackendPoolsWithNodes_def diffBackendPoolNetworkInterfaecs_def cur seqE_def
        split: prod.splits sum.splits)
  obtain w2 where "forE d (\<lambda>d. detachNetworkInterfacesAndLoadBalancer c d (to_String (pl_ID pool))) w1 = (Inr (), w2)"
      "forE a (\<lambda>a. attachNetworkInterfacesAndLoadBalancer c a (to_String (pl_ID pool))) w2 = (Inr (), w')"
      "d = detachs" "n = nets"
    using run pool by (auto simp: syncBackendPoolsWithNodes_def seqE_def diff Let_def split: prod.splits sum.splits)
  moreover have "pools w1 = pools w"
    using n backend_loop_keep by (auto simp: getBackendPoolIPFromNodes_def)
  moreover have "set d = set current - set n" "set a = set n - set current"
    using range_strings(1) [OF ord] by (auto simp: da getDiffBetweenNetworkInterfaces_def)
  ultimately show ?thesis using that cur n by blast
qed

end

text \<open>An Azure that stores what it is sent keeps the laws.\<close>

definition cloud_pools :: "azure_cloud \<Rightarrow> string \<times> string \<Rightarrow> string option list list option" where
  "cloud_pools w k = map_option nic_pools (az_nics w k)"

interpretation ref_nics: nic_service reference_client cloud_pools
  by unfold_locales
    (auto simp: reference_client_def cloud_get_def cloud_pools_def fun_eq_iff split: option.splits)

text \<open>
  C15: the backend pool follows the nodes. When the sync returns nil, every interface of a node's
  machine that Azure did not list in the pool is attached to it in all its IP configurations,
  every listed interface that belongs to no node is out of it (unless its ID is another spelling
  of an attached one), and no interface lost or gained any other pool.
\<close>

theorem backend_pool_follows_nodes:
  assumes "nic_service c pools" "range_ok ord" "elems (al_BackendAddressPools azlb) = pool # rest"
    and "syncBackendPoolsWithNodes ord c L azlb nodes w = (Inr (detachs, nets), w')"
  shows "\<exists>current w1. getAzureBackendPoolIP azlb = Inr current
    \<and> getBackendPoolIPFromNodes c L nodes w = (Inr nets, w1) \<and> set detachs = set current - set nets
    \<and> (\<forall>a \<in> set nets - set current. \<exists>k pss. nic_of a = Some k \<and> pools w' k = Some pss
          \<and> attached (to_String (pl_ID pool)) pss)
    \<and> (\<forall>d \<in> set detachs. \<exists>k pss. nic_of d = Some k \<and> pools w' k = Some pss
          \<and> ((\<forall>a \<in> set nets - set current. nic_of a \<noteq> Some k) \<longrightarrow> detached (to_String (pl_ID pool)) pss))
    \<and> (\<forall>k. map_option (other_pools (to_String (pl_ID pool))) (pools w' k)
          = map_option (other_pools (to_String (pl_ID pool))) (pools w k))"
proof -
  let ?pid = "to_String (pl_ID pool)"
  obtain current attachs w1 w2 where r: "getAzureBackendPoolIP azlb = Inr current"
    "getBackendPoolIPFromNodes c L nodes w = (Inr nets, w1)" "pools w1 = pools w"
    "set detachs = set current - set nets" "set attachs = set nets - set current"
    and 1: "forE detachs (\<lambda>d. detachNetworkInterfacesAndLoadBalancer c d ?pid) w1 = (Inr (), w2)"
    and 2: "forE attachs (\<lambda>a. attachNetworkInterfacesAndLoadBalancer c a ?pid) w2 = (Inr (), w')"
    using nic_service.sync_pools [OF assms] by metis
  note d = nic_service.detach_loop [OF assms(1) 1] and a = nic_service.attach_loop [OF assms(1) 2]
  have "\<exists>k pss. nic_of x = Some k \<and> pools w' k = Some pss
      \<and> ((\<forall>a \<in> set attachs. nic_of a \<noteq> Some k) \<longrightarrow> detached ?pid pss)" if "x \<in> set detachs" for x
  proof -
    obtain k pss where k: "nic_of x = Some k" "pools w2 k = Some pss" "detached ?pid pss" using d \<open>x \<in> set detachs\<close> by blast
    have "map_option (other_pools ?pid) (pools w' k) = map_option (other_pools ?pid) (pools w2 k)" using a by blast
    then obtain pss' where "pools w' k = Some pss'" using k(2) by auto
    moreover have "(\<exists>a \<in> set attachs. nic_of a = Some k) \<or> pools w' k = pools w2 k" using a by blast
    ultimately show ?thesis using k by auto
  qed
  with r a d show ?thesis by auto
qed

text \<open>A node in an AKS cluster whose machine has one interface, with one IP configuration in no pool.\<close>

definition example_node :: k8s_node where
  "example_node = \<lparr> kn_Name = ''vm'', kn_Labels = [(labelCaicloudAKSResource, ''g'')], kn_Annotations = [],
     kn_Addresses = [] \<rparr>"

definition nic_path :: string where
  "nic_path = ''resourceGroups/g/networkInterfaces/nic''"

definition nic_cloud :: azure_cloud where
  "nic_cloud = example_cloud\<lparr>
     az_vms := (\<lambda>_. None)((''g'', ''vm'') \<mapsto> \<lparr> vm_Name = Some ''vm'', vm_NetworkProfile = Some (Some [Some nic_path]) \<rparr>),
     az_nics := (\<lambda>_. None)((''g'', ''nic'') \<mapsto> \<lparr> ni_ID = Some nic_path, ni_SecurityGroup = None,
        ni_IPConfigurations = Some [\<lparr> ic_ID = None, ic_Pools = None \<rparr>] \<rparr>)\<rparr>"

lemma nic_path_parse: "getGroupAndResourceNameFromID nic_path azureNetworkInterfaces = Inr (''g'', ''nic'')"
  by (simp add: nic_path_def getGroupAndResourceNameFromID_def getSpecifyName_def azure_words
      has_prefix_def Let_def)

lemma backend_pool_follows_nodes_witness:
  "\<exists>w'. syncBackendPoolsWithNodes insertion_order reference_client
       (empty_lister\<lparr>sl_Node := (\<lambda>_. Found example_node)\<rparr>) example_azlb [''vm''] nic_cloud = (Inr ([], [nic_path]), w')
     \<and> (\<exists>pss. cloud_pools w' (''g'', ''nic'') = Some pss \<and> attached ''b'' pss)"
proof -
  let ?L = "empty_lister\<lparr>sl_Node := (\<lambda>_. Found example_node)\<rparr>"
  have cur: "getAzureBackendPoolIP example_azlb = Inr []"
    by (simp add: getAzureBackendPoolIP_def example_azlb_def)
  have vm: "getAzureNetworkInterfacesByNodeName reference_client ?L ''vm'' nic_cloud = (Inr [nic_path], nic_cloud)"
    by (simp add: getAzureNetworkInterfacesByNodeName_def getMachineInfoFromNode_def example_node_def
        getMachineInfoInAKSCluster_def getNetworkInterfacesFromVM_def machineInfo_Parse_def
        reference_client_def seqE_def cloud_get_def nic_cloud_def vm_interfaces_def)
  obtain w1 where att: "attachNetworkInterfacesAndLoadBalancer reference_client nic_path ''b'' nic_cloud = (Inr (), w1)"
    by (simp add: attachNetworkInterfacesAndLoadBalancer_def nic_path_parse seqE_def)
      (simp add: reference_client_def cloud_get_def nic_cloud_def attach_config_def seqE_def)
  have pool: "elems (al_BackendAddressPools example_azlb)
      = [\<lparr> pl_Name = Some ''back'', pl_ID = Some ''b'', pl_BackendIPConfigurations = None \<rparr>]"
    by (simp add: example_azlb_def)
  obtain w' where run: "syncBackendPoolsWithNodes insertion_order reference_client ?L example_azlb [''vm''] nic_cloud
      = (Inr ([], [nic_path]), w')"
    using vm cur
    by (simp add: syncBackendPoolsWithNodes_def diffBackendPoolNetworkInterfaecs_def seqE_def
        getBackendPoolIPFromNodes_def getDiffBetweenNetworkInterfaces_def insertion_order_def set_add_def
        pool Let_def att)
  from backend_pool_follows_nodes [OF ref_nics.nic_service_axioms insertion_order_ok pool run] cur run show ?thesis
    by (auto simp: nic_of_def nic_path_parse)
qed

end
