(* ===== verification/AzureDefaults.thy ===== *)
theory AzureDefaults
  imports AzureNics
begin

text \<open>
  \<open>providers/azure/loadbalancer.go\<close>, the load balancer itself: the probes, the backend pool and the
  frontend that it must always have, the default rules that forward the probes' ports, its creation
  and recovery, and the sync of rules, pools and security groups behind them.

  \<open>isEqual\<close> compares the JSON texts of two pointers to slices. Marshalling leaves nil fields out
  and writes every other one, so on the fields of the records equal texts are equal values.
\<close>

section \<open>Probes and frontends\<close>

definition azureLoadBalancerFrontendName :: string where
  "azureLoadBalancerFrontendName = ''LoadBalancerFrontend''"

definition azureLoadBalancerBackendName :: string where
  "azureLoadBalancerBackendName = ''LoadBalancerBackend''"

text \<open>\<open>lb.Spec.Providers.Azure\<close>, dereferenced, and the first element of a slice behind a pointer.\<close>

definition azure_spec :: "load_balancer \<Rightarrow> go_error + azure_provider" where
  "azure_spec lb = (case ps_Azure (lb_Providers lb) of
     None \<Rightarrow> Inl (Panic (NilDereference ''lb.Spec.Providers.Azure'')) | Some a \<Rightarrow> Inr a)"

definition deref :: "string \<Rightarrow> 'a option \<Rightarrow> go_error + 'a" where
  "deref what p = (case p of None \<Rightarrow> Inl (Panic (NilDereference what)) | Some x \<Rightarrow> Inr x)"

definition deref_first :: "string \<Rightarrow> 'a slice \<Rightarrow> go_error + 'a" where
  "deref_first what s = (case s of None \<Rightarrow> Inl (Panic (NilDereference what))
     | Some [] \<Rightarrow> Inl (Panic IndexOutOfRange) | Some (x # _) \<Rightarrow> Inr x)"

definition liftE :: "'e + 'a \<Rightarrow> ('s, 'e, 'a) prog" where
  "liftE r s = (r, s)"

lemma liftE_simps [simp, go_simps]: "liftE (Inr x) = retE x" "liftE (Inl e) = throwE e"
  by (simp_all add: liftE_def fun_eq_iff)

definition isEqual :: "'a slice \<Rightarrow> 'a slice \<Rightarrow> bool" where
  "isEqual src dest \<longleftrightarrow> src = dest"

definition probe_brief :: "az_probe \<Rightarrow> az_probe" where
  "probe_brief probe =
     \<lparr> pb_Name = pb_Name probe, pb_ID = None, pb_Protocol = pb_Protocol probe, pb_Port = pb_Port probe,
       pb_IntervalInSeconds = pb_IntervalInSeconds probe, pb_NumberOfProbes = pb_NumberOfProbes probe \<rparr>"

definition getProbesBrief :: "az_probe slice \<Rightarrow> az_probe slice" where
  "getProbesBrief probes = (if elems probes = [] then None else Some (map probe_brief (elems probes)))"

definition getAzureLoadBalancerFrontendIPConfigByConfig :: "azure_ip_properties \<Rightarrow> az_frontend slice" where
  "getAzureLoadBalancerFrontendIPConfigByConfig properties =
     (let fmt0 = \<lparr> fp_PrivateIPAddress = None, fp_PrivateIPAllocationMethod = [], fp_Subnet = None,
                   fp_PublicIPAddress = None \<rparr>;
          fmt1 = (case ap_Private properties of None \<Rightarrow> fmt0
                  | Some private \<Rightarrow> fmt0\<lparr>fp_PrivateIPAllocationMethod := pr_IPAllocationMethod private,
                        fp_PrivateIPAddress := pr_PrivateIPAddress private,
                        fp_Subnet := Some \<lparr> sn_ID = Some (pr_SubnetID private), sn_Rest = None \<rparr>\<rparr>);
          fmt2 = (case ap_Public properties of None \<Rightarrow> fmt1
                  | Some public \<Rightarrow> fmt1\<lparr>fp_PublicIPAddress :=
                        Some \<lparr> pi_ID = pu_PublicIPAddressID public, pi_Rest = None \<rparr>\<rparr>)
      in Some [\<lparr> fe_Name = Some azureLoadBalancerFrontendName, fe_ID = None, fe_Properties = Some fmt2 \<rparr>])"

definition frontend_brief :: "az_frontend \<Rightarrow> az_frontend option" where
  "frontend_brief config =
     (case fe_Properties config of
        None \<Rightarrow> None
      | Some fmt \<Rightarrow> Some
          \<lparr> fe_Name = fe_Name config, fe_ID = None,
            fe_Properties = Some
              (if fp_PrivateIPAddress fmt \<noteq> None
               then \<lparr> fp_PrivateIPAddress = fp_PrivateIPAddress fmt,
                      fp_PrivateIPAllocationMethod = fp_PrivateIPAllocationMethod fmt,
                      fp_Subnet = fp_Subnet fmt, fp_PublicIPAddress = None \<rparr>
               else \<lparr> fp_PrivateIPAddress = None, fp_PrivateIPAllocationMethod = [],
                      fp_Subnet = fp_Subnet fmt, fp_PublicIPAddress = fp_PublicIPAddress fmt \<rparr>) \<rparr>)"

definition getAzureLoadBalancerFrontendIPConfigBrief :: "az_frontend slice \<Rightarrow> az_frontend slice" where
  "getAzureLoadBalancerFrontendIPConfigBrief ipConfigs =
     (if elems ipConfigs = [] then None else Some (List.map_filter frontend_brief (elems ipConfigs)))"

section \<open>The default configuration\<close>

definition default_pool :: az_pool where
  "default_pool = \<lparr> pl_Name = Some azureLoadBalancerBackendName, pl_ID = None, pl_BackendIPConfigurations = None \<rparr>"

text \<open>
  The load balancer brought to the default configuration, and whether that changed it. The log line
  about missing pools prints what the nil pointer points to.
\<close>

definition ensure_probes :: "az_lb \<Rightarrow> az_lb \<times> bool" where
  "ensure_probes azlb =
     (if isEqual (Some defaultClusterAzureLBProbes) (getProbesBrief (al_Probes azlb)) then (azlb, False)
      else (azlb\<lparr>al_Probes := Some defaultClusterAzureLBProbes\<rparr>, True))"

definition ensure_pools :: "az_lb \<Rightarrow> go_error + az_lb \<times> bool" where
  "ensure_pools azlb =
     (case al_BackendAddressPools azlb of
        None \<Rightarrow> Inl (Panic (NilDereference ''azlb.BackendAddressPools''))
      | Some [] \<Rightarrow> Inr (azlb\<lparr>al_BackendAddressPools := Some [default_pool]\<rparr>, True)
      | Some (_ # _) \<Rightarrow> Inr (azlb, False))"

definition ensure_frontends :: "azure_provider \<Rightarrow> az_lb \<Rightarrow> az_lb \<times> bool" where
  "ensure_frontends spec azlb =
     (let frontsConfig = getAzureLoadBalancerFrontendIPConfigByConfig (az_IPAddressProperties spec) in
      if isEqual frontsConfig (getAzureLoadBalancerFrontendIPConfigBrief (al_FrontendIPConfigurations azlb))
      then (azlb, False)
      else (azlb\<lparr>al_FrontendIPConfigurations := frontsConfig\<rparr>, True))"

definition ensureSyncDefaultConfigExceptRules :: "az_lb \<Rightarrow> load_balancer \<Rightarrow> go_error + az_lb \<times> bool" where
  "ensureSyncDefaultConfigExceptRules azlb lb =
     (case ensure_probes azlb of (azlb1, change1) \<Rightarrow>
        (case ensure_pools azlb1 of
           Inl e \<Rightarrow> Inl e
         | Inr (azlb2, change2) \<Rightarrow>
            (case azure_spec lb of
               Inl e \<Rightarrow> Inl e
             | Inr spec \<Rightarrow>
                (case ensure_frontends spec azlb2 of
                   (azlb3, change3) \<Rightarrow> Inr (azlb3, change1 \<or> change2 \<or> change3)))))"

section \<open>The default rules\<close>

definition rule_brief :: "az_rule \<Rightarrow> go_error + az_rule" where
  "rule_brief x =
     (case (lr_FrontendIPConfiguration x, lr_BackendAddressPool x, lr_Probe x) of
        (None, _, _) \<Rightarrow> Inl (Panic (NilDereference ''x.FrontendIPConfiguration''))
      | (_, None, _) \<Rightarrow> Inl (Panic (NilDereference ''x.BackendAddressPool''))
      | (_, _, None) \<Rightarrow> Inl (Panic (NilDereference ''x.Probe''))
      | (Some f, Some b, Some p) \<Rightarrow> Inr
          \<lparr> lr_Name = lr_Name x, lr_ID = None, lr_FrontendIPConfiguration = Some f,
            lr_BackendAddressPool = Some b, lr_Probe = Some p, lr_Protocol = lr_Protocol x,
            lr_LoadDistribution = lr_LoadDistribution x, lr_FrontendPort = lr_FrontendPort x,
            lr_BackendPort = lr_BackendPort x, lr_IdleTimeoutInMinutes = lr_IdleTimeoutInMinutes x,
            lr_EnableFloatingIP = lr_EnableFloatingIP x, lr_DisableOutboundSnat = lr_DisableOutboundSnat x \<rparr>)"

definition equalRule :: "az_rule \<Rightarrow> az_rule \<Rightarrow> go_error + bool" where
  "equalRule x brief = (case rule_brief x of Inl e \<Rightarrow> Inl e | Inr xbrief \<Rightarrow> Inr (xbrief = brief))"

fun rule_exists :: "az_rule list \<Rightarrow> az_rule \<Rightarrow> go_error + bool" where
  "rule_exists [] defaultRule = Inr False"
| "rule_exists (rule # rules) defaultRule =
     (case equalRule rule defaultRule of
        Inl e \<Rightarrow> Inl e
      | Inr eq \<Rightarrow> if eq then Inr True else rule_exists rules defaultRule)"

text \<open>The loop over the default rules: the rules so far and whether one was added.\<close>

fun patchAzureLoadBalancerDefaultRules :: "az_rule list \<Rightarrow> az_rule list \<Rightarrow> bool \<Rightarrow> go_error + az_rule list \<times> bool" where
  "patchAzureLoadBalancerDefaultRules rules [] change = Inr (rules, change)"
| "patchAzureLoadBalancerDefaultRules rules (defaultRule # defaultRules) change =
     (case rule_exists rules defaultRule of
        Inl e \<Rightarrow> Inl e
      | Inr exist \<Rightarrow>
          if exist then patchAzureLoadBalancerDefaultRules rules defaultRules change
          else patchAzureLoadBalancerDefaultRules (rules @ [defaultRule]) defaultRules True)"

text \<open>The default rules of a load balancer.\<close>

definition default_rules_of :: "az_lb \<Rightarrow> go_error + az_rule list" where
  "default_rules_of azlb =
     (case deref_first ''azlb.FrontendIPConfigurations'' (al_FrontendIPConfigurations azlb) of
        Inl e \<Rightarrow> Inl e
      | Inr frontend \<Rightarrow>
         (case deref_first ''azlb.BackendAddressPools'' (al_BackendAddressPools azlb) of
            Inl e \<Rightarrow> Inl e
          | Inr pool \<Rightarrow>
             (case deref ''azlb.Probes'' (al_Probes azlb) of
                Inl e \<Rightarrow> Inl e
              | Inr probes \<Rightarrow>
                  Inr (azureLBProbes2Rules (to_String (fe_ID frontend)) (to_String (pl_ID pool)) probes))))"

definition patched_rules :: "az_lb \<Rightarrow> az_rule list \<Rightarrow> go_error + az_rule list \<times> bool" where
  "patched_rules azlb lbRules =
     (if rules_of azlb \<noteq> [] then patchAzureLoadBalancerDefaultRules (rules_of azlb) lbRules False
      else Inr (lbRules, True))"

definition ensureSyncDefaultRules ::
  "'w az_client \<Rightarrow> az_lb \<Rightarrow> load_balancer \<Rightarrow> ('w, go_error, az_lb) prog" where
  "ensureSyncDefaultRules c azlb lb =
     seqE (liftE (default_rules_of azlb)) (\<lambda>lbRules.
     seqE (liftE (patched_rules azlb lbRules)) (\<lambda>(rules, change).
       if \<not> change then retE azlb
       else seqE (liftE (azure_spec lb)) (\<lambda>spec.
              cl_lb_CreateOrUpdate c (az_ResourceGroupName spec) (to_String (al_Name azlb))
                (azlb\<lparr>al_LoadBalancingRules := Some rules\<rparr>))))"

definition ensureSyncDefaultAzureLBConfig ::
  "'w az_client \<Rightarrow> az_lb \<Rightarrow> load_balancer \<Rightarrow> ('w, go_error, az_lb) prog" where
  "ensureSyncDefaultAzureLBConfig c azlb lb =
     seqE (liftE (ensureSyncDefaultConfigExceptRules azlb lb)) (\<lambda>(azlb1, change).
     seqE (if change
           then seqE (liftE (deref ''azlb.LoadBalancingRules'' (al_LoadBalancingRules azlb1))) (\<lambda>rules.
                seqE (liftE (azure_spec lb)) (\<lambda>spec.
                  cl_lb_CreateOrUpdate c (az_ResourceGroupName spec) (to_String (al_Name azlb1))
                    (azlb1\<lparr>al_LoadBalancingRules := Some (take 0 rules)\<rparr>)))
           else retE azlb1) (\<lambda>azlb2.
       ensureSyncDefaultRules c azlb2 lb))"

section \<open>Creation, lookup and recovery\<close>

definition initClusterAzureLoadBalancerObject :: "load_balancer \<Rightarrow> string \<Rightarrow> go_error + az_lb" where
  "initClusterAzureLoadBalancerObject lb clusterID =
     (case azure_spec lb of
        Inl e \<Rightarrow> Inl e
      | Inr spec \<Rightarrow>
          let lbName = (if az_Name spec = [] then getAzureLBName (lb_Name lb) clusterID else az_Name spec)
          in Inr \<lparr> al_Name = Some lbName, al_Location = Some (az_Location spec), al_Sku = Some (az_SKU spec),
                   al_FrontendIPConfigurations =
                     getAzureLoadBalancerFrontendIPConfigByConfig (az_IPAddressProperties spec),
                   al_BackendAddressPools = None, al_LoadBalancingRules = None, al_Probes = None,
                   al_ProvisioningState = None \<rparr>)"

definition createAzureLoadBalancer :: "'w az_client \<Rightarrow> load_balancer \<Rightarrow> ('w, go_error, az_lb) prog" where
  "createAzureLoadBalancer c lb =
     seqE (liftE (azure_spec lb)) (\<lambda>spec.
     seqE (liftE (initClusterAzureLoadBalancerObject lb (az_ClusterID spec))) (\<lambda>azlb.
       cl_lb_CreateOrUpdate c (az_ResourceGroupName spec) (to_String (al_Name azlb)) azlb))"

text \<open>A \<open>Get\<close> whose not-found answer is a value: \<open>None\<close>.\<close>

definition get_lb :: "'w az_client \<Rightarrow> string \<Rightarrow> string \<Rightarrow> ('w, go_error, az_lb option) prog" where
  "get_lb c groupName lbName w =
     (case cl_lb_Get c groupName lbName w of
        (Inr azlb, w') \<Rightarrow> (Inr (Some azlb), w')
      | (Inl e, w') \<Rightarrow>
          (case IsNotFound e of
             Inl p \<Rightarrow> (Inl p, w')
           | Inr gone \<Rightarrow> (if gone then Inr None else Inl e, w')))"

definition getAzureLoadbalancer :: "'w az_client \<Rightarrow> string \<Rightarrow> string \<Rightarrow> ('w, go_error, az_lb option) prog" where
  "getAzureLoadbalancer c groupName lbName =
     (if lbName = [] then retE None else get_lb c groupName lbName)"

definition recoverDefaultAzureLoadBalancer ::
  "'w az_client \<Rightarrow> string \<Rightarrow> string \<Rightarrow> ('w, go_error, unit) prog" where
  "recoverDefaultAzureLoadBalancer c groupName lbName =
     seqE (get_lb c groupName lbName) (\<lambda>found.
       case found of
         None \<Rightarrow> retE ()
       | Some azlb0 \<Rightarrow>
           let azlb = azlb0\<lparr>al_LoadBalancingRules := map_option (take 0) (al_LoadBalancingRules azlb0),
                            al_Probes := map_option (take 0) (al_Probes azlb0)\<rparr> in
           seqE (case elems (al_BackendAddressPools azlb) of
                   [] \<Rightarrow> retE ()
                 | pool # _ \<Rightarrow>
                     forE (elems (pl_BackendIPConfigurations pool)) (\<lambda>config.
                       detachNetworkInterfacesAndLoadBalancer c (to_String config) (to_String (pl_ID pool)))) (\<lambda>_.
           seqE (cl_lb_CreateOrUpdate c groupName lbName azlb) (\<lambda>_. retE ())))"

section \<open>Rules, pools and security groups\<close>

definition usePublicAddress :: "load_balancer \<Rightarrow> bool" where
  "usePublicAddress lb =
     (case ps_Azure (lb_Providers lb) of
        None \<Rightarrow> False
      | Some spec \<Rightarrow> ap_Public (az_IPAddressProperties spec) \<noteq> None)"

definition getGroupName :: "load_balancer \<Rightarrow> string" where
  "getGroupName lb = (case ps_Azure (lb_Providers lb) of None \<Rightarrow> [] | Some spec \<Rightarrow> az_ResourceGroupName spec)"

text \<open>
  \<open>syncRules\<close> changes the rules of the load balancer the caller holds; what Azure answers to the
  update is assigned to the parameter only, so the caller does not see it.
\<close>

definition syncRules ::
  "'w az_client \<Rightarrow> az_lb \<Rightarrow> gomap option \<Rightarrow> gomap option \<Rightarrow> string \<Rightarrow> ('w, go_error, az_lb) prog" where
  "syncRules c azlb tcpMap udpMap groupName =
     (case makeUpRules azlb (copyMap tcpMap) (copyMap udpMap) of
        (azlb', change) \<Rightarrow>
          if change
          then seqE (cl_lb_CreateOrUpdate c groupName (to_String (al_Name azlb')) azlb') (\<lambda>_. retE azlb')
          else retE azlb')"

definition ensureSyncRulesAndBackendPools ::
  "range_order \<Rightarrow> 'w az_client \<Rightarrow> store_lister \<Rightarrow> az_lb \<Rightarrow> load_balancer \<Rightarrow> gomap option \<Rightarrow> gomap option
   \<Rightarrow> ('w, go_error, az_lb) prog" where
  "ensureSyncRulesAndBackendPools ord c L azlb lb tcpMap udpMap =
     seqE (syncRules c azlb tcpMap udpMap (getGroupName lb)) (\<lambda>azlb'.
     seqE (syncBackendPools ord c L azlb' lb) (\<lambda>(detachNetworks, azlbBackendNetworksMap).
     seqE (if usePublicAddress lb
           then syncSecurityGroupRules ord c
                  (AList.update ''443'' [] (AList.update ''80'' [] (copyMap tcpMap))) (copyMap udpMap)
                  detachNetworks azlbBackendNetworksMap
           else retE ()) (\<lambda>_.
       retE azlb')))"

section \<open>The default configuration settles\<close>

text \<open>
  The addresses for which what is configured is what the brief of it shows: a fixed private address
  and no public one, or no private block at all.
\<close>

definition settles :: "azure_ip_properties \<Rightarrow> bool" where
  "settles properties \<longleftrightarrow>
     (case ap_Private properties of
        None \<Rightarrow> True
      | Some p \<Rightarrow> if pr_PrivateIPAddress p = None then pr_IPAllocationMethod p = [] else ap_Public properties = None)"

lemma frontend_brief_shape:
  "frontend_brief f = Some b \<Longrightarrow> fe_Properties b = Some fmt \<Longrightarrow>
     (if fp_PrivateIPAddress fmt = None then fp_PrivateIPAllocationMethod fmt = [] else fp_PublicIPAddress fmt = None)"
  by (auto simp: frontend_brief_def split: option.splits)

lemma brief_of_config:
  assumes "settles ps"
  shows "getAzureLoadBalancerFrontendIPConfigBrief (getAzureLoadBalancerFrontendIPConfigByConfig ps)
    = getAzureLoadBalancerFrontendIPConfigByConfig ps"
  using assms
  by (auto simp: settles_def getAzureLoadBalancerFrontendIPConfigBrief_def List.map_filter_simps
      getAzureLoadBalancerFrontendIPConfigByConfig_def frontend_brief_def Let_def split: option.splits if_splits)

lemma brief_never_config:
  assumes "\<not> settles ps"
  shows "getAzureLoadBalancerFrontendIPConfigBrief fes \<noteq> getAzureLoadBalancerFrontendIPConfigByConfig ps"
proof
  have "\<exists>fe fmt. getAzureLoadBalancerFrontendIPConfigByConfig ps = Some [fe] \<and> fe_Properties fe = Some fmt
      \<and> \<not> (if fp_PrivateIPAddress fmt = None then fp_PrivateIPAllocationMethod fmt = []
             else fp_PublicIPAddress fmt = None)"
    using assms
    by (cases "ap_Private ps"; cases "ap_Public ps")
      (auto simp: settles_def getAzureLoadBalancerFrontendIPConfigByConfig_def Let_def split: if_splits)
  then obtain fe fmt where cfg: "getAzureLoadBalancerFrontendIPConfigByConfig ps = Some [fe]" "fe_Properties fe = Some fmt"
      and bad: "\<not> (if fp_PrivateIPAddress fmt = None then fp_PrivateIPAllocationMethod fmt = []
                  else fp_PublicIPAddress fmt = None)"
    by blast
  assume "getAzureLoadBalancerFrontendIPConfigBrief fes = getAzureLoadBalancerFrontendIPConfigByConfig ps"
  then have "List.map_filter frontend_brief (elems fes) = [fe]"
    by (auto simp: cfg getAzureLoadBalancerFrontendIPConfigBrief_def split: if_splits)
  then have "fe \<in> set (List.map_filter frontend_brief (elems fes))" by simp
  then obtain f where "frontend_brief f = Some fe" by (auto simp: List.map_filter_def)
  from frontend_brief_shape [OF this cfg(2)] bad show False by simp
qed

lemma probes_brief_default: "getProbesBrief (Some defaultClusterAzureLBProbes) = Some defaultClusterAzureLBProbes"
  by (simp add: getProbesBrief_def defaultClusterAzureLBProbes_def probe_brief_def)

lemma lb_update_same:
  "azlb\<lparr>al_Probes := x\<rparr> = azlb \<longleftrightarrow> x = al_Probes azlb"
  "azlb\<lparr>al_BackendAddressPools := y\<rparr> = azlb \<longleftrightarrow> y = al_BackendAddressPools azlb"
  "azlb\<lparr>al_FrontendIPConfigurations := z\<rparr> = azlb \<longleftrightarrow> z = al_FrontendIPConfigurations azlb"
  "azlb\<lparr>al_LoadBalancingRules := u\<rparr> = azlb \<longleftrightarrow> u = al_LoadBalancingRules azlb"
  by (cases azlb; auto)+

lemma ensure_probes_ok:
  assumes "ensure_probes azlb = (azlb', change)"
  shows "getProbesBrief (al_Probes azlb') = Some defaultClusterAzureLBProbes \<and> (change \<longleftrightarrow> azlb' \<noteq> azlb)
    \<and> azlb' = azlb\<lparr>al_Probes := al_Probes azlb'\<rparr>"
  using assms probes_brief_default by (auto simp: ensure_probes_def isEqual_def lb_update_same split: if_splits)

lemma ensure_pools_ok:
  assumes "ensure_pools azlb = Inr (azlb', change)"
  shows "elems (al_BackendAddressPools azlb') \<noteq> [] \<and> (change \<longleftrightarrow> azlb' \<noteq> azlb)
    \<and> azlb' = azlb\<lparr>al_BackendAddressPools := al_BackendAddressPools azlb'\<rparr>"
  using assms by (auto simp: ensure_pools_def lb_update_same split: option.splits list.splits)

lemma ensure_frontends_ok:
  assumes "ensure_frontends spec azlb = (azlb', change)"
  shows "(if change then al_FrontendIPConfigurations azlb' =
        getAzureLoadBalancerFrontendIPConfigByConfig (az_IPAddressProperties spec)
      else azlb' = azlb \<and> getAzureLoadBalancerFrontendIPConfigBrief (al_FrontendIPConfigurations azlb)
        = getAzureLoadBalancerFrontendIPConfigByConfig (az_IPAddressProperties spec))
    \<and> azlb' = azlb\<lparr>al_FrontendIPConfigurations := al_FrontendIPConfigurations azlb'\<rparr>"
  using assms by (auto simp: ensure_frontends_def Let_def isEqual_def split: if_splits)

lemma except_rules_parts:
  assumes "azure_spec lb = Inr spec" "ensureSyncDefaultConfigExceptRules azlb lb = Inr (azlb', change)"
  obtains az1 c1 az2 c2 c3 where "ensure_probes azlb = (az1, c1)" "ensure_pools az1 = Inr (az2, c2)"
    "ensure_frontends spec az2 = (azlb', c3)" "change \<longleftrightarrow> c1 \<or> c2 \<or> c3"
  using assms by (auto simp: ensureSyncDefaultConfigExceptRules_def split: sum.splits prod.splits)

text \<open>What the default configuration is, but for the frontends.\<close>

definition default_parts :: "az_lb \<Rightarrow> bool" where
  "default_parts azlb \<longleftrightarrow> getProbesBrief (al_Probes azlb) = Some defaultClusterAzureLBProbes
     \<and> elems (al_BackendAddressPools azlb) \<noteq> []"

lemma except_rules_default:
  assumes "azure_spec lb = Inr spec" "ensureSyncDefaultConfigExceptRules azlb lb = Inr (azlb', change)"
  defines "cfg \<equiv> getAzureLoadBalancerFrontendIPConfigByConfig (az_IPAddressProperties spec)"
  shows "default_parts azlb'" "change \<or> azlb' = azlb"
    "al_Name azlb' = al_Name azlb" "al_LoadBalancingRules azlb' = al_LoadBalancingRules azlb"
    "al_FrontendIPConfigurations azlb' = cfg
      \<or> getAzureLoadBalancerFrontendIPConfigBrief (al_FrontendIPConfigurations azlb') = cfg"
    "\<not> settles (az_IPAddressProperties spec) \<longrightarrow> change"
proof -
  obtain az1 c1 az2 c2 c3 where p: "ensure_probes azlb = (az1, c1)" "ensure_pools az1 = Inr (az2, c2)"
    "ensure_frontends spec az2 = (azlb', c3)" "change \<longleftrightarrow> c1 \<or> c2 \<or> c3"
    using except_rules_parts [OF assms(1,2)] .
  note 1 = ensure_probes_ok [OF p(1)] and 2 = ensure_pools_ok [OF p(2)] and 3 = ensure_frontends_ok [OF p(3)]
  obtain x y z where eq: "azlb' = azlb\<lparr>al_Probes := x, al_BackendAddressPools := y, al_FrontendIPConfigurations := z\<rparr>"
      "al_Probes az1 = x" "al_BackendAddressPools az2 = y"
    using 1 2 3 by metis
  show "default_parts azlb'" using 1 2 eq by (simp add: default_parts_def)
  show "change \<or> azlb' = azlb" using 1 2 3 p(4) by auto
  show "al_Name azlb' = al_Name azlb" "al_LoadBalancingRules azlb' = al_LoadBalancingRules azlb" using eq by simp_all
  show "al_FrontendIPConfigurations azlb' = cfg
      \<or> getAzureLoadBalancerFrontendIPConfigBrief (al_FrontendIPConfigurations azlb') = cfg"
    using 3 by (auto simp: cfg_def split: if_splits)
  show "\<not> settles (az_IPAddressProperties spec) \<longrightarrow> change"
    using 3 p(4) brief_never_config by (metis (full_types))
qed

lemma except_rules_again:
  assumes "azure_spec lb = Inr spec" "default_parts azlb"
    "getAzureLoadBalancerFrontendIPConfigBrief (al_FrontendIPConfigurations azlb)
       = getAzureLoadBalancerFrontendIPConfigByConfig (az_IPAddressProperties spec)"
  shows "ensureSyncDefaultConfigExceptRules azlb lb = Inr (azlb, False)"
proof -
  obtain pool pools where "al_BackendAddressPools azlb = Some (pool # pools)"
    using assms(2) by (auto simp: default_parts_def elems_def neq_Nil_conv split: option.splits)
  with assms show ?thesis
    by (simp add: ensureSyncDefaultConfigExceptRules_def ensure_probes_def ensure_pools_def ensure_frontends_def
        isEqual_def default_parts_def)
qed

section \<open>The default rules\<close>

lemma equalRule_self: "rule_brief d = Inr d \<Longrightarrow> equalRule d d = Inr True"
  by (simp add: equalRule_def)

lemma rule_exists_append:
  "rule_exists rules d = Inr True \<Longrightarrow> rule_exists (rules @ xs) d = Inr True"
  "rule_exists rules d = Inr False \<Longrightarrow> rule_exists (rules @ xs) d = rule_exists xs d"
  by (induction rules) (auto split: sum.splits if_splits)

lemma rule_exists_iff:
  "rule_exists rules d = Inr True \<Longrightarrow> \<exists>r \<in> set rules. rule_brief r = Inr d"
  by (induction rules) (auto simp: equalRule_def split: sum.splits if_splits)

lemma rule_exists_briefs:
  "\<forall>x \<in> set ds. rule_brief x = Inr x \<Longrightarrow> rule_exists ds d = Inr (d \<in> set ds)"
  by (induction ds) (auto simp: equalRule_def)

lemma patch_ok:
  assumes "patchAzureLoadBalancerDefaultRules rules ds change = Inr (rules', change')"
    "\<forall>d \<in> set ds. rule_brief d = Inr d"
  shows "prefix rules rules' \<and> (change' \<longleftrightarrow> change \<or> rules' \<noteq> rules) \<and> set rules' \<subseteq> set rules \<union> set ds
    \<and> (\<forall>d \<in> set ds. rule_exists rules' d = Inr True)"
  using assms
proof (induction rules ds change rule: patchAzureLoadBalancerDefaultRules.induct)
  case (1 rules change)
  then show ?case by auto
next
  case (2 rules d ds change)
  obtain exist where e: "rule_exists rules d = Inr exist" using "2.prems"(1) by (auto split: sum.splits)
  have self: "rule_exists [d] d = Inr True" using "2.prems"(2) by (simp add: equalRule_self)
  show ?case
  proof (cases exist)
    case True
    then have "prefix rules rules' \<and> (change' \<longleftrightarrow> change \<or> rules' \<noteq> rules) \<and> set rules' \<subseteq> set rules \<union> set ds
        \<and> (\<forall>d \<in> set ds. rule_exists rules' d = Inr True)"
      using "2.IH"(1) [OF e True] "2.prems" e by simp
    then show ?thesis using e True rule_exists_append(1) [of rules d] by (auto simp: prefix_def)
  next
    case False
    then have IH: "prefix (rules @ [d]) rules' \<and> change' \<and> set rules' \<subseteq> set (rules @ [d]) \<union> set ds
        \<and> (\<forall>d \<in> set ds. rule_exists rules' d = Inr True)"
      using "2.IH"(2) [OF e False] "2.prems" e by simp
    obtain zs where zs: "rules' = (rules @ [d]) @ zs" using IH by (auto simp: prefix_def)
    have "rule_exists (rules @ [d]) d = Inr True" using e False self rule_exists_append(2) by simp
    then have "rule_exists rules' d = Inr True" unfolding zs by (rule rule_exists_append(1))
    then show ?thesis using IH zs by simp
  qed
qed

lemma patch_again:
  assumes "\<forall>d \<in> set ds. rule_exists rules d = Inr True"
  shows "patchAzureLoadBalancerDefaultRules rules ds change = Inr (rules, change)"
  using assms by (induction ds) simp_all

lemma default_rules_brief:
  assumes "default_rules_of azlb = Inr defaults" "d \<in> set defaults"
  shows "rule_brief d = Inr d"
  using assms by (auto simp: default_rules_of_def azureLBProbes2Rules_def rule_brief_def split: sum.splits)

lemma patched_rules_ok:
  assumes "default_rules_of azlb = Inr defaults" "defaults \<noteq> []" "patched_rules azlb defaults = Inr (rules, change)"
  shows "prefix (rules_of azlb) rules \<and> (change \<longleftrightarrow> rules \<noteq> rules_of azlb)
    \<and> set rules \<subseteq> set (rules_of azlb) \<union> set defaults \<and> (\<forall>d \<in> set defaults. rule_exists rules d = Inr True)"
proof (cases "rules_of azlb = []")
  case True
  have brief: "\<forall>d \<in> set defaults. rule_brief d = Inr d" using default_rules_brief [OF assms(1)] by blast
  from True have "rules = defaults" "change" using assms(3) by (auto simp: patched_rules_def)
  moreover have "rule_exists defaults d = Inr True" if "d \<in> set defaults" for d
    using rule_exists_briefs [OF brief] that by simp
  ultimately show ?thesis using True assms(2) by simp
next
  case False
  have brief: "\<forall>d \<in> set defaults. rule_brief d = Inr d" using default_rules_brief [OF assms(1)] by blast
  from False show ?thesis using patch_ok [OF _ brief] assms(3) by (fastforce simp: patched_rules_def)
qed

section \<open>Properties\<close>

text \<open>
  C25: the default configuration. After \<open>ensureSyncDefaultConfigExceptRules\<close> the probes are the default ones
  and there is a backend pool. With a public address or a fixed private one the frontends are the
  configured ones and a second run changes nothing; with a dynamic private address every run finds a
  difference, whatever Azure holds.
\<close>

theorem default_config_settles:
  assumes "azure_spec lb = Inr spec" "ensureSyncDefaultConfigExceptRules azlb lb = Inr (azlb', change)"
  shows "getProbesBrief (al_Probes azlb') = Some defaultClusterAzureLBProbes
    \<and> elems (al_BackendAddressPools azlb') \<noteq> [] \<and> (change \<or> azlb' = azlb)
    \<and> (if settles (az_IPAddressProperties spec)
       then getAzureLoadBalancerFrontendIPConfigBrief (al_FrontendIPConfigurations azlb')
              = getAzureLoadBalancerFrontendIPConfigByConfig (az_IPAddressProperties spec)
          \<and> ensureSyncDefaultConfigExceptRules azlb' lb = Inr (azlb', False)
       else change)"
proof -
  note r = except_rules_default [OF assms]
  have "getAzureLoadBalancerFrontendIPConfigBrief (al_FrontendIPConfigurations azlb')
      = getAzureLoadBalancerFrontendIPConfigByConfig (az_IPAddressProperties spec)"
    if "settles (az_IPAddressProperties spec)"
    using r(5) brief_of_config [OF that] by metis
  with r(1,2,6) except_rules_again [OF assms(1) r(1)] show ?thesis by (simp add: default_parts_def)
qed

text \<open>An Azure block with a private address, and a resource that has it.\<close>

definition example_spec :: "string \<Rightarrow> string option \<Rightarrow> azure_provider" where
  "example_spec method addr =
     \<lparr> az_Name = ''lb'', az_ResourceGroupName = ''g'', az_Location = ''chinaeast'', az_SKU = AzureBasicSKU,
       az_ClusterID = ''c'', az_ReserveAzure = None,
       az_IPAddressProperties = \<lparr> ap_Private = Some \<lparr> pr_IPAllocationMethod = method, pr_VPCID = ''v'',
         pr_SubnetID = ''s'', pr_PrivateIPAddress = addr \<rparr>, ap_Public = None \<rparr> \<rparr>"

definition azure_example_lb :: "azure_provider option \<Rightarrow> load_balancer" where
  "azure_example_lb spec =
     \<lparr> lb_Namespace = ''ns'', lb_Name = ''lb'', lb_ResourceVersion = ''1'', lb_DeletionTimestamp = None,
       lb_Finalizers = None, lb_Nodes = \<lparr> ns_Replicas = None, ns_Names = [], ns_Effect = None \<rparr>,
       lb_Proxy = new_proxy 80 443,
       lb_Providers = \<lparr> ps_External = None, ps_Ipvsdr = None, ps_Aliyun = None, ps_Azure = spec \<rparr>,
       lb_Accessible = False, lb_AccessIPs = None, lb_NodeIPs = None, lb_ProxyStatus = new_proxy_status ''tcp'' ''udp'',
     lb_ExternalStatus = None, lb_IpvsdrStatus = None, lb_AliyunStatus = None, lb_AzureStatus = None,
       lb_NodeStatuses = None \<rparr>"

lemma azure_spec_example [simp]: "azure_spec (azure_example_lb (Some spec)) = Inr spec"
  by (simp add: azure_spec_def azure_example_lb_def)

lemma default_config_settles_witness:
  "\<exists>azlb'. ensureSyncDefaultConfigExceptRules example_azlb
       (azure_example_lb (Some (example_spec AzureStaticIPAllocationMethod (Some ''10.0.0.4'')))) = Inr (azlb', True)
     \<and> ensureSyncDefaultConfigExceptRules azlb'
       (azure_example_lb (Some (example_spec AzureStaticIPAllocationMethod (Some ''10.0.0.4'')))) = Inr (azlb', False)"
proof -
  let ?spec = "example_spec AzureStaticIPAllocationMethod (Some ''10.0.0.4'')"
  obtain azlb' where run: "ensureSyncDefaultConfigExceptRules example_azlb (azure_example_lb (Some ?spec)) = Inr (azlb', True)"
    by (simp add: ensureSyncDefaultConfigExceptRules_def ensure_probes_def ensure_pools_def ensure_frontends_def
        isEqual_def example_azlb_def probes_brief_default getAzureLoadBalancerFrontendIPConfigBrief_def
        frontend_brief_def List.map_filter_simps getAzureLoadBalancerFrontendIPConfigByConfig_def Let_def)
  have "settles (az_IPAddressProperties ?spec)" by (simp add: settles_def example_spec_def)
  with default_config_settles [OF azure_spec_example run] run show ?thesis by simp
qed



text \<open>
  The default rules. What \<open>ensureSyncDefaultRules\<close> sends has, for each probe, a rule with exactly the
  default fields; the rules that were there stay first and in their order, only default rules are
  added, and on the result nothing is to be added.
\<close>

theorem default_rules_present:
  assumes "default_rules_of azlb = Inr defaults" "defaults \<noteq> []" "patched_rules azlb defaults = Inr (rules, change)"
  shows "(\<forall>d \<in> set defaults. \<exists>r \<in> set rules. rule_brief r = Inr d)
    \<and> prefix (rules_of azlb) rules \<and> set rules \<subseteq> set (rules_of azlb) \<union> set defaults
    \<and> (change \<longleftrightarrow> rules \<noteq> rules_of azlb)
    \<and> patched_rules (azlb\<lparr>al_LoadBalancingRules := Some rules\<rparr>) defaults = Inr (rules, False)"
proof -
  note r = patched_rules_ok [OF assms]
  then have "rules \<noteq> []" using assms(2) by (cases defaults) auto
  with r show ?thesis using rule_exists_iff patch_again by (auto simp: patched_rules_def rules_of_def)
qed

lemma default_rules_present_witness:
  "\<exists>defaults rules. default_rules_of example_azlb = Inr defaults \<and> length defaults = 2
     \<and> patched_rules example_azlb defaults = Inr (rules, True) \<and> length rules = 4
     \<and> patched_rules (example_azlb\<lparr>al_LoadBalancingRules := Some rules\<rparr>) defaults = Inr (rules, False)"
proof -
  obtain defaults where d: "default_rules_of example_azlb = Inr defaults" "length defaults = 2"
    by (simp add: default_rules_of_def example_azlb_def deref_first_def deref_def azureLBProbes2Rules_def
        defaultClusterAzureLBProbes_def)
  obtain rules where r: "patched_rules example_azlb defaults = Inr (rules, True)" "length rules = 4"
    using d by (auto simp: default_rules_of_def example_azlb_def deref_first_def deref_def azureLBProbes2Rules_def
        defaultClusterAzureLBProbes_def patched_rules_def rules_of_def equalRule_def rule_brief_def example_rule_def)
  have "defaults \<noteq> []" using d(2) by auto
  from default_rules_present [OF d(1) this r(1)] d r show ?thesis by blast
qed

end
