(* ===== verification/AzureSync.thy ===== *)
theory AzureSync
  imports AzureDefaults
begin

text \<open>
  What a whole sync leaves in Azure: the load balancer that is stored there in the end has a rule for
  every port of the config maps and the default rules, whatever happened to the network interfaces
  and security groups in between. The laws of Azure's load balancers are the locale \<open>lb_service\<close>; the
  calls that leave something alone are closed under sequencing and loops.
\<close>

section \<open>Calls that leave something alone\<close>

text \<open>A call that leaves a view of the state alone is one that maintains each of its values.\<close>

abbreviation keeps :: "('s \<Rightarrow> 'v) \<Rightarrow> 'v \<Rightarrow> ('s, 'e, 'a) prog \<Rightarrow> bool" where
  "keeps f v m \<equiv> maintains (\<lambda>s. f s = v) m"

lemma maintains_on_cloud [maintains_intros]: "maintains P m \<Longrightarrow> maintains (\<lambda>s. P (fst s)) (on_cloud m)"
  by (simp add: maintains_def on_cloud_def split: prod.split) (metis snd_conv)

lemma maintains_liftE [maintains_intros]: "maintains P (liftE r)"
  by (simp add: maintains_def liftE_def)

section \<open>Azure's load balancers\<close>

text \<open>
  The rules of a stored load balancer, without the IDs Azure gives them. A successful \<open>Get\<close> answers
  the stored load balancer; a successful \<open>CreateOrUpdate\<close> stores the rules that were sent and
  answers the stored load balancer, with the probes, pools and frontends that were sent; calls about
  other resources change no rule.
\<close>

definition rule_view :: "az_rule \<Rightarrow> az_rule" where
  "rule_view r = r\<lparr>lr_ID := None\<rparr>"

definition rules_view :: "az_lb \<Rightarrow> az_rule list" where
  "rules_view azlb = map rule_view (rules_of azlb)"

definition stored_as :: "az_lb \<Rightarrow> az_lb \<Rightarrow> bool" where
  "stored_as sent got \<longleftrightarrow> al_Name got = al_Name sent \<and> rules_view got = rules_view sent
     \<and> getProbesBrief (al_Probes got) = getProbesBrief (al_Probes sent)
     \<and> length (elems (al_BackendAddressPools got)) = length (elems (al_BackendAddressPools sent))
     \<and> length (elems (al_FrontendIPConfigurations got)) = length (elems (al_FrontendIPConfigurations sent))"

lemma view_claims: "claims p k (rule_view r) = claims p k r"
  by (simp add: claims_def rule_view_def rule_key_def well_named_def)

lemma view_list_ex: "list_ex (claims p k) (map rule_view rs) = list_ex (claims p k) rs"
  by (auto simp: list_ex_iff view_claims)

lemma view_good: "good_rules tcp udp (map rule_view rs) = good_rules tcp udp rs"
proof -
  have 1: "untouched (rule_view r) = untouched r" "wanted tcp udp (rule_view r) = wanted tcp udp r"
    "claim_of (rule_view r) = claim_of r" for r
    by (simp_all add: untouched_def isDefaultRules_def wanted_def well_named_def rule_key_def claim_of_def rule_view_def)
  then have "served_claims (map rule_view rs) = served_claims rs"
    by (simp add: served_claims_def filter_map o_def)
  with 1 show ?thesis by (simp add: good_rules_def)
qed

text \<open>A TCP rule that forwards a port to the same port of the pool.\<close>

definition forwards :: "int32 \<Rightarrow> az_rule list \<Rightarrow> bool" where
  "forwards port rules \<longleftrightarrow> (\<exists>r \<in> set rules. lr_Protocol r = TransportProtocolTCP \<and> lr_FrontendPort r = Some port
     \<and> lr_BackendPort r = Some port \<and> well_named r)"

lemma view_forwards: "forwards port (map rule_view rs) = forwards port rs"
  by (simp add: forwards_def rule_view_def well_named_def)

lemma default_parts_ports:
  "default_parts azlb \<Longrightarrow> map pb_Port (elems (al_Probes azlb)) = [Some 80, Some 443]"
proof -
  assume "default_parts azlb"
  then have "map probe_brief (elems (al_Probes azlb)) = defaultClusterAzureLBProbes"
    by (auto simp: default_parts_def getProbesBrief_def split: if_splits)
  then have "map pb_Port (map probe_brief (elems (al_Probes azlb))) = map pb_Port defaultClusterAzureLBProbes" by simp
  then show ?thesis by (simp add: o_def probe_brief_def defaultClusterAzureLBProbes_def)
qed

lemma default_rules_forward:
  assumes "default_rules_of azlb = Inr defaults" "default_parts azlb" "port \<in> {80, 443}"
  shows "forwards port defaults" "defaults \<noteq> []"
proof -
  obtain f b probes where d: "defaults = azureLBProbes2Rules f b probes" "al_Probes azlb = Some probes"
    using assms(1) by (auto simp: default_rules_of_def deref_def split: sum.splits option.splits)
  have ports: "map pb_Port probes = [Some 80, Some 443]" using default_parts_ports [OF assms(2)] d(2) by simp
  then obtain x y where "probes = [x, y]" "pb_Port x = Some 80" "pb_Port y = Some 443" by auto
  with assms(3) show "forwards port defaults" "defaults \<noteq> []"
    by (auto simp: d(1) azureLBProbes2Rules_def forwards_def well_named_def)
qed

lemma patched_forwards:
  assumes "default_rules_of azlb = Inr defaults" "default_parts azlb" "patched_rules azlb defaults = Inr (rules, change)"
    "port \<in> {80, 443}"
  shows "forwards port rules"
proof -
  note d = default_rules_forward [OF assms(1,2,4)]
  obtain r where r: "r \<in> set defaults" "lr_Protocol r = TransportProtocolTCP" "lr_FrontendPort r = Some port"
     "lr_BackendPort r = Some port" "well_named r"
    using d(1) by (auto simp: forwards_def)
  have "rule_exists rules r = Inr True" using patched_rules_ok [OF assms(1) d(2) assms(3)] r(1) by blast
  then obtain x where "x \<in> set rules" "rule_brief x = Inr r" using rule_exists_iff by blast
  with r show ?thesis
    by (auto simp: forwards_def rule_brief_def well_named_def split: option.splits intro!: bexI [of _ x])
qed

lemma default_rules_ready:
  "default_rules_of azlb = Inr defaults \<Longrightarrow> default_parts azlb \<Longrightarrow> lb_ready azlb"
  using default_parts_ports [of azlb]
  by (auto simp: default_rules_of_def deref_first_def lb_ready_def split: sum.splits option.splits list.splits)

lemma stored_as_parts: "stored_as sent got \<Longrightarrow> default_parts sent \<Longrightarrow> default_parts got"
  by (auto simp: stored_as_def default_parts_def)

lemma stored_as_ready: "stored_as sent got \<Longrightarrow> lb_ready sent \<Longrightarrow> default_parts got \<Longrightarrow> lb_ready got"
  using default_parts_ports [of got] by (auto simp: stored_as_def lb_ready_def)

locale lb_service =
  fixes c :: "'w az_client" and stored :: "'w \<Rightarrow> string \<times> string \<Rightarrow> az_rule list option"
  assumes lb_get: "cl_lb_Get c g n w = (Inr azlb, w') \<Longrightarrow>
            stored w (g, n) = Some (rules_view azlb) \<and> al_Name azlb = Some n \<and> stored w' = stored w"
    and lb_get_err: "cl_lb_Get c g n w = (Inl e, w') \<Longrightarrow> stored w' = stored w"
    and lb_put: "cl_lb_CreateOrUpdate c g n sent w = (Inr got, w') \<Longrightarrow>
            stored w' = (stored w)((g, n) \<mapsto> rules_view sent) \<and> stored_as sent got"
    and others: "keeps stored v (cl_nic_Get c g n)" "keeps stored v (cl_nic_CreateOrUpdate c g n nic)"
      "keeps stored v (cl_sg_Get c g n)" "keeps stored v (cl_sg_CreateOrUpdate c g n sg)"
      "keeps stored v (cl_vm_Get c g n)" "keeps stored v (cl_ip_Get c g n)"
begin

lemmas sync_defs = syncBackendPools_def syncBackendPoolsWithNodes_def diffBackendPoolNetworkInterfaecs_def
  getBackendPoolIPFromNodes_def detachNetworkInterfacesAndLoadBalancer_def attachNetworkInterfacesAndLoadBalancer_def

lemma nodes_keep: "keeps stored v (backend_nodes_loop c L nodes nets)"
  by (induction nodes arbitrary: nets)
    (auto simp: getAzureNetworkInterfacesByNodeName_def getNetworkInterfacesFromVM_def
      intro!: maintains_intros others)

lemma pools_keep: "keeps stored v (syncBackendPools ord c L azlb lb)"
  unfolding sync_defs by (intro maintains_intros others nodes_keep)

lemma groups_keep: "keeps stored v (groups_of_networks c networks sgs)"
  by (induction networks arbitrary: sgs)
    (auto simp: getSecurityGroupIDFromNetWork_def intro!: maintains_intros others)

lemma clean_keep: "keeps stored v (deleteUselessSecurityRules ord c sgs)"
  unfolding deleteUselessSecurityRules_def clean_group_def by (intro maintains_intros others)

lemma security_keep: "keeps stored v (syncSecurityGroupRules ord c tcp udp detachs networks)"
proof -
  have group: "keeps (\<lambda>s. stored (fst s)) v (sync_group ord c sgID)" for sgID
  proof -
    have put: "stored w' = stored w" if "cl_sg_CreateOrUpdate c g n sg w = (r, w')" for g n sg w r w'
      using maintainsD [OF others(4) that refl] .
    have "keeps (\<lambda>s. stored (fst s)) v (\<lambda>s. case group_plan ord rules (fst (snd s)) (snd (snd s)) of
        (Inl e, ms) \<Rightarrow> (Inl e, (fst s, ms))
      | (Inr (newRules, change), ms) \<Rightarrow>
          if change then seqE (on_cloud (cl_sg_CreateOrUpdate c g n (sg\<lparr>sg_SecurityRules := Some newRules\<rparr>)))
              (\<lambda>_. retE ()) (fst s, ms) else (Inr (), (fst s, ms)))" for rules g n sg
      unfolding maintains_def by (auto simp: seqE_def on_cloud_def dest!: put split: prod.split sum.split)
    then show ?thesis unfolding sync_group_def
      by (intro maintains_intros others) 
  qed
  then have "keeps (\<lambda>s. stored (fst s)) v (ensureSyncRulesToSecurityGroups ord c sgs)" for sgs
    unfolding ensureSyncRulesToSecurityGroups_def by (intro maintains_intros)
  then have "keeps stored v (\<lambda>w. case ensureSyncRulesToSecurityGroups ord c sgs (w, tcp, udp) of (r, s) \<Rightarrow> (r, fst s))" for sgs
    unfolding maintains_def by (auto split: prod.split) (metis fst_conv snd_conv)
  then show ?thesis
    unfolding syncSecurityGroupRules_def getSuitableSecurityGroup_def
    by (intro maintains_intros groups_keep clean_keep)
qed

lemma tail_keep:
  "keeps stored v (seqE (syncBackendPools ord c L azlb lb) (\<lambda>(detachs, nets).
     seqE (if b then syncSecurityGroupRules ord c tcp udp detachs nets else retE ()) (\<lambda>_. retE x)))"
  by (intro maintains_intros pools_keep security_keep)

lemma default_rules_stored:
  assumes "ensureSyncDefaultRules c azlb lb w = (Inr azlb', w')" "azure_spec lb = Inr spec" "default_parts azlb"
    "stored w (az_ResourceGroupName spec, to_String (al_Name azlb)) = Some (rules_view azlb)"
  shows "stored w' (az_ResourceGroupName spec, to_String (al_Name azlb)) = Some (rules_view azlb')
    \<and> al_Name azlb' = al_Name azlb \<and> lb_ready azlb' \<and> (\<forall>port \<in> {80, 443}. forwards port (rules_view azlb'))"
proof -
  obtain defaults where d: "default_rules_of azlb = Inr defaults"
    using assms(1) by (auto simp: ensureSyncDefaultRules_def split: sum.splits elim!: seqE_InrE) (cases "default_rules_of azlb"; simp)+
  obtain rules change where p: "patched_rules azlb defaults = Inr (rules, change)"
    using assms(1) by (cases "patched_rules azlb defaults") (auto simp: ensureSyncDefaultRules_def d)
  have fwd: "\<forall>port \<in> {80, 443}. forwards port rules" using patched_forwards [OF d assms(3) p] by blast
  have ready: "lb_ready azlb" using default_rules_ready [OF d assms(3)] .
  show ?thesis
  proof (cases change)
    case True
    let ?sent = "azlb\<lparr>al_LoadBalancingRules := Some rules\<rparr>"
    have put: "cl_lb_CreateOrUpdate c (az_ResourceGroupName spec) (to_String (al_Name azlb)) ?sent w = (Inr azlb', w')"
      using assms(1,2) by (simp add: ensureSyncDefaultRules_def d p True)
    note l = lb_put [OF put]
    have view: "rules_view ?sent = map rule_view rules" by (simp add: rules_view_def rules_of_def)
    have "default_parts ?sent" "lb_ready ?sent" using assms(3) ready by (simp_all add: default_parts_def lb_ready_def)
    then have "lb_ready azlb'" using l stored_as_ready stored_as_parts by blast
    then show ?thesis using l fwd by (simp add: stored_as_def view_forwards view)
  next
    case False
    then have "azlb' = azlb" "w' = w" using assms(1) by (simp_all add: ensureSyncDefaultRules_def d p)
    moreover have "rules = rules_of azlb"
      using patched_rules_ok [OF d default_rules_forward(2) [OF d assms(3)] p] False by auto
    ultimately show ?thesis using assms(4) ready fwd by (simp add: rules_view_def view_forwards)
  qed
qed

lemma default_config_stored:
  assumes "ensureSyncDefaultAzureLBConfig c azlb lb w = (Inr azlb', w')" "azure_spec lb = Inr spec"
    "stored w (az_ResourceGroupName spec, to_String (al_Name azlb)) = Some (rules_view azlb)"
  shows "stored w' (az_ResourceGroupName spec, to_String (al_Name azlb)) = Some (rules_view azlb')
    \<and> al_Name azlb' = al_Name azlb \<and> lb_ready azlb' \<and> (\<forall>port \<in> {80, 443}. forwards port (rules_view azlb'))"
proof -
  obtain azlb1 change where e: "ensureSyncDefaultConfigExceptRules azlb lb = Inr (azlb1, change)"
    using assms(1) by (cases "ensureSyncDefaultConfigExceptRules azlb lb") (auto simp: ensureSyncDefaultAzureLBConfig_def)
  note p = except_rules_default [OF assms(2) e]
  show ?thesis
  proof (cases change)
    case True
    obtain rules where r: "al_LoadBalancingRules azlb1 = Some rules"
      using assms(1) by (cases "al_LoadBalancingRules azlb1") (auto simp: ensureSyncDefaultAzureLBConfig_def e True deref_def)
    let ?sent = "azlb1\<lparr>al_LoadBalancingRules := Some []\<rparr>"
    obtain azlb2 w2 where put: "cl_lb_CreateOrUpdate c (az_ResourceGroupName spec) (to_String (al_Name azlb1)) ?sent w
          = (Inr azlb2, w2)" and rest: "ensureSyncDefaultRules c azlb2 lb w2 = (Inr azlb', w')"
      using assms(1,2) by (auto simp: ensureSyncDefaultAzureLBConfig_def e True deref_def r elim: seqE_InrE)
    note l = lb_put [OF put]
    have "default_parts ?sent" using p(1) by (simp add: default_parts_def)
    then have "default_parts azlb2" using l stored_as_parts by blast
    moreover have name: "al_Name azlb2 = al_Name azlb" "rules_view azlb2 = rules_view ?sent"
      using l p(3) by (simp_all add: stored_as_def)
    moreover have "stored w2 (az_ResourceGroupName spec, to_String (al_Name azlb2)) = Some (rules_view azlb2)"
      using l p(3) name by simp
    ultimately show ?thesis using default_rules_stored [OF rest assms(2)] by simp
  next
    case False
    then have eq: "azlb1 = azlb" using p(2) by blast
    then have "ensureSyncDefaultRules c azlb lb w = (Inr azlb', w')"
      using assms(1) e False by (simp add: ensureSyncDefaultAzureLBConfig_def)
    then show ?thesis using default_rules_stored [OF _ assms(2)] p(1) assms(3) eq by blast
  qed
qed

lemma rules_and_pools_stored:
  assumes "ensureSyncRulesAndBackendPools ord c L azlb lb tcp udp w = (Inr azlb', w')" "azure_spec lb = Inr spec"
    "stored w (az_ResourceGroupName spec, to_String (al_Name azlb)) = Some (rules_view azlb)"
    "lb_ready azlb" "canonical_ports (copyMap tcp)" "canonical_ports (copyMap udp)" "\<forall>port \<in> {80, 443}. forwards port (rules_view azlb)"
  shows "\<exists>rules. stored w' (az_ResourceGroupName spec, to_String (al_Name azlb)) = Some rules
    \<and> good_rules (copyMap tcp) (copyMap udp) rules
    \<and> (\<forall>k. has_key (copyMap tcp) k \<longrightarrow> list_ex (claims TransportProtocolTCP k) rules)
    \<and> (\<forall>k. has_key (copyMap udp) k \<longrightarrow> list_ex (claims TransportProtocolUDP k) rules)
    \<and> (\<forall>port \<in> {80, 443}. forwards port rules)"
proof -
  obtain az diff where m: "makeUpRules azlb (copyMap tcp) (copyMap udp) = (az, diff)" by fastforce
  note r = makeUpRules_result [OF assms(4-6) m]
  have grp: "getGroupName lb = az_ResourceGroupName spec"
    using assms(2) by (auto simp: getGroupName_def azure_spec_def split: option.splits)
  have name: "al_Name az = al_Name azlb" using r(5) by (metis az_lb.select_convs(1) az_lb.surjective az_lb.update_convs(6))
  obtain az' w1 where s: "syncRules c azlb tcp udp (getGroupName lb) w = (Inr az', w1)"
      and k: "seqE (syncBackendPools ord c L az' lb) (\<lambda>(detachs, nets).
        seqE (if usePublicAddress lb
              then syncSecurityGroupRules ord c
                (AList.update ''443'' [] (AList.update ''80'' [] (copyMap tcp))) (copyMap udp) detachs nets
              else retE ()) (\<lambda>_. retE az')) w1 = (Inr azlb', w')"
    using assms(1) unfolding ensureSyncRulesAndBackendPools_def by (rule seqE_InrE)
  have "stored w' = stored w1" by (rule maintainsD [OF tail_keep k refl])
  moreover have "stored w1 (az_ResourceGroupName spec, to_String (al_Name azlb)) = Some (rules_view az)"
  proof (cases diff)
    case True
    then obtain got where "cl_lb_CreateOrUpdate c (az_ResourceGroupName spec) (to_String (al_Name az)) az w = (Inr got, w1)"
      using s by (auto simp: syncRules_def m grp elim: seqE_InrE)
    then show ?thesis using lb_put name by fastforce
  next
    case False
    then have "az = azlb" "w1 = w" using s m by (auto simp: syncRules_def makeUpRules_def Let_def split: prod.splits)
    then show ?thesis using assms(3) by simp
  qed
  moreover have "forwards port (rules_of az)" if port: "port \<in> {80, 443}" for port
  proof -
    obtain x where x: "x \<in> set (rules_of azlb)" "lr_Protocol x = TransportProtocolTCP"
        "lr_FrontendPort x = Some port" "lr_BackendPort x = Some port" "well_named x"
      using assms(7) port unfolding rules_view_def view_forwards by (auto simp: forwards_def)
    then have "x \<in> set (filter untouched (rules_of azlb))"
      using port by (auto simp: untouched_def isDefaultRules_def)
    then have "x \<in> set (rules_of az)" using set_mono_prefix [OF r(4)] by auto
    with x show ?thesis by (auto simp: forwards_def)
  qed
  ultimately show ?thesis using r(1-3)
    by (intro exI [of _ "rules_view az"]) (simp add: rules_view_def view_good view_list_ex view_forwards)
qed

end

text \<open>An Azure that stores what it is sent keeps the laws.\<close>

definition cloud_rules :: "azure_cloud \<Rightarrow> string \<times> string \<Rightarrow> az_rule list option" where
  "cloud_rules w k = map_option rules_view (az_lbs w k)"

lemma rules_view_name: "rules_view (azlb\<lparr>al_Name := n\<rparr>) = rules_view azlb"
  by (simp add: rules_view_def rules_of_def)

interpretation ref_lbs: lb_service reference_client cloud_rules
  by unfold_locales
    (auto simp: reference_client_def cloud_get_def cloud_rules_def maintains_def stored_as_def fun_eq_iff rules_view_name
      split: option.splits)

end
