(* ===== verification/AzureProvider.thy ===== *)
theory AzureProvider
  imports AzureSync Controller
begin

text \<open>
  \<open>providers/azure/azure.go\<close>: the Azure provider. \<open>OnUpdate\<close> compares the resource and its config maps
  with what was last applied, brings Azure up to date and reports the result in the resource's
  status; a resource that is deleted, or has no Azure block any more, is cleaned up.

  The provider keeps a pointer to the Azure block of the last applied resource, \<open>oldAzureProvider\<close>. After
  a successful sync it points into the cached copy of the resource, so that what is written through
  it changes that copy. LoadBalancer objects are addresses into the heap, as for the other
  providers.
\<close>

section \<open>State and environment\<close>

text \<open>\<open>oldAzureProvider\<close>: a block of its own, or the block of the resource at an address.\<close>

datatype azure_ref = OwnAzure azure_provider | AzureOf nat

record 'w azure_prov =
  zp_namespace :: string
  zp_name :: string
  zp_old :: "azure_ref option"
  zp_nodes :: "string list"
  zp_tcp :: "gomap option"
  zp_udp :: "gomap option"
  zp_lb :: "nat option"
  zp_clean :: bool
  zp_world :: 'w                                    \<comment> \<open>what Azure holds\<close>
  zp_patches :: "(string \<times> string \<times> string) list"   \<comment> \<open>what was sent to the API server\<close>
  zp_calls :: nat                                   \<comment> \<open>calls so far, each with its own environment\<close>

type_synonym 'w zstate = "'w azure_prov bstate"

text \<open>
  What the surroundings of one call answer: the SDK, the order of range loops, the API server on a
  patch (\<open>None\<close>: it was accepted), the texts of its errors, and how often \<open>wait.Poll\<close> tries within
  its time.
\<close>

record ('w, 'f) azure_env =
  ze_sdk :: "('w, 'f) azure_sdk"
  ze_order :: range_order
  ze_Patch :: "string \<Rightarrow> string \<Rightarrow> string \<Rightarrow> go_error option"
  ze_text :: "go_error \<Rightarrow> string"
  ze_polls :: nat

definition NewAzureProvider :: "string \<Rightarrow> string \<Rightarrow> 'w \<Rightarrow> 'w azure_prov" where
  "NewAzureProvider name namespace w =
     \<lparr> zp_namespace = namespace, zp_name = name, zp_old = None, zp_nodes = [], zp_tcp = None,
       zp_udp = None, zp_lb = None, zp_clean = False, zp_world = w, zp_patches = [], zp_calls = 0 \<rparr>"

text \<open>The block the pointer leads to, and a write through it (a nil pointer gets a block first).\<close>

definition old_azure :: "'w zstate \<Rightarrow> azure_provider option" where
  "old_azure s = (case zp_old (fst s) of
     None \<Rightarrow> None
   | Some (OwnAzure spec) \<Rightarrow> Some spec
   | Some (AzureOf p) \<Rightarrow> Option.bind (hp_obj (snd s) p) (\<lambda>lb. ps_Azure (lb_Providers lb)))"

definition map_azure :: "(azure_provider \<Rightarrow> azure_provider) \<Rightarrow> load_balancer \<Rightarrow> load_balancer" where
  "map_azure f lb = lb\<lparr>lb_Providers := (lb_Providers lb)\<lparr>ps_Azure := map_option f (ps_Azure (lb_Providers lb))\<rparr>\<rparr>"

definition heap_map :: "(load_balancer \<Rightarrow> load_balancer) \<Rightarrow> nat \<Rightarrow> lb_heap \<Rightarrow> lb_heap" where
  "heap_map f a h = (case hp_obj h a of None \<Rightarrow> h | Some lb \<Rightarrow> heap_write a (f lb) h)"

definition update_old :: "(azure_provider \<Rightarrow> azure_provider) \<Rightarrow> 'w zstate \<Rightarrow> 'w zstate" where
  "update_old f s = (case zp_old (fst s) of
     None \<Rightarrow> ((fst s)\<lparr>zp_old := Some (OwnAzure (f zero_azure_provider))\<rparr>, snd s)
   | Some (OwnAzure spec) \<Rightarrow> ((fst s)\<lparr>zp_old := Some (OwnAzure (f spec))\<rparr>, snd s)
   | Some (AzureOf p) \<Rightarrow> (fst s, heap_map (map_azure f) p (snd s)))"

definition setCacheAzureLoadbalancer :: "azure_provider \<Rightarrow> 'w zstate \<Rightarrow> 'w zstate" where
  "setCacheAzureLoadbalancer azure =
     update_old (\<lambda>o1. o1\<lparr>az_Name := az_Name azure, az_ResourceGroupName := az_ResourceGroupName azure\<rparr>)"

definition setCacheReserveStatus :: "bool option \<Rightarrow> 'w zstate \<Rightarrow> 'w zstate" where
  "setCacheReserveStatus reserve = update_old (\<lambda>o1. o1\<lparr>az_ReserveAzure := reserve\<rparr>)"

section \<open>Statements\<close>

definition modifyE :: "('s \<Rightarrow> 's) \<Rightarrow> ('s, 'e, unit) prog" where
  "modifyE f s = (Inr (), f s)"

text \<open>An error kept in a variable instead of being returned; a panic is not an error.\<close>

definition tryE :: "('s, go_error, 'a) prog \<Rightarrow> ('s, go_error, go_error + 'a) prog" where
  "tryE m s = (case m s of
     (Inl e, s') \<Rightarrow> (if is_panic e then Inl e else Inr (Inl e), s')
   | (Inr x, s') \<Rightarrow> (Inr (Inr x), s'))"

definition read_lb :: "nat \<Rightarrow> ('w zstate, go_error, load_balancer) prog" where
  "read_lb a s = (case hp_obj (snd s) a of
     None \<Rightarrow> (Inl (Panic (NilDereference ''lb'')), s) | Some lb \<Rightarrow> (Inr lb, s))"

definition deep_copy :: "nat \<Rightarrow> ('w zstate, go_error, nat) prog" where
  "deep_copy a = seqE (read_lb a) (\<lambda>lb s. (Inr (fst (heap_alloc lb (snd s))), (fst s, snd (heap_alloc lb (snd s)))))"

definition on_azure :: "('w, go_error, 'a) prog \<Rightarrow> ('w zstate, go_error, 'a) prog" where
  "on_azure m s = (case m (zp_world (fst s)) of (r, w) \<Rightarrow> (r, ((fst s)\<lparr>zp_world := w\<rparr>, snd s)))"

section \<open>Patches\<close>

definition send_patch ::
  "('w, 'f) azure_env \<Rightarrow> string \<Rightarrow> string \<Rightarrow> string \<Rightarrow> ('w zstate, go_error, unit) prog" where
  "send_patch env namespace name patch s =
     (case ze_Patch env namespace name patch of None \<Rightarrow> Inr () | Some e \<Rightarrow> Inl e,
      ((fst s)\<lparr>zp_patches := zp_patches (fst s) @ [(namespace, name, patch)]\<rparr>, snd s))"

text \<open>The resource a patch is for: the given one, or the one the provider was made for.\<close>

definition patch_target :: "'w azure_prov \<Rightarrow> load_balancer option \<Rightarrow> string \<times> string" where
  "patch_target p lb = (case lb of None \<Rightarrow> (zp_namespace p, zp_name p) | Some x \<Rightarrow> (lb_Namespace x, lb_Name x))"

text \<open>The format \<open>%q\<close>, on texts whose characters outside of ASCII are printable.\<close>

definition hex_digit :: "nat \<Rightarrow> char" where
  "hex_digit n = ''0123456789abcdef'' ! n"

definition quote_char :: "char \<Rightarrow> string" where
  "quote_char ch =
     (let n = (of_char ch :: nat); esc = (\<lambda>c. [CHR 0x5C, c]) in
      if ch = CHR 0x22 \<or> ch = CHR 0x5C then esc ch
      else if n = 7 then esc (CHR ''a'') else if n = 8 then esc (CHR ''b'') else if n = 9 then esc (CHR ''t'')
      else if n = 10 then esc (CHR ''n'') else if n = 11 then esc (CHR ''v'') else if n = 12 then esc (CHR ''f'')
      else if n = 13 then esc (CHR ''r'')
      else if n < 32 \<or> n = 127 then esc (CHR ''x'') @ [hex_digit (n div 16), hex_digit (n mod 16)]
      else [ch])"

definition quoted :: "string \<Rightarrow> string" where
  "quoted s = CHR 0x22 # concat (map quote_char s) @ [CHR 0x22]"

definition azureFinalizer :: string where
  "azureFinalizer = ''finalizer.azure.loadbalancer.loadbalance.caicloud.io''"

definition getFinalizersPatch :: "load_balancer option \<Rightarrow> string" where
  "getFinalizersPatch olb =
     (case olb of
        None \<Rightarrow> []
      | Some lb \<Rightarrow>
          let remainFinalizes = map quoted (filter (\<lambda>f. f \<noteq> azureFinalizer) (elems (lb_Finalizers lb)))
          in if length remainFinalizes = length (elems (lb_Finalizers lb)) then []
             else ''\"metadata\":{\"finalizers\":['' @ str_join '','' remainFinalizes @ '']}'')"

definition getNilAzureStatus :: string where
  "getNilAzureStatus = ''\"status\":{\"ProvidersStatuses\":{\"azure\":{}}}''"

definition patachFinalizersAndStatus ::
  "('w, 'f) azure_env \<Rightarrow> load_balancer option \<Rightarrow> bool \<Rightarrow> ('w zstate, go_error, unit) prog" where
  "patachFinalizersAndStatus env lb deleteLB s =
     (let finalizers = getFinalizersPatch lb;
          patchs = (if finalizers \<noteq> [] then [finalizers] else []) @ (if \<not> deleteLB then [getNilAzureStatus] else [])
      in if patchs = [] then (Inr (), s)
         else send_patch env (fst (patch_target (fst s) lb)) (snd (patch_target (fst s) lb))
                (''{'' @ str_join '','' patchs @ ''}'') s)"

definition error_text :: "('w, 'f) azure_env \<Rightarrow> go_error \<Rightarrow> string" where
  "error_text env e =
     (case e of
        Errorf t \<Rightarrow> t
      | Detailed _ _ t \<Rightarrow> t
      | SvcError x \<Rightarrow> service_error_text x
      | _ \<Rightarrow> ze_text env e)"

text \<open>The reason and the message of an error in the status.\<close>

definition status_reason :: "('w, 'f) azure_env \<Rightarrow> go_error option \<Rightarrow> string \<times> string" where
  "status_reason env result =
     (case result of
        None \<Rightarrow> ([], [])
      | Some e \<Rightarrow>
         (case e of
            Detailed _ _ _ \<Rightarrow>
              (case ParseServiceError e of
                 Some serviceError \<Rightarrow> (se_Code serviceError, se_Message serviceError)
               | None \<Rightarrow> (''Unknown'', error_text env e))
          | SvcError t \<Rightarrow> (se_Code t, se_Message t)
          | _ \<Rightarrow> (''Unknown'', error_text env e)))"

definition AzureRunningPhase :: string where "AzureRunningPhase = ''Running''"
definition AzureErrorPhase :: string where "AzureErrorPhase = ''Error''"
definition AzureUpdatingPhase :: string where "AzureUpdatingPhase = ''Updating''"

definition status_patch :: "('w, 'f) azure_env \<Rightarrow> load_balancer option \<Rightarrow> string \<Rightarrow> go_error option \<Rightarrow> string" where
  "status_patch env lb phase result =
     (case status_reason env result of
        (reason, message) \<Rightarrow>
          let st = Option.bind lb lb_AzureStatus;
              provisioningState = (case st of None \<Rightarrow> [] | Some x \<Rightarrow> as_ProvisioningState x);
              publicIPAddress = (case st of None \<Rightarrow> [] | Some x \<Rightarrow> to_String (as_PublicIPAddress x));
              common = ''{\"status\":{\"providersStatuses\":{\"azure\":{\"phase\":\"'' @ phase @ ''\",\"reason\":\"'' @ reason
                @ ''\",\"message\":\"'' @ message @ ''\", \"provisioningState\":\"'' @ provisioningState @ ''\"''
          in (if result = None then common @ '', \"publicIPAddress\":\"'' @ publicIPAddress @ ''\"}}}}''
              else common @ ''}}}}''))"

definition patchLoadBalancerAzureStatus ::
  "('w, 'f) azure_env \<Rightarrow> load_balancer option \<Rightarrow> string \<Rightarrow> go_error option \<Rightarrow> ('w zstate, go_error, unit) prog" where
  "patchLoadBalancerAzureStatus env lb phase result s =
     send_patch env (fst (patch_target (fst s) lb)) (snd (patch_target (fst s) lb))
       (status_patch env lb phase result) s"

text \<open>The name Azure gave is kept in the copy of the resource, in the cache and in the resource.\<close>

definition pathLoadBalancerName ::
  "('w, 'f) azure_env \<Rightarrow> nat \<Rightarrow> string \<Rightarrow> ('w zstate, go_error, unit) prog" where
  "pathLoadBalancerName env b name =
     seqE (modifyE (\<lambda>s. (fst s, heap_map (map_azure (\<lambda>spec. spec\<lparr>az_Name := name\<rparr>)) b (snd s)))) (\<lambda>_.
     seqE (read_lb b) (\<lambda>lb.
     seqE (liftE (azure_spec lb)) (\<lambda>spec.
     seqE (modifyE (setCacheAzureLoadbalancer spec)) (\<lambda>_.
       send_patch env (lb_Namespace lb) (lb_Name lb)
         (''{\"spec\":{\"providers\":{\"azure\":{\"name\":\"'' @ name @ ''\"}}}}'')))))"

section \<open>Checks\<close>

text \<open>The comparison with the cached resource, as that is now.\<close>

definition azure_isLBChanged :: "load_balancer option \<Rightarrow> load_balancer \<Rightarrow> bool" where
  "azure_isLBChanged cached new =
     (\<not> (case cached of None \<Rightarrow> False
         | Some old \<Rightarrow>
             lb_Nodes old = lb_Nodes new
             \<and> ps_Azure (lb_Providers old) = ps_Azure (lb_Providers new)
             \<and> lb_TCPConfigMap old = lb_TCPConfigMap new
             \<and> lb_UDPConfigMap old = lb_UDPConfigMap new
             \<and> lb_DeletionTimestamp old = lb_DeletionTimestamp new
             \<and> lb_Finalizers old = lb_Finalizers new))"

definition azure_cached_lb :: "'w zstate \<Rightarrow> load_balancer option" where
  "azure_cached_lb s = Option.bind (zp_lb (fst s)) (hp_obj (snd s))"

definition get_config_map ::
  "('w, 'f) azure_env \<Rightarrow> store_lister \<Rightarrow> string \<Rightarrow> string \<Rightarrow> go_error + gomap option" where
  "get_config_map env L ns name =
     (case lookup_err (sl_ConfigMap L ns name) of
        Inl e \<Rightarrow> Inl (SvcError (NewServiceError ''K8SStore'' (error_text env e)))
      | Inr cm \<Rightarrow> Inr (cm_Data cm))"

definition getProxyConfigMapAndCompare ::
  "('w, 'f) azure_env \<Rightarrow> store_lister \<Rightarrow> gomap option \<Rightarrow> gomap option \<Rightarrow> load_balancer
   \<Rightarrow> go_error + gomap option \<times> gomap option \<times> bool" where
  "getProxyConfigMapAndCompare env L tcpRuleMap udpRuleMap lb =
     (case get_config_map env L (lb_Namespace lb) (lb_TCPConfigMap lb) of
        Inl e \<Rightarrow> Inl e
      | Inr tcp \<Rightarrow>
         (case get_config_map env L (lb_Namespace lb) (lb_UDPConfigMap lb) of
            Inl e \<Rightarrow> Inl e
          | Inr udp \<Rightarrow>
              Inr (tcp, udp, \<not> gm_deep_equal tcpRuleMap tcp \<or> \<not> gm_deep_equal udpRuleMap udp)))"

definition getPublicIPAddress :: "'w az_client \<Rightarrow> load_balancer option \<Rightarrow> ('w, go_error, string) prog" where
  "getPublicIPAddress c lb =
     (case Option.bind (Option.bind lb (\<lambda>x. ps_Azure (lb_Providers x))) (\<lambda>spec. ap_Public (az_IPAddressProperties spec)) of
        None \<Rightarrow> retE []
      | Some public \<Rightarrow>
         (case getGroupAndResourceNameFromID (to_String (pu_PublicIPAddressID public)) azurePublicIPAddresses of
            Inl e \<Rightarrow> throwE e
          | Inr (g, name) \<Rightarrow> seqE (cl_ip_Get c g name) (\<lambda>address. retE (to_String address))))"

section \<open>Cleaning up\<close>

definition cleanUpSecurityGroup ::
  "range_order \<Rightarrow> 'w az_client \<Rightarrow> string \<Rightarrow> string \<Rightarrow> ('w, go_error, unit) prog" where
  "cleanUpSecurityGroup ord c groupName lbName =
     seqE (get_lb c groupName lbName) (\<lambda>found.
       case found of
         None \<Rightarrow> retE ()
       | Some azlb \<Rightarrow>
           let azBackendPoolMap = (case getAzureBackendPoolIP azlb of Inl e \<Rightarrow> [] | Inr m \<Rightarrow> m);
               detachs = getDiffBetweenNetworkInterfaces ord azBackendPoolMap []
           in seqE (getSuitableSecurityGroup ord c detachs []) (\<lambda>(deleteSg, syncSg).
                deleteUselessSecurityRules ord c deleteSg))"

text \<open>\<open>wait.Poll\<close> with a condition that holds when the program returns nil, tried \<open>n\<close> times.\<close>

fun pollE :: "nat \<Rightarrow> ('s, go_error, unit) prog \<Rightarrow> ('s, go_error, unit) prog" where
  "pollE 0 m = throwE (Errorf ''timed out waiting for the condition'')"
| "pollE (Suc n) m = seqE (tryE m) (\<lambda>r. case r of Inr _ \<Rightarrow> retE () | Inl _ \<Rightarrow> pollE n m)"

text \<open>The finalizer and the status are patched; then the provider counts as clean.\<close>

definition finish_cleanup ::
  "('w, 'f) azure_env \<Rightarrow> load_balancer option \<Rightarrow> bool \<Rightarrow> ('w zstate, go_error, unit) prog" where
  "finish_cleanup env lb deleteLB =
     seqE (patachFinalizersAndStatus env lb deleteLB) (\<lambda>_. modifyE (\<lambda>s. ((fst s)\<lparr>zp_clean := True\<rparr>, snd s)))"

definition keep_or_delete ::
  "('w, 'f) azure_env \<Rightarrow> 'w az_client \<Rightarrow> azure_provider \<Rightarrow> load_balancer option \<Rightarrow> ('w zstate, go_error, unit) prog" where
  "keep_or_delete env c old lb =
     (let reserve = (case Option.bind lb (\<lambda>x. ps_Azure (lb_Providers x)) of
                       None \<Rightarrow> to_Bool (az_ReserveAzure old) | Some spec \<Rightarrow> to_Bool (az_ReserveAzure spec))
      in if reserve
         then seqE (tryE (pollE (ze_polls env)
                (on_azure (recoverDefaultAzureLoadBalancer c (az_ResourceGroupName old) (az_Name old))))) (\<lambda>r.
              case r of
                Inr _ \<Rightarrow> retE ()
              | Inl e \<Rightarrow> seqE (ignoreE (patchLoadBalancerAzureStatus env lb AzureErrorPhase (Some e))) (\<lambda>_. throwE e))
         else on_azure (cl_lb_Delete c (az_ResourceGroupName old) (az_Name old)))"

definition cleanupAzureLB ::
  "('w, 'f) azure_env \<Rightarrow> store_lister \<Rightarrow> load_balancer option \<Rightarrow> bool \<Rightarrow> ('w zstate, go_error, unit) prog" where
  "cleanupAzureLB env L lb deleteLB s =
     (if zp_clean (fst s) then (Inr (), s)
      else case old_azure s of
          None \<Rightarrow> finish_cleanup env lb deleteLB s
        | Some old \<Rightarrow>
            if az_Name old = [] then finish_cleanup env lb deleteLB s
            else seqE (liftE (NewClient (ze_sdk env) L)) (\<lambda>c.
                 seqE (on_azure (cleanUpSecurityGroup (ze_order env) c (az_ResourceGroupName old) (az_Name old))) (\<lambda>_.
                 seqE (keep_or_delete env c old lb) (\<lambda>_.
                 seqE (finish_cleanup env lb deleteLB) (\<lambda>_.
                   modifyE (\<lambda>s. ((fst s)\<lparr>zp_old := None\<rparr>, snd s)))))) s)"

section \<open>A sync\<close>

definition ensureAzureLoadbalancer ::
  "('w, 'f) azure_env \<Rightarrow> 'w az_client \<Rightarrow> nat \<Rightarrow> ('w zstate, go_error, az_lb) prog" where
  "ensureAzureLoadbalancer env c b =
     seqE (read_lb b) (\<lambda>lb.
     seqE (liftE (azure_spec lb)) (\<lambda>azureSpec.
     seqE (on_azure (getAzureLoadbalancer c (az_ResourceGroupName azureSpec) (az_Name azureSpec))) (\<lambda>found.
       case found of
         Some azlb \<Rightarrow> retE azlb
       | None \<Rightarrow>
           seqE (on_azure (createAzureLoadBalancer c lb)) (\<lambda>azlb.
             if az_Name azureSpec = []
             then seqE (pathLoadBalancerName env b (to_String (al_Name azlb))) (\<lambda>_. retE azlb)
             else retE azlb))))"

text \<open>
  \<open>ensureSync\<close> returns the load balancer and its address even when the last part of the sync failed, so
  its error is part of the result.
\<close>

definition prepare_sync ::
  "('w, 'f) azure_env \<Rightarrow> store_lister \<Rightarrow> nat \<Rightarrow> ('w zstate, go_error, 'w az_client \<times> az_lb \<times> string) prog" where
  "prepare_sync env L b =
     seqE (read_lb b) (\<lambda>lb.
     seqE (liftE (azure_spec lb)) (\<lambda>azureSpec.
     seqE (patchLoadBalancerAzureStatus env (Some lb) AzureUpdatingPhase None) (\<lambda>_.
     seqE (liftE (NewClient (ze_sdk env) L)) (\<lambda>c.
     seqE (ensureAzureLoadbalancer env c b) (\<lambda>azlb.
     seqE (read_lb b) (\<lambda>nlb.
     seqE (on_azure (ensureSyncDefaultAzureLBConfig c azlb nlb)) (\<lambda>azlb2.
     seqE (on_azure (getPublicIPAddress c (Some nlb))) (\<lambda>ip.
       retE (c, azlb2, ip)))))))))"

definition ensureSync ::
  "('w, 'f) azure_env \<Rightarrow> store_lister \<Rightarrow> nat \<Rightarrow> gomap option \<Rightarrow> gomap option
   \<Rightarrow> ('w zstate, go_error, az_lb option \<times> string \<times> go_error option) prog" where
  "ensureSync env L b tcp udp =
     seqE (tryE (prepare_sync env L b)) (\<lambda>r.
       case r of
         Inl e \<Rightarrow> retE (None, [], Some e)
       | Inr (c, azlb, ip) \<Rightarrow>
           seqE (read_lb b) (\<lambda>nlb.
           seqE (tryE (on_azure (ensureSyncRulesAndBackendPools (ze_order env) c L azlb nlb tcp udp))) (\<lambda>r.
             retE (Some azlb, ip, case r of Inl e \<Rightarrow> Some e | Inr _ \<Rightarrow> None))))"

definition zero_azure_status :: azure_status where
  "zero_azure_status = \<lparr> as_Phase = [], as_Reason = [], as_Message = [], as_ProvisioningState = [],
     as_PublicIPAddress = None \<rparr>"

definition map_status :: "(azure_status \<Rightarrow> azure_status) \<Rightarrow> load_balancer \<Rightarrow> load_balancer" where
  "map_status f lb = lb\<lparr>lb_AzureStatus :=
     Some (f (case lb_AzureStatus lb of None \<Rightarrow> zero_azure_status | Some st \<Rightarrow> st))\<rparr>"

definition setProvisioningPublicIPAddress :: "string \<Rightarrow> load_balancer \<Rightarrow> load_balancer" where
  "setProvisioningPublicIPAddress publicIPAddress = map_status (\<lambda>st. st\<lparr>as_PublicIPAddress := Some publicIPAddress\<rparr>)"

definition setProvisioningState :: "string \<Rightarrow> load_balancer \<Rightarrow> load_balancer" where
  "setProvisioningState provisioningState = map_status (\<lambda>st. st\<lparr>as_ProvisioningState := provisioningState\<rparr>)"

definition updateLoadBalancerAzureStatus ::
  "('w, 'f) azure_env \<Rightarrow> az_lb option \<Rightarrow> nat \<Rightarrow> string \<Rightarrow> go_error option \<Rightarrow> ('w zstate, go_error, unit) prog" where
  "updateLoadBalancerAzureStatus env azlb a publicIPAddress e =
     seqE (modifyE (\<lambda>s. (fst s, heap_map (\<lambda>lb. setProvisioningPublicIPAddress publicIPAddress
             (case azlb of None \<Rightarrow> lb | Some z \<Rightarrow> setProvisioningState (to_String (al_ProvisioningState z)) lb)) a (snd s)))) (\<lambda>_.
     seqE (read_lb a) (\<lambda>lb.
       ignoreE (patchLoadBalancerAzureStatus env (Some lb)
         (case e of None \<Rightarrow> AzureRunningPhase | Some _ \<Rightarrow> AzureErrorPhase) e)))"

definition updateCacheData ::
  "nat \<Rightarrow> gomap option \<Rightarrow> gomap option \<Rightarrow> ('w zstate, go_error, unit) prog" where
  "updateCacheData b tcp udp =
     seqE (read_lb b) (\<lambda>lb. modifyE (\<lambda>s.
       ((fst s)\<lparr>zp_old := (case ps_Azure (lb_Providers lb) of None \<Rightarrow> None | Some _ \<Rightarrow> Some (AzureOf b)),
                zp_nodes := ns_Names (lb_Nodes lb), zp_tcp := tcp, zp_udp := udp, zp_lb := Some b\<rparr>, snd s)))"

section \<open>The provider\<close>

text \<open>From the point where a change was found: sync a copy, report, remember.\<close>

definition sync_copy ::
  "('w, 'f) azure_env \<Rightarrow> store_lister \<Rightarrow> nat \<Rightarrow> gomap option \<Rightarrow> gomap option \<Rightarrow> nat
   \<Rightarrow> ('w zstate, go_error, unit) prog" where
  "sync_copy env L a tcp udp b =
     seqE (ensureSync env L b tcp udp) (\<lambda>(azlb, ip, e).
     seqE (updateLoadBalancerAzureStatus env azlb a ip e) (\<lambda>_.
       case e of None \<Rightarrow> updateCacheData b tcp udp | Some e \<Rightarrow> throwE e))"

definition sync_and_report ::
  "('w, 'f) azure_env \<Rightarrow> store_lister \<Rightarrow> nat \<Rightarrow> gomap option \<Rightarrow> gomap option \<Rightarrow> ('w zstate, go_error, unit) prog" where
  "sync_and_report env L a tcp udp = seqE (deep_copy a) (sync_copy env L a tcp udp)"

definition sync_if_changed ::
  "('w, 'f) azure_env \<Rightarrow> store_lister \<Rightarrow> nat \<Rightarrow> load_balancer \<Rightarrow> bool \<Rightarrow> ('w zstate, go_error, unit) prog" where
  "sync_if_changed env L a lb lbChanged s =
     (case getProxyConfigMapAndCompare env L (zp_tcp (fst s)) (zp_udp (fst s)) lb of
        Inl e \<Rightarrow> (Inl e, s)
      | Inr (tcp, udp, ruleChange) \<Rightarrow>
          if \<not> lbChanged \<and> \<not> ruleChange then (Inr (), s)
          else (case lookup_err (sl_LoadBalancer L (lb_Namespace lb) (lb_Name lb)) of
                  Inl e \<Rightarrow> (if e = KubeNotFound then cleanupAzureLB env L (Some lb) True s else (Inl e, s))
                | Inr _ \<Rightarrow> sync_and_report env L a tcp udp s))"

definition apply_change ::
  "('w, 'f) azure_env \<Rightarrow> store_lister \<Rightarrow> nat \<Rightarrow> load_balancer \<Rightarrow> bool \<Rightarrow> ('w zstate, go_error, unit) prog" where
  "apply_change env L a lb lbChanged =
     seqE (liftE (azure_spec lb)) (\<lambda>spec.
     seqE (modifyE (setCacheAzureLoadbalancer spec)) (\<lambda>_.
     seqE (modifyE (setCacheReserveStatus (az_ReserveAzure spec))) (\<lambda>_.
       sync_if_changed env L a lb lbChanged)))"

definition remember_lb :: "nat \<Rightarrow> 'w zstate \<Rightarrow> 'w zstate" where
  "remember_lb a s = ((fst s)\<lparr>zp_lb := Some a\<rparr>, snd s)"

definition azure_OnUpdate ::
  "('w, 'f) azure_env \<Rightarrow> store_lister \<Rightarrow> nat \<Rightarrow> ('w zstate, go_error, unit) prog" where
  "azure_OnUpdate env L a =
     seqE (read_lb a) (\<lambda>lb s.
       (let lbChanged = azure_isLBChanged (azure_cached_lb s) lb in
        if lbChanged \<and> ps_Azure (lb_Providers lb) = None then cleanupAzureLB env L None False (remember_lb a s)
        else if lbChanged \<and> lb_DeletionTimestamp lb \<noteq> None then cleanupAzureLB env L (Some lb) True (remember_lb a s)
        else apply_change env L a lb lbChanged s))"

definition azure_Start :: "('w zstate, go_error, unit) prog" where
  "azure_Start = retE ()"

definition azure_Stop :: "('w, 'f) azure_env \<Rightarrow> store_lister \<Rightarrow> ('w zstate, go_error, unit) prog" where
  "azure_Stop env L s =
     (case sl_LoadBalancer L (zp_namespace (fst s)) (zp_name (fst s)) of
        Missing \<Rightarrow> cleanupAzureLB env L None True s
      | _ \<Rightarrow> (Inr (), s))"

text \<open>The provider as the controller sees it; every call has an environment of its own.\<close>

definition with_azure_call ::
  "(nat \<Rightarrow> ('w, 'f) azure_env) \<Rightarrow> (('w, 'f) azure_env \<Rightarrow> ('w zstate, go_error, unit) prog)
   \<Rightarrow> ('w zstate, go_error, unit) prog" where
  "with_azure_call env m s =
     m (env (zp_calls (fst s))) ((fst s)\<lparr>zp_calls := Suc (zp_calls (fst s))\<rparr>, snd s)"

definition azure_backend :: "(nat \<Rightarrow> ('w, 'f) azure_env) \<Rightarrow> 'w azure_prov backend" where
  "azure_backend env =
     \<lparr> be_OnUpdate = (\<lambda>L a. with_azure_call env (\<lambda>e. azure_OnUpdate e L a)),
       be_Start = azure_Start,
       be_WaitForStart = (\<lambda>_. True),
       be_Stop = (\<lambda>L. with_azure_call env (\<lambda>e. azure_Stop e L)) \<rparr>"

section \<open>The pointers never dangle\<close>

definition has_azure :: "lb_heap \<Rightarrow> nat \<Rightarrow> bool" where
  "has_azure h a \<longleftrightarrow> (\<exists>lb. hp_obj h a = Some lb \<and> ps_Azure (lb_Providers lb) \<noteq> None)"

text \<open>
  \<open>oldAzureProvider\<close> points to a block that exists, the cached resource exists, and the resources at
  the addresses \<open>A\<close> have an Azure block.
\<close>

definition azure_inv :: "nat set \<Rightarrow> 'w zstate \<Rightarrow> bool" where
  "azure_inv A s \<longleftrightarrow> (\<forall>p. zp_old (fst s) = Some (AzureOf p) \<longrightarrow> has_azure (snd s) p)
     \<and> (\<forall>p. zp_lb (fst s) = Some p \<longrightarrow> hp_obj (snd s) p \<noteq> None) \<and> (\<forall>p \<in> A. has_azure (snd s) p)"

lemma maintains_tryE [maintains_intros]: "maintains P m \<Longrightarrow> maintains P (tryE m)"
  by (auto simp: maintains_def tryE_def split: prod.split sum.split)

lemma maintains_ignoreE [maintains_intros]: "maintains P m \<Longrightarrow> maintains P (ignoreE m)"
  by (simp add: maintains_def)

lemma maintains_pollE [maintains_intros]: "maintains P m \<Longrightarrow> maintains P (pollE n m)"
  by (induction n) (auto intro!: maintains_intros)

lemma maintains_modifyE [maintains_intros]: "(\<And>s. P s \<Longrightarrow> P (f s)) \<Longrightarrow> maintains P (modifyE f)"
  by (simp add: maintains_def modifyE_def)

lemma maintains_read [maintains_intros]: "maintains P (read_lb a)"
  by (simp add: maintains_def read_lb_def split: option.split)

lemma heap_map_obj: "hp_obj (heap_map f a h) p = (if p = a then map_option f (hp_obj h a) else hp_obj h p)"
  by (auto simp: heap_map_def split: option.split)

lemma has_azure_map:
  "(\<And>lb. ps_Azure (lb_Providers lb) \<noteq> None \<Longrightarrow> ps_Azure (lb_Providers (f lb)) \<noteq> None) \<Longrightarrow>
     has_azure h p \<Longrightarrow> has_azure (heap_map f a h) p"
  by (auto simp: has_azure_def heap_map_obj)

lemma azure_inv_heap_map:
  "(\<And>lb. ps_Azure (lb_Providers lb) \<noteq> None \<Longrightarrow> ps_Azure (lb_Providers (f lb)) \<noteq> None) \<Longrightarrow>
     azure_inv A (p, h) \<Longrightarrow> azure_inv A (p, heap_map f a h)"
  by (auto simp: azure_inv_def heap_map_obj intro!: has_azure_map)

lemma azure_inv_same:
  "azure_inv A s \<Longrightarrow> zp_old p = zp_old (fst s) \<Longrightarrow> zp_lb p = zp_lb (fst s) \<Longrightarrow> azure_inv A (p, snd s)"
  by (simp add: azure_inv_def)

lemma inv_update_old: "azure_inv A s \<Longrightarrow> azure_inv A (update_old f s)"
proof -
  have keep: "ps_Azure (lb_Providers (map_azure f lb)) \<noteq> None" if "ps_Azure (lb_Providers lb) \<noteq> None" for lb
    using that by (auto simp: map_azure_def)
  assume inv: "azure_inv A s"
  show ?thesis
  proof (cases "\<exists>p. zp_old (fst s) = Some (AzureOf p)")
    case True
    then obtain p where "zp_old (fst s) = Some (AzureOf p)" by blast
    moreover have "azure_inv A (fst s, heap_map (map_azure f) p (snd s))"
      by (rule azure_inv_heap_map) (use inv keep in simp_all)
    ultimately show ?thesis by (simp add: update_old_def)
  next
    case False
    then show ?thesis using inv by (auto simp: update_old_def azure_inv_def split: option.split azure_ref.split)
  qed
qed

lemma inv_on_azure [maintains_intros]: "maintains (azure_inv A) (on_azure m)"
  by (auto simp: maintains_def on_azure_def azure_inv_def split: prod.split)

lemma inv_send_patch [maintains_intros]: "maintains (azure_inv A) (send_patch env ns name patch)"
  by (auto simp: maintains_def send_patch_def azure_inv_def)

lemma inv_status [maintains_intros]: "maintains (azure_inv A) (patchLoadBalancerAzureStatus env lb phase result)"
  by (auto simp: maintains_def patchLoadBalancerAzureStatus_def send_patch_def azure_inv_def)

lemma inv_finalizers [maintains_intros]: "maintains (azure_inv A) (patachFinalizersAndStatus env lb deleteLB)"
  by (auto simp: maintains_def patachFinalizersAndStatus_def send_patch_def azure_inv_def Let_def)

lemma inv_cleanup [maintains_intros]: "maintains (azure_inv A) (cleanupAzureLB env L lb deleteLB)"
proof -
  have fin: "maintains (azure_inv A) (finish_cleanup env lb deleteLB)"
    unfolding finish_cleanup_def by (intro maintains_intros) (simp add: azure_inv_def)
  have all: "maintains (azure_inv A) (seqE (liftE (NewClient (ze_sdk env) L)) (\<lambda>c.
      seqE (on_azure (cleanUpSecurityGroup (ze_order env) c (az_ResourceGroupName old) (az_Name old))) (\<lambda>_.
      seqE (keep_or_delete env c old lb) (\<lambda>_. seqE (finish_cleanup env lb deleteLB) (\<lambda>_.
        modifyE (\<lambda>s. ((fst s)\<lparr>zp_old := None\<rparr>, snd s)))))))" for old
    unfolding keep_or_delete_def by (intro maintains_intros fin) (simp add: azure_inv_def)
  show ?thesis
    using fin all unfolding maintains_def cleanupAzureLB_def by (simp split: option.split)
qed

lemma inv_path [maintains_intros]: "maintains (azure_inv A) (pathLoadBalancerName env b name)"
  unfolding pathLoadBalancerName_def setCacheAzureLoadbalancer_def
  by (intro maintains_intros inv_update_old) (auto simp: map_azure_def split: prod.splits intro: azure_inv_heap_map)

lemma inv_ensureSync [maintains_intros]: "maintains (azure_inv A) (ensureSync env L b tcp udp)"
  unfolding ensureSync_def prepare_sync_def ensureAzureLoadbalancer_def by (intro maintains_intros)

lemma inv_update_status [maintains_intros]:
  "maintains (azure_inv A) (updateLoadBalancerAzureStatus env azlb a ip e)"
  unfolding updateLoadBalancerAzureStatus_def
  by (intro maintains_intros)
    (auto simp: setProvisioningPublicIPAddress_def setProvisioningState_def map_status_def
      split: prod.splits option.splits intro!: azure_inv_heap_map)

lemma inv_updateCacheData: "b \<in> A \<Longrightarrow> maintains (azure_inv A) (updateCacheData b tcp udp)"
  unfolding updateCacheData_def
  by (intro maintains_intros) (auto simp: azure_inv_def has_azure_def split: option.split)

lemma deep_copy_inv:
  assumes "azure_inv A s" "a \<in> A" "deep_copy a s = (Inr b, s')"
  shows "azure_inv (insert b A) s'"
proof -
  obtain lb where lb: "hp_obj (snd s) a = Some lb" "ps_Azure (lb_Providers lb) \<noteq> None"
    using assms(1,2) by (auto simp: azure_inv_def has_azure_def)
  then have "b = hp_next (snd s)" "fst s' = fst s" "snd s' = snd (heap_alloc lb (snd s))"
    using assms(3) by (auto simp: deep_copy_def read_lb_def seqE_def heap_alloc_def)
  then show ?thesis using assms(1) lb by (auto simp: azure_inv_def has_azure_def heap_alloc_def)
qed

lemma inv_sync_and_report:
  assumes "azure_inv A s" "a \<in> A"
  shows "azure_inv A (snd (sync_and_report env L a tcp udp s))"
proof -
  obtain r s1 where Pair: "deep_copy a s = (r, s1)" by (rule prod.exhaust)
  show ?thesis
  proof (cases r)
    case (Inl e)
    then have "s1 = s" using Pair by (auto simp: deep_copy_def read_lb_def seqE_def split: option.splits)
    then show ?thesis using assms Pair Inl by (simp add: sync_and_report_def seqE_Inl)
  next
    case (Inr b)
    have inv: "azure_inv (insert b A) s1" using deep_copy_inv [OF assms] Pair Inr by simp
    have "maintains (azure_inv (insert b A)) (sync_copy env L a tcp udp b)"
      unfolding sync_copy_def by (intro maintains_intros inv_updateCacheData) simp
    from maintains_snd [OF this inv] have "azure_inv (insert b A) (snd (sync_and_report env L a tcp udp s))"
      by (simp add: sync_and_report_def seqE_def Pair Inr)
    then show ?thesis by (simp add: azure_inv_def)
  qed
qed

lemma inv_apply_change:
  assumes "azure_inv {a} s"
  shows "azure_inv {a} (snd (apply_change env L a lb lbChanged s))"
proof -
  have "azure_inv {a} (snd (sync_if_changed env L a lb lbChanged t))" if t: "azure_inv {a} t" for t
    using t maintains_snd [OF inv_cleanup t, of env L "Some lb" True] inv_sync_and_report [OF t, of a env L]
    by (simp add: sync_if_changed_def split: sum.split prod.split)
  then have "maintains (azure_inv {a}) (apply_change env L a lb lbChanged)"
    unfolding apply_change_def setCacheAzureLoadbalancer_def setCacheReserveStatus_def
    by (intro maintains_intros inv_update_old) (simp_all add: maintains_def)
  then show ?thesis using assms by (rule maintains_snd)
qed

lemma inv_OnUpdate: "maintains (azure_inv {}) (azure_OnUpdate env L a)"
proof -
  have "azure_inv {} (snd (azure_OnUpdate env L a s))" if inv: "azure_inv {} s" for s
  proof (cases "hp_obj (snd s) a")
    case (Some lb)
    have rem: "azure_inv {} (remember_lb a s)" using inv Some by (simp add: azure_inv_def remember_lb_def)
    have clean: "azure_inv {} (snd (cleanupAzureLB env L olb d (remember_lb a s)))" for olb d
      by (rule maintains_snd [OF inv_cleanup rem])
    have run: "azure_OnUpdate env L a s =
       (let lbChanged = azure_isLBChanged (azure_cached_lb s) lb in
        if lbChanged \<and> ps_Azure (lb_Providers lb) = None then cleanupAzureLB env L None False (remember_lb a s)
        else if lbChanged \<and> lb_DeletionTimestamp lb \<noteq> None then cleanupAzureLB env L (Some lb) True (remember_lb a s)
        else apply_change env L a lb lbChanged s)"
      using Some by (simp add: azure_OnUpdate_def seqE_def read_lb_def)
    show ?thesis
    proof (cases "ps_Azure (lb_Providers lb)")
      case None
      then have "apply_change env L a lb False s = (Inl (Panic (NilDereference ''lb.Spec.Providers.Azure'')), s)"
        by (simp add: apply_change_def azure_spec_def)
      then show ?thesis using run clean inv None by (simp add: Let_def)
    next
      case (Some spec)
      then have "azure_inv {a} s" using inv \<open>hp_obj (snd s) a = Some lb\<close> by (simp add: azure_inv_def has_azure_def)
      then have "azure_inv {} (snd (apply_change env L a lb c s))" for c
        using inv_apply_change [of a s env L lb c] by (simp add: azure_inv_def)
      then show ?thesis using run clean by (simp add: Let_def)
    qed
  qed (use that in \<open>simp add: azure_OnUpdate_def read_lb_def seqE_def\<close>)
  then show ?thesis by (simp add: maintains_def)
qed

lemma inv_Stop: "maintains (azure_inv A) (azure_Stop env L)"
  using inv_cleanup [of A env L None True] by (simp add: maintains_def azure_Stop_def split: lookup.split)

interpretation azure_driver: provider_backend "azure_backend env" "azure_inv {}"
proof unfold_locales
  have call: "azure_inv {} (snd (with_azure_call env m s))"
    if "\<And>e. maintains (azure_inv {}) (m e)" "azure_inv {} s" for m and s :: "'a zstate"
  proof -
    have "azure_inv {} ((fst s)\<lparr>zp_calls := Suc (zp_calls (fst s))\<rparr>, snd s)" using that(2) by (simp add: azure_inv_def)
    then show ?thesis unfolding with_azure_call_def by (rule maintains_snd [OF that(1)])
  qed
  show "azure_inv {} (snd (be_OnUpdate (azure_backend env) L a s))" if "azure_inv {} s" for s L a
    using call [OF inv_OnUpdate that] by (simp add: azure_backend_def)
  show "azure_inv {} (snd (be_Start (azure_backend env) s))" if "azure_inv {} s" for s
    using that by (simp add: azure_backend_def azure_Start_def)
  show "azure_inv {} (snd (be_Stop (azure_backend env) L s))" if "azure_inv {} s" for s L
    using call [OF inv_Stop that] by (simp add: azure_backend_def)
  show "azure_inv {} (b, h')" if "azure_inv {} (b, h)" "heap_extends h h'" for b h h'
    using that by (fastforce simp: azure_inv_def has_azure_def heap_extends_def)
qed

end
