(* ===== verification/AzureProperties.thy ===== *)
theory AzureProperties
  imports AzureProvider
begin

text \<open>
  What the Azure provider's \<open>OnUpdate\<close> does as a whole: after a successful sync Azure's load balancer
  serves the ports of the config maps, a resource that did not change is left alone, and the runs in
  which a resource is not cleaned up although it is gone.
\<close>

section \<open>The copy of the resource\<close>

definition renamed :: "load_balancer \<Rightarrow> load_balancer \<Rightarrow> bool" where
  "renamed lb lb' \<longleftrightarrow> (\<exists>n. lb' = map_azure (\<lambda>spec. spec\<lparr>az_Name := n\<rparr>) lb)"

lemma map_azure_same:
  assumes "azure_spec lb = Inr spec" "f spec = spec"
  shows "map_azure f lb = lb"
  using assms by (cases "ps_Azure (lb_Providers lb)") (auto simp: map_azure_def azure_spec_def)

lemma azure_spec_map: "azure_spec lb = Inr spec \<Longrightarrow> azure_spec (map_azure f lb) = Inr (f spec)"
  by (auto simp: azure_spec_def map_azure_def split: option.splits)

lemma renamed_spec:
  assumes "renamed lb lb'" "azure_spec lb = Inr spec"
  obtains n where "azure_spec lb' = Inr (spec\<lparr>az_Name := n\<rparr>)"
  using assms azure_spec_map by (auto simp: renamed_def)

lemma renamed_refl: "azure_spec lb = Inr spec \<Longrightarrow> renamed lb lb"
  unfolding renamed_def by (metis azure_provider.surjective azure_provider.update_convs(1) map_azure_same)

text \<open>Writing its own name and group into a resource changes nothing.\<close>

lemma update_old_obj:
  "hp_obj (snd (update_old f s)) a =
     (if zp_old (fst s) = Some (AzureOf a) then map_option (map_azure f) (hp_obj (snd s) a) else hp_obj (snd s) a)"
  by (auto simp: update_old_def heap_map_obj split: option.split azure_ref.split)

lemma update_old_frame [simp]:
  "zp_tcp (fst (update_old f s)) = zp_tcp (fst s)" "zp_udp (fst (update_old f s)) = zp_udp (fst s)"
  "zp_lb (fst (update_old f s)) = zp_lb (fst s)" "zp_world (fst (update_old f s)) = zp_world (fst s)"
  "zp_patches (fst (update_old f s)) = zp_patches (fst s)" "zp_clean (fst (update_old f s)) = zp_clean (fst s)"
  by (auto simp: update_old_def split: option.split azure_ref.split)

lemma set_cache_own:
  assumes "hp_obj (snd s) a = Some lb" "azure_spec lb = Inr spec"
  shows "hp_obj (snd (setCacheAzureLoadbalancer spec s)) a = Some lb"
    "hp_obj (snd (setCacheReserveStatus (az_ReserveAzure spec) s)) a = Some lb"
  using assms map_azure_same [OF assms(2)]
  by (simp_all add: setCacheAzureLoadbalancer_def setCacheReserveStatus_def update_old_obj)

lemma path_obj:
  assumes "hp_obj (snd s) b = Some lb" "azure_spec lb = Inr spec" "pathLoadBalancerName env b name s = (r, s')"
  shows "hp_obj (snd s') b = Some (map_azure (\<lambda>spec. spec\<lparr>az_Name := name\<rparr>) lb) \<and> zp_world (fst s') = zp_world (fst s)"
proof -
  let ?lb = "map_azure (\<lambda>spec. spec\<lparr>az_Name := name\<rparr>) lb" and ?spec = "spec\<lparr>az_Name := name\<rparr>"
  let ?s1 = "(fst s, heap_map (map_azure (\<lambda>spec. spec\<lparr>az_Name := name\<rparr>)) b (snd s))"
  have b: "hp_obj (snd ?s1) b = Some ?lb" "azure_spec ?lb = Inr ?spec"
    using assms(1) azure_spec_map [OF assms(2)] by (simp_all add: heap_map_obj)
  have "snd s' = snd (setCacheAzureLoadbalancer ?spec ?s1)"
      "zp_world (fst s') = zp_world (fst (setCacheAzureLoadbalancer ?spec ?s1))"
    using assms(3) b
    by (auto simp: pathLoadBalancerName_def seqE_def modifyE_def read_lb_def send_patch_def)
  with set_cache_own(1) [OF b] show ?thesis by (simp add: setCacheAzureLoadbalancer_def)
qed

section \<open>A sync, step by step\<close>

lemma on_azure_ok:
  "on_azure m s = (r, s') \<Longrightarrow> m (zp_world (fst s)) = (r, zp_world (fst s')) \<and> snd s' = snd s
     \<and> zp_old (fst s') = zp_old (fst s)"
  by (auto simp: on_azure_def split: prod.splits)

lemma read_ok: "read_lb a s = (Inr lb, s') \<longleftrightarrow> s' = s \<and> hp_obj (snd s) a = Some lb"
  by (auto simp: read_lb_def split: option.split)

lemma get_lb_ok:
  "get_lb c g n w = (Inr (Some azlb), w') \<Longrightarrow> cl_lb_Get c g n w = (Inr azlb, w')"
  by (auto simp: get_lb_def split: prod.splits sum.splits if_splits)

lemma ensure_lb_ok:
  assumes "lb_service c stored" "hp_obj (snd s) b = Some lb" "azure_spec lb = Inr spec"
    and run: "ensureAzureLoadbalancer env c b s = (Inr azlb, s')"
  shows "(\<exists>lb'. hp_obj (snd s') b = Some lb' \<and> renamed lb lb')
    \<and> stored (zp_world (fst s')) (az_ResourceGroupName spec, to_String (al_Name azlb)) = Some (rules_view azlb)
    \<and> (az_Name spec \<noteq> [] \<longrightarrow> to_String (al_Name azlb) = az_Name spec)"
proof -
  obtain found s1 where 1: "on_azure (getAzureLoadbalancer c (az_ResourceGroupName spec) (az_Name spec)) s = (Inr found, s1)"
    and rest: "(case found of Some azlb \<Rightarrow> retE azlb | None \<Rightarrow>
           seqE (on_azure (createAzureLoadBalancer c lb)) (\<lambda>azlb.
             if az_Name spec = []
             then seqE (pathLoadBalancerName env b (to_String (al_Name azlb))) (\<lambda>_. retE azlb)
             else retE azlb)) s1 = (Inr azlb, s')"
    using run assms(2,3) by (auto simp: ensureAzureLoadbalancer_def seqE_def read_lb_def split: prod.splits sum.splits)
  note w1 = on_azure_ok [OF 1]
  show ?thesis
  proof (cases found)
    case (Some z)
    then have "azlb = z" "s' = s1" using rest by auto
    moreover have "cl_lb_Get c (az_ResourceGroupName spec) (az_Name spec) (zp_world (fst s)) = (Inr z, zp_world (fst s1))"
      using w1 Some by (auto simp: getAzureLoadbalancer_def intro!: get_lb_ok split: if_splits)
    ultimately show ?thesis
      using lb_service.lb_get [OF assms(1)] w1 assms(2) renamed_refl [OF assms(3)] by fastforce
  next
    case None
    obtain z s2 where 2: "on_azure (createAzureLoadBalancer c lb) s1 = (Inr z, s2)"
      and rest2: "(if az_Name spec = [] then seqE (pathLoadBalancerName env b (to_String (al_Name z))) (\<lambda>_. retE z)
                   else retE z) s2 = (Inr azlb, s')"
      using rest None by (auto elim: seqE_InrE)
    note w2 = on_azure_ok [OF 2]
    obtain sent where sent: "initClusterAzureLoadBalancerObject lb (az_ClusterID spec) = Inr sent"
      and put: "cl_lb_CreateOrUpdate c (az_ResourceGroupName spec) (to_String (al_Name sent)) sent (zp_world (fst s1))
        = (Inr z, zp_world (fst s2))"
      using w2 assms(3) by (auto simp: createAzureLoadBalancer_def initClusterAzureLoadBalancerObject_def Let_def)
    have name: "az_Name spec \<noteq> [] \<longrightarrow> to_String (al_Name sent) = az_Name spec"
      using sent assms(3) by (auto simp: initClusterAzureLoadBalancerObject_def Let_def)
    have st: "stored (zp_world (fst s2)) (az_ResourceGroupName spec, to_String (al_Name z)) = Some (rules_view z)"
        "al_Name z = al_Name sent"
      using lb_service.lb_put [OF assms(1) put] by (simp_all add: stored_as_def)
    have obj: "hp_obj (snd s2) b = Some lb" using w1 w2 assms(2) by simp
    show ?thesis
    proof (cases "az_Name spec = []")
      case True
      then obtain u where "pathLoadBalancerName env b (to_String (al_Name z)) s2 = (Inr u, s')" "azlb = z"
        using rest2 by (auto elim: seqE_InrE)
      from path_obj [OF obj assms(3) this(1)] this(2) st True show ?thesis by (auto simp: renamed_def)
    next
      case False
      then have "azlb = z" "s' = s2" using rest2 by auto
      then show ?thesis using st name obj renamed_refl [OF assms(3)] False by auto
    qed
  qed
qed

lemma status_ok:
  "patchLoadBalancerAzureStatus env lb phase result s = (r, s') \<Longrightarrow>
     zp_world (fst s') = zp_world (fst s) \<and> snd s' = snd s"
  by (auto simp: patchLoadBalancerAzureStatus_def send_patch_def)

lemma public_ip_keeps:
  assumes "lb_service c stored"
  shows "maintains (\<lambda>w. stored w = v) (getPublicIPAddress c lb)"
  unfolding getPublicIPAddress_def by (intro maintains_intros lb_service.others [OF assms])

lemma prepare_ok:
  assumes "lb_service c stored" "NewClient (ze_sdk env) L = Inr c" "hp_obj (snd s) b = Some lb" "azure_spec lb = Inr spec"
    and run: "prepare_sync env L b s = (Inr (c', azlb, ip), s')"
  shows "c' = c \<and> (\<exists>lb'. hp_obj (snd s') b = Some lb' \<and> renamed lb lb')
    \<and> stored (zp_world (fst s')) (az_ResourceGroupName spec, to_String (al_Name azlb)) = Some (rules_view azlb)
    \<and> (az_Name spec \<noteq> [] \<longrightarrow> to_String (al_Name azlb) = az_Name spec)
    \<and> lb_ready azlb \<and> forwards 80 (rules_view azlb) \<and> forwards 443 (rules_view azlb)"
proof -
  obtain u s1 where 1: "patchLoadBalancerAzureStatus env (Some lb) AzureUpdatingPhase None s = (Inr u, s1)"
    and rest: "seqE (ensureAzureLoadbalancer env c b) (\<lambda>azlb.
     seqE (read_lb b) (\<lambda>nlb.
     seqE (on_azure (ensureSyncDefaultAzureLBConfig c azlb nlb)) (\<lambda>azlb2.
     seqE (on_azure (getPublicIPAddress c (Some nlb))) (\<lambda>ip.
       retE (c, azlb2, ip))))) s1 = (Inr (c', azlb, ip), s')"
    using run assms(2-4) by (auto simp: prepare_sync_def seqE_def read_lb_def split: prod.splits sum.splits)
  note h1 = status_ok [OF 1]
  obtain z s2 where 2: "ensureAzureLoadbalancer env c b s1 = (Inr z, s2)"
    and rest2: "seqE (read_lb b) (\<lambda>nlb.
     seqE (on_azure (ensureSyncDefaultAzureLBConfig c z nlb)) (\<lambda>azlb2.
     seqE (on_azure (getPublicIPAddress c (Some nlb))) (\<lambda>ip.
       retE (c, azlb2, ip)))) s2 = (Inr (c', azlb, ip), s')"
    using rest by (rule seqE_InrE)
  have "hp_obj (snd s1) b = Some lb" using h1 assms(3) by simp
  note e = ensure_lb_ok [OF assms(1) this assms(4) 2]
  then obtain nlb where nlb: "hp_obj (snd s2) b = Some nlb" "renamed lb nlb" by blast
  obtain n where spec: "azure_spec nlb = Inr (spec\<lparr>az_Name := n\<rparr>)" using renamed_spec [OF nlb(2) assms(4)] .
  obtain s3 where 3: "on_azure (ensureSyncDefaultAzureLBConfig c z nlb) s2 = (Inr azlb, s3)"
    and 4: "on_azure (getPublicIPAddress c (Some nlb)) s3 = (Inr ip, s')" and c: "c' = c"
    using rest2 nlb(1) by (auto simp: seqE_def read_lb_def split: prod.splits sum.splits)
  note w3 = on_azure_ok [OF 3] and w4 = on_azure_ok [OF 4]
  have keep: "stored (zp_world (fst s')) = stored (zp_world (fst s3))"
    using maintainsD [OF public_ip_keeps [OF assms(1)] conjunct1 [OF w4] refl] .
  have "stored (zp_world (fst s2)) (az_ResourceGroupName (spec\<lparr>az_Name := n\<rparr>), to_String (al_Name z)) = Some (rules_view z)"
    using e by simp
  from lb_service.default_config_stored [OF assms(1) conjunct1 [OF w3] spec this]
  show ?thesis using e keep c nlb w3 w4 by auto
qed

lemma sync_ok:
  assumes "lb_service c stored" "NewClient (ze_sdk env) L = Inr c" "hp_obj (snd s) b = Some lb" "azure_spec lb = Inr spec"
    and ports: "canonical_ports (copyMap tcp)" "canonical_ports (copyMap udp)"
    and run: "ensureSync env L b tcp udp s = (Inr (azlb, ip, None), s')"
  shows "\<exists>n rules. stored (zp_world (fst s')) (az_ResourceGroupName spec, n) = Some rules
    \<and> (az_Name spec \<noteq> [] \<longrightarrow> n = az_Name spec)
    \<and> good_rules (copyMap tcp) (copyMap udp) rules
    \<and> (\<forall>k. has_key (copyMap tcp) k \<longrightarrow> list_ex (claims TransportProtocolTCP k) rules)
    \<and> (\<forall>k. has_key (copyMap udp) k \<longrightarrow> list_ex (claims TransportProtocolUDP k) rules)
    \<and> forwards 80 rules \<and> forwards 443 rules"
proof -
  obtain c' z ip' s1 where 1: "prepare_sync env L b s = (Inr (c', z, ip'), s1)"
    and rest: "seqE (read_lb b) (\<lambda>nlb.
           seqE (tryE (on_azure (ensureSyncRulesAndBackendPools (ze_order env) c' L z nlb tcp udp))) (\<lambda>r.
             retE (Some z, ip', case r of Inl e \<Rightarrow> Some e | Inr _ \<Rightarrow> None))) s1 = (Inr (azlb, ip, None), s')"
    using run by (auto simp: ensureSync_def seqE_def tryE_def split: prod.splits sum.splits if_splits)
  note p = prepare_ok [OF assms(1-4) 1]
  then obtain nlb where nlb: "hp_obj (snd s1) b = Some nlb" "renamed lb nlb" by blast
  obtain n where spec: "azure_spec nlb = Inr (spec\<lparr>az_Name := n\<rparr>)" using renamed_spec [OF nlb(2) assms(4)] .
  obtain z2 where 2: "on_azure (ensureSyncRulesAndBackendPools (ze_order env) c L z nlb tcp udp) s1 = (Inr z2, s')"
    using rest nlb(1) p by (auto simp: seqE_def read_lb_def tryE_def split: prod.splits sum.splits if_splits)
  have st: "stored (zp_world (fst s1)) (az_ResourceGroupName (spec\<lparr>az_Name := n\<rparr>), to_String (al_Name z)) = Some (rules_view z)"
    using p by simp
  have "lb_ready z" "\<forall>port \<in> {80, 443}. forwards port (rules_view z)" using p by simp_all
  note r = lb_service.rules_and_pools_stored [OF assms(1) conjunct1 [OF on_azure_ok [OF 2]] spec st this(1) ports this(2)]
  show ?thesis using r p by (intro exI [of _ "to_String (al_Name z)"]) simp
qed

lemma sync_copy_ok:
  assumes "sync_copy env L a tcp udp b s = (Inr (), s')"
  obtains azlb ip s1 where "ensureSync env L b tcp udp s = (Inr (azlb, ip, None), s1)"
    "zp_world (fst s') = zp_world (fst s1)" "zp_lb (fst s') = Some b" "zp_tcp (fst s') = tcp" "zp_udp (fst s') = udp"
proof -
  obtain azlb ip e s1 where 1: "ensureSync env L b tcp udp s = (Inr (azlb, ip, e), s1)"
    and rest: "seqE (updateLoadBalancerAzureStatus env azlb a ip e) (\<lambda>_.
       case e of None \<Rightarrow> updateCacheData b tcp udp | Some e \<Rightarrow> throwE e) s1 = (Inr (), s')"
    using assms by (auto simp: sync_copy_def elim: seqE_InrE)
  obtain u s2 where 2: "updateLoadBalancerAzureStatus env azlb a ip e s1 = (Inr u, s2)"
    and 3: "(case e of None \<Rightarrow> updateCacheData b tcp udp | Some e \<Rightarrow> throwE e) s2 = (Inr (), s')"
    using rest by (rule seqE_InrE)
  have e: "e = None" using 3 by (cases e) auto
  have "zp_world (fst s2) = zp_world (fst s1)"
    using 2 by (auto simp: updateLoadBalancerAzureStatus_def seqE_def modifyE_def read_lb_def ignoreE_def
        dest!: status_ok split: prod.splits sum.splits option.splits if_splits)
  moreover have "zp_world (fst s') = zp_world (fst s2)" "zp_lb (fst s') = Some b" "zp_tcp (fst s') = tcp" "zp_udp (fst s') = udp"
    using 3 e by (auto simp: updateCacheData_def seqE_def read_lb_def modifyE_def split: option.splits)
  ultimately show ?thesis using that 1 e by metis
qed

section \<open>One update\<close>

lemma apply_change_run:
  assumes "azure_spec lb = Inr spec"
  shows "apply_change env L a lb lbChanged s =
    sync_if_changed env L a lb lbChanged (setCacheReserveStatus (az_ReserveAzure spec) (setCacheAzureLoadbalancer spec s))"
  by (simp add: apply_change_def assms seqE_def modifyE_def)

lemma OnUpdate_run:
  assumes "hp_obj (snd s) a = Some lb"
  shows "azure_OnUpdate env L a s =
     (let lbChanged = azure_isLBChanged (azure_cached_lb s) lb in
        if lbChanged \<and> ps_Azure (lb_Providers lb) = None then cleanupAzureLB env L None False (remember_lb a s)
        else if lbChanged \<and> lb_DeletionTimestamp lb \<noteq> None then cleanupAzureLB env L (Some lb) True (remember_lb a s)
        else apply_change env L a lb lbChanged s)"
  using assms by (simp add: azure_OnUpdate_def seqE_def read_lb_def)

lemma OnUpdate_live:
  assumes "hp_obj (snd s) a = Some lb" "azure_spec lb = Inr spec" "lb_DeletionTimestamp lb = None"
  shows "azure_OnUpdate env L a s = apply_change env L a lb (azure_isLBChanged (azure_cached_lb s) lb) s"
proof -
  have "ps_Azure (lb_Providers lb) \<noteq> None" using assms(2) by (auto simp: azure_spec_def split: option.splits)
  then show ?thesis using assms(3) by (auto simp: OnUpdate_run [OF assms(1)] Let_def)
qed

lemma set_cache_frame [simp]:
  "zp_tcp (fst (setCacheAzureLoadbalancer spec s)) = zp_tcp (fst s)"
  "zp_udp (fst (setCacheAzureLoadbalancer spec s)) = zp_udp (fst s)"
  "zp_lb (fst (setCacheAzureLoadbalancer spec s)) = zp_lb (fst s)"
  "zp_world (fst (setCacheAzureLoadbalancer spec s)) = zp_world (fst s)"
  "zp_patches (fst (setCacheAzureLoadbalancer spec s)) = zp_patches (fst s)"
  "zp_tcp (fst (setCacheReserveStatus rv s)) = zp_tcp (fst s)"
  "zp_udp (fst (setCacheReserveStatus rv s)) = zp_udp (fst s)"
  "zp_lb (fst (setCacheReserveStatus rv s)) = zp_lb (fst s)"
  "zp_world (fst (setCacheReserveStatus rv s)) = zp_world (fst s)"
  "zp_patches (fst (setCacheReserveStatus rv s)) = zp_patches (fst s)"
  by (simp_all add: setCacheAzureLoadbalancer_def setCacheReserveStatus_def)

text \<open>Nothing changed: nothing is done.\<close>

lemma OnUpdate_unchanged:
  assumes "hp_obj (snd s) a = Some lb" "azure_spec lb = Inr spec" "\<not> azure_isLBChanged (azure_cached_lb s) lb"
    "getProxyConfigMapAndCompare env L (zp_tcp (fst s)) (zp_udp (fst s)) lb = Inr (tcp, udp, False)"
  shows "azure_OnUpdate env L a s =
    (Inr (), setCacheReserveStatus (az_ReserveAzure spec) (setCacheAzureLoadbalancer spec s))"
  using assms by (simp add: OnUpdate_run apply_change_run sync_if_changed_def)

section \<open>Cleaning up leaves the caches alone\<close>

definition caches :: "nat option \<Rightarrow> gomap option \<Rightarrow> gomap option \<Rightarrow> lb_heap \<Rightarrow> 'w zstate \<Rightarrow> bool" where
  "caches a tcp udp h s \<longleftrightarrow> zp_lb (fst s) = a \<and> zp_tcp (fst s) = tcp \<and> zp_udp (fst s) = udp \<and> snd s = h"

lemma caches_on_azure [maintains_intros]: "maintains (caches a tcp udp h) (on_azure m)"
  by (auto simp: maintains_def on_azure_def caches_def split: prod.split)

lemma caches_patches [maintains_intros]:
  "maintains (caches a tcp udp h) (patchLoadBalancerAzureStatus env lb phase result)"
  "maintains (caches a tcp udp h) (patachFinalizersAndStatus env lb deleteLB)"
  by (auto simp: maintains_def patchLoadBalancerAzureStatus_def patachFinalizersAndStatus_def send_patch_def
      caches_def Let_def)

lemma cleanup_caches: "maintains (caches a tcp udp h) (cleanupAzureLB env L lb deleteLB)"
proof -
  have fin: "maintains (caches a tcp udp h) (finish_cleanup env lb deleteLB)"
    unfolding finish_cleanup_def by (intro maintains_intros) (simp add: caches_def)
  have all: "maintains (caches a tcp udp h) (seqE (liftE (NewClient (ze_sdk env) L)) (\<lambda>c.
      seqE (on_azure (cleanUpSecurityGroup (ze_order env) c (az_ResourceGroupName old) (az_Name old))) (\<lambda>_.
      seqE (keep_or_delete env c old lb) (\<lambda>_. seqE (finish_cleanup env lb deleteLB) (\<lambda>_.
        modifyE (\<lambda>s. ((fst s)\<lparr>zp_old := None\<rparr>, snd s)))))))" for old
    unfolding keep_or_delete_def by (intro maintains_intros fin) (simp add: caches_def)
  show ?thesis
    using fin all unfolding maintains_def cleanupAzureLB_def by (simp split: option.split)
qed

text \<open>After a cleanup the resource is the cached one, so it never looks changed again.\<close>

lemma cleaned_unchanged:
  assumes "hp_obj (snd s) a = Some lb" "cleanupAzureLB env L olb d (remember_lb a s) = (r, s')"
  shows "hp_obj (snd s') a = Some lb" "\<not> azure_isLBChanged (azure_cached_lb s') lb"
    "zp_tcp (fst s') = zp_tcp (fst s)" "zp_udp (fst s') = zp_udp (fst s)"
proof -
  have "caches (Some a) (zp_tcp (fst s)) (zp_udp (fst s)) (snd s) s'"
    by (rule maintainsD [OF cleanup_caches assms(2)]) (simp add: caches_def remember_lb_def)
  with assms(1) show "hp_obj (snd s') a = Some lb" "\<not> azure_isLBChanged (azure_cached_lb s') lb"
    "zp_tcp (fst s') = zp_tcp (fst s)" "zp_udp (fst s') = zp_udp (fst s)"
    by (simp_all add: caches_def azure_cached_lb_def azure_isLBChanged_def)
qed

section \<open>Settling\<close>

text \<open>
  A sync of a resource that has a name changes no object of the heap; what it reports goes into the
  status of the resource.
\<close>

lemma maintains_seq_read:
  "(\<And>s. P s \<Longrightarrow> hp_obj (snd s) b = Some lb) \<Longrightarrow> maintains P (k lb) \<Longrightarrow> maintains P (seqE (read_lb b) k)"
  by (auto simp: maintains_def seqE_def read_lb_def)

lemma heap_calls [maintains_intros]:
  "maintains (\<lambda>s. snd s = h) (on_azure m)"
  "maintains (\<lambda>s. snd s = h) (patchLoadBalancerAzureStatus env x phase result)"
  by (auto simp: maintains_def on_azure_def patchLoadBalancerAzureStatus_def send_patch_def split: prod.split)

lemma ensureSync_heap:
  assumes "hp_obj h b = Some lb" "azure_spec lb = Inr spec" "az_Name spec \<noteq> []"
  shows "maintains (\<lambda>s. snd s = h) (ensureSync env L b tcp udp)"
proof -
  have lb: "\<And>s. snd s = h \<Longrightarrow> hp_obj (snd s) b = Some lb" using assms(1) by simp
  have "maintains (\<lambda>s. snd s = h) (ensureAzureLoadbalancer env c b)" for c
    unfolding ensureAzureLoadbalancer_def
    by (rule maintains_seq_read [OF lb], assumption) (simp add: assms(2,3), intro maintains_intros)
  then have "maintains (\<lambda>s. snd s = h) (prepare_sync env L b)"
    unfolding prepare_sync_def by (intro maintains_intros)
  then show ?thesis unfolding ensureSync_def by (intro maintains_intros)
qed

definition status_only :: "load_balancer \<Rightarrow> load_balancer \<Rightarrow> bool" where
  "status_only lb lb' \<longleftrightarrow> (\<exists>st. lb' = lb\<lparr>lb_AzureStatus := st\<rparr>)"

lemma status_only_simps:
  "status_only lb lb' \<Longrightarrow> azure_spec lb' = azure_spec lb"
  "status_only lb lb' \<Longrightarrow> \<not> azure_isLBChanged (Some lb) lb'"
  "status_only lb lb' \<Longrightarrow> getProxyConfigMapAndCompare env L tcp udp lb' = getProxyConfigMapAndCompare env L tcp udp lb"
  by (auto simp: status_only_def azure_spec_def azure_isLBChanged_def getProxyConfigMapAndCompare_def split: sum.split)

lemma update_status_heap:
  assumes "updateLoadBalancerAzureStatus env azlb a ip e s = (Inr u, s')" "hp_obj (snd s) a = Some lb"
  shows "(\<exists>lb'. hp_obj (snd s') a = Some lb' \<and> status_only lb lb') \<and> (\<forall>b. b \<noteq> a \<longrightarrow> hp_obj (snd s') b = hp_obj (snd s) b)"
proof -
  let ?f = "\<lambda>lb. setProvisioningPublicIPAddress ip (case azlb of None \<Rightarrow> lb
      | Some z \<Rightarrow> setProvisioningState (to_String (al_ProvisioningState z)) lb)"
  have "snd s' = heap_map ?f a (snd s)"
    using assms by (auto simp: updateLoadBalancerAzureStatus_def seqE_def modifyE_def read_lb_def ignoreE_def
        dest!: status_ok split: prod.splits sum.splits option.splits if_splits)
  moreover have "status_only lb (?f lb)"
    by (cases azlb) (simp_all add: status_only_def setProvisioningPublicIPAddress_def setProvisioningState_def map_status_def,
        blast+)
  ultimately show ?thesis using assms(2) by (simp add: heap_map_obj)
qed

text \<open>What a successful sync of a copy leaves: the copy is cached, and it is the resource but for the status.\<close>

lemma sync_settled:
  assumes "heap_wf (snd s)" "hp_obj (snd s) a = Some lb" "azure_spec lb = Inr spec" "az_Name spec \<noteq> []"
    and "sync_and_report env L a tcp udp s = (Inr (), s')"
  shows "\<exists>lb'. hp_obj (snd s') a = Some lb' \<and> status_only lb lb' \<and> azure_cached_lb s' = Some lb
    \<and> zp_tcp (fst s') = tcp \<and> zp_udp (fst s') = udp"
proof -
  obtain b t1 where 1: "deep_copy a s = (Inr b, t1)" and 2: "sync_copy env L a tcp udp b t1 = (Inr (), s')"
    using assms(5) unfolding sync_and_report_def by (rule seqE_InrE)
  have b: "hp_obj (snd t1) b = Some lb" "hp_obj (snd t1) a = Some lb" "b \<noteq> a"
    using 1 assms(1,2) by (auto simp: deep_copy_def seqE_def read_lb_def heap_alloc_def heap_wf_def)
  obtain azlb ip e t2 where 3: "ensureSync env L b tcp udp t1 = (Inr (azlb, ip, e), t2)"
    and rest: "seqE (updateLoadBalancerAzureStatus env azlb a ip e) (\<lambda>_.
       case e of None \<Rightarrow> updateCacheData b tcp udp | Some e \<Rightarrow> throwE e) t2 = (Inr (), s')"
    using 2 by (auto simp: sync_copy_def elim: seqE_InrE)
  obtain u t3 where 4: "updateLoadBalancerAzureStatus env azlb a ip e t2 = (Inr u, t3)"
    and 5: "(case e of None \<Rightarrow> updateCacheData b tcp udp | Some e \<Rightarrow> throwE e) t3 = (Inr (), s')"
    using rest by (rule seqE_InrE)
  have "snd t2 = snd t1" using maintainsD [OF ensureSync_heap [OF b(1) assms(3,4)] 3] by simp
  then obtain lb' where lb': "hp_obj (snd t3) a = Some lb'" "status_only lb lb'" "hp_obj (snd t3) b = Some lb"
    using update_status_heap [OF 4] b by auto
  have "e = None" using 5 by (cases e) auto
  then have "snd s' = snd t3" "zp_lb (fst s') = Some b" "zp_tcp (fst s') = tcp" "zp_udp (fst s') = udp"
    using 5 by (auto simp: updateCacheData_def seqE_def read_lb_def modifyE_def split: option.splits)
  with lb' show ?thesis by (simp add: azure_cached_lb_def)
qed

section \<open>A concrete run\<close>

text \<open>An SDK whose client is the reference client, a lister and a resource for it.\<close>

datatype future = FutureLB az_lb | FutureNic az_nic | FutureGroup az_security_group | FutureDone

definition reference_sdk :: "(azure_cloud, future) azure_sdk" where
  "reference_sdk =
     \<lparr> sd_Authorizer = (\<lambda>_. None),
       sd_lb_Get = (\<lambda>_. cl_lb_Get reference_client),
       sd_lb_CreateOrUpdate = (\<lambda>_ g n x. seqE (cl_lb_CreateOrUpdate reference_client g n x) (\<lambda>y. retE (FutureLB y))),
       sd_lb_Delete = (\<lambda>_ g n. seqE (cl_lb_Delete reference_client g n) (\<lambda>_. retE FutureDone)),
       sd_lb_Result = (\<lambda>_ f. case f of FutureLB y \<Rightarrow> retE y | _ \<Rightarrow> throwE not_found),
       sd_vm_Get = (\<lambda>_. cl_vm_Get reference_client),
       sd_nic_Get = (\<lambda>_. cl_nic_Get reference_client),
       sd_nic_CreateOrUpdate = (\<lambda>_ g n x. seqE (cl_nic_CreateOrUpdate reference_client g n x) (\<lambda>y. retE (FutureNic y))),
       sd_nic_Result = (\<lambda>_ f. case f of FutureNic y \<Rightarrow> retE y | _ \<Rightarrow> throwE not_found),
       sd_sg_Get = (\<lambda>_. cl_sg_Get reference_client),
       sd_sg_CreateOrUpdate = (\<lambda>_ g n x. seqE (cl_sg_CreateOrUpdate reference_client g n x) (\<lambda>y. retE (FutureGroup y))),
       sd_sg_Result = (\<lambda>_ f. case f of FutureGroup y \<Rightarrow> retE y | _ \<Rightarrow> throwE not_found),
       sd_ip_Get = (\<lambda>_. cl_ip_Get reference_client),
       sd_WaitForCompletionRef = (\<lambda>_ _. retE ()) \<rparr>"

definition azure_lister :: "gomap option \<Rightarrow> store_lister" where
  "azure_lister tcp = empty_lister\<lparr>sl_LoadBalancer := (\<lambda>_ _. Found 0),
     sl_ConfigMap := (\<lambda>ns n. Found \<lparr> cm_Namespace = ns, cm_Name = n, cm_ResourceVersion = ''1'',
        cm_Data = if n = ''tcp'' then tcp else None \<rparr>),
     sl_Secret := (\<lambda>_. Found [\<lparr> sc_Type = SecretTypeAzure, sc_Data = [] \<rparr>])\<rparr>"

lemma seqE_retE_right [simp]: "seqE m retE = m"
  by (auto simp: seqE_def fun_eq_iff split: prod.split sum.split)

lemma reference_NewClient: "NewClient reference_sdk (azure_lister tcp) = Inr reference_client"
proof -
  have del: "loadBalancer_Delete reference_sdk cfg g n w = cl_lb_Delete reference_client g n w" for cfg g n w
    by (simp add: loadBalancer_Delete_def reference_sdk_def seqE_def reference_client_def)
  show ?thesis
    by (simp add: NewClient_def getAPISecret_def azure_lister_def SecretTypeAzure_def NewClientWithConfig_def)
      (simp add: reference_client_def reference_sdk_def fun_eq_iff loadBalancer_CreateOrUpdate_def
        networkInterface_CreateOrUpdate_def securityGroup_CreateOrUpdate_def seqE_def loadBalancer_Delete_def)
qed

definition azure_test_env :: "(azure_cloud, future) azure_env" where
  "azure_test_env = \<lparr> ze_sdk = reference_sdk, ze_order = insertion_order, ze_Patch = (\<lambda>_ _ _. None),
     ze_text = (\<lambda>_. ''error''), ze_polls = 12 \<rparr>"

definition static_lb :: load_balancer where
  "static_lb = azure_example_lb (Some (example_spec AzureStaticIPAllocationMethod (Some ''10.0.0.4'')))"

definition azure_new :: "azure_cloud azure_prov" where
  "azure_new = NewAzureProvider ''lb'' ''ns'' (example_cloud\<lparr>az_lbs := (\<lambda>_. None)((''g'', ''lb'') \<mapsto> example_azlb)\<rparr>)"

definition azure_start :: "nat \<Rightarrow> load_balancer \<Rightarrow> azure_cloud zstate" where
  "azure_start n lb = (azure_new\<lparr>zp_calls := n\<rparr>, snd (heap_alloc lb empty_heap))"

lemma azure_start_obj [simp]: "hp_obj (snd (azure_start n lb)) 0 = Some lb"
  by (simp add: azure_start_def heap_alloc_def empty_heap_def)

lemma azure_start_simps [simp]:
  "zp_tcp (fst (azure_start n lb)) = None" "zp_udp (fst (azure_start n lb)) = None"
  "zp_old (fst (azure_start n lb)) = None" "azure_cached_lb (azure_start n lb) = None"
  "\<not> zp_clean (fst (azure_start n lb))"
  "az_lbs (zp_world (fst (azure_start n lb))) (''g'', ''lb'') = Some example_azlb"
  by (simp_all add: azure_start_def azure_new_def NewAzureProvider_def azure_cached_lb_def)

lemma azure_test_env_simps [simp]:
  "ze_sdk azure_test_env = reference_sdk" "ze_order azure_test_env = insertion_order"
  "ze_Patch azure_test_env ns name text = None" "ze_polls azure_test_env = 12"
  by (simp_all add: azure_test_env_def)

lemma makeUpRules_pools: "al_BackendAddressPools (fst (makeUpRules azlb tcp udp)) = al_BackendAddressPools azlb"
  by (simp add: makeUpRules_def Let_def split: prod.split)

lemma pools_run:
  assumes "al_BackendAddressPools azlb = Some [\<lparr> pl_Name = x, pl_ID = y, pl_BackendIPConfigurations = None \<rparr>]"
    "ns_Names (lb_Nodes lb) = []" "\<not> usePublicAddress lb"
  shows "\<exists>z w'. ensureSyncRulesAndBackendPools insertion_order reference_client L azlb lb tcp udp w = (Inr z, w')"
proof -
  obtain az diff where m: "makeUpRules azlb (copyMap tcp) (copyMap udp) = (az, diff)" by fastforce
  then have "al_BackendAddressPools az = al_BackendAddressPools azlb" by (metis makeUpRules_pools fst_conv)
  moreover obtain w1 where "syncRules reference_client azlb tcp udp (getGroupName lb) w = (Inr az, w1)"
    by (cases diff) (simp_all add: syncRules_def m seqE_def reference_client_def)
  ultimately show ?thesis using assms
    by (simp add: ensureSyncRulesAndBackendPools_def seqE_def syncBackendPools_def syncBackendPoolsWithNodes_def
        diffBackendPoolNetworkInterfaecs_def getAzureBackendPoolIP_def getBackendPoolIPFromNodes_def
        getDiffBetweenNetworkInterfaces_def insertion_order_def Let_def)
qed

lemma static_config: "getAzureLoadBalancerFrontendIPConfigByConfig (az_IPAddressProperties
    (example_spec AzureStaticIPAllocationMethod (Some ''10.0.0.4''))) =
  Some [\<lparr> fe_Name = Some azureLoadBalancerFrontendName, fe_ID = None, fe_Properties = Some
    \<lparr> fp_PrivateIPAddress = Some ''10.0.0.4'', fp_PrivateIPAllocationMethod = AzureStaticIPAllocationMethod,
      fp_Subnet = Some \<lparr> sn_ID = Some ''s'', sn_Rest = None \<rparr>, fp_PublicIPAddress = None \<rparr> \<rparr>]"
  by (simp add: getAzureLoadBalancerFrontendIPConfigByConfig_def example_spec_def Let_def)

lemma default_run:
  "\<exists>z w'. ensureSyncDefaultAzureLBConfig reference_client example_azlb static_lb w = (Inr z, w')
     \<and> al_BackendAddressPools z = al_BackendAddressPools example_azlb"
proof -
  obtain az where e: "ensureSyncDefaultConfigExceptRules example_azlb static_lb = Inr (az, True)"
      "al_BackendAddressPools az = al_BackendAddressPools example_azlb" "al_Probes az = al_Probes example_azlb"
      "al_FrontendIPConfigurations az = getAzureLoadBalancerFrontendIPConfigByConfig (az_IPAddressProperties
        (example_spec AzureStaticIPAllocationMethod (Some ''10.0.0.4'')))"
      "al_LoadBalancingRules az = al_LoadBalancingRules example_azlb"
    by (simp add: ensureSyncDefaultConfigExceptRules_def ensure_probes_def ensure_pools_def ensure_frontends_def
        isEqual_def example_azlb_def probes_brief_default static_config static_lb_def
        getAzureLoadBalancerFrontendIPConfigBrief_def frontend_brief_def List.map_filter_simps)
  obtain defaults where d: "default_rules_of (az\<lparr>al_LoadBalancingRules := Some []\<rparr>) = Inr defaults"
    using e by (simp add: default_rules_of_def static_config deref_first_def deref_def example_azlb_def)
  show ?thesis using e d
    by (simp add: ensureSyncDefaultAzureLBConfig_def deref_def example_azlb_def static_lb_def seqE_def
        ensureSyncDefaultRules_def patched_rules_def rules_of_def)
      (simp add: reference_client_def)
qed

lemma static_lb_simps [simp]:
  "azure_spec static_lb = Inr (example_spec AzureStaticIPAllocationMethod (Some ''10.0.0.4''))"
  "lb_Namespace static_lb = ''ns''" "lb_Name static_lb = ''lb''" "lb_DeletionTimestamp static_lb = None"
  "lb_TCPConfigMap static_lb = ''tcp''" "lb_UDPConfigMap static_lb = ''udp''" "ns_Names (lb_Nodes static_lb) = []"
  "\<not> usePublicAddress static_lb"
  "getPublicIPAddress reference_client (Some static_lb) = retE []"
  by (simp_all add: static_lb_def azure_example_lb_def usePublicAddress_def getPublicIPAddress_def example_spec_def
      azure_spec_def)

lemma example_spec_simps [simp]:
  "az_Name (example_spec m x) = ''lb''" "az_ResourceGroupName (example_spec m x) = ''g''"
  "az_ReserveAzure (example_spec m x) = None"
  by (simp_all add: example_spec_def)

lemma prepare_run:
  assumes "hp_obj (snd s) b = Some static_lb" "az_lbs (zp_world (fst s)) (''g'', ''lb'') = Some example_azlb"
  shows "\<exists>z s'. prepare_sync azure_test_env (azure_lister tcp) b s = (Inr (reference_client, z, []), s')
     \<and> snd s' = snd s \<and> al_BackendAddressPools z = al_BackendAddressPools example_azlb"
proof -
  obtain s1 where 1: "patchLoadBalancerAzureStatus azure_test_env (Some static_lb) AzureUpdatingPhase None s = (Inr (), s1)"
    by (simp add: patchLoadBalancerAzureStatus_def send_patch_def)
  note w1 = status_ok [OF 1]
  have "example_azlb\<lparr>al_Name := Some ''lb''\<rparr> = example_azlb" by (simp add: example_azlb_def)
  then have 2: "ensureAzureLoadbalancer azure_test_env reference_client b s1 = (Inr example_azlb, s1)"
    using assms w1
    by (simp add: ensureAzureLoadbalancer_def seqE_def read_lb_def on_azure_def getAzureLoadbalancer_def get_lb_def
        reference_client_def cloud_get_def prod_eq_iff)
  obtain z w' where 3: "ensureSyncDefaultAzureLBConfig reference_client example_azlb static_lb (zp_world (fst s1)) = (Inr z, w')"
      "al_BackendAddressPools z = al_BackendAddressPools example_azlb"
    using default_run by blast
  show ?thesis using assms(1) w1 1 2 3 reference_NewClient [of tcp]
    by (simp add: prepare_sync_def seqE_def read_lb_def on_azure_def)
qed

lemma sync_run:
  assumes "hp_obj (snd s) b = Some static_lb" "az_lbs (zp_world (fst s)) (''g'', ''lb'') = Some example_azlb"
  shows "\<exists>z s'. ensureSync azure_test_env (azure_lister tcp) b t u s = (Inr (z, [], None), s') \<and> snd s' = snd s"
proof -
  obtain z s1 where 1: "prepare_sync azure_test_env (azure_lister tcp) b s = (Inr (reference_client, z, []), s1)"
      "snd s1 = snd s" "al_BackendAddressPools z = al_BackendAddressPools example_azlb"
    using prepare_run [OF assms] by blast
  obtain z2 w2 where 2: "ensureSyncRulesAndBackendPools insertion_order reference_client (azure_lister tcp) z static_lb t u
      (zp_world (fst s1)) = (Inr z2, w2)"
    using pools_run [of z "Some ''back''" "Some ''b''" static_lb "azure_lister tcp" t u "zp_world (fst s1)"] 1(3)
    by (auto simp: example_azlb_def)
  show ?thesis using 1 2 assms(1)
    by (simp add: ensureSync_def seqE_def tryE_def read_lb_def on_azure_def)
qed

lemma update_run:
  "\<exists>s' b. azure_OnUpdate azure_test_env (azure_lister (Some tcp)) 0 (azure_start n static_lb) = (Inr (), s')
     \<and> zp_old (fst s') = Some (AzureOf b)"
proof -
  let ?s = "azure_start n static_lb" and ?tcp = "Some tcp"
  let ?L = "azure_lister ?tcp" and ?spec = "example_spec AzureStaticIPAllocationMethod (Some ''10.0.0.4'')"
  have cms: "getProxyConfigMapAndCompare azure_test_env ?L None None static_lb = Inr (?tcp, None, True)"
    by (simp add: getProxyConfigMapAndCompare_def get_config_map_def azure_lister_def)
  have found: "sl_LoadBalancer ?L ''ns'' ''lb'' = Found 0" by (simp add: azure_lister_def)
  let ?t = "setCacheReserveStatus (az_ReserveAzure ?spec) (setCacheAzureLoadbalancer ?spec ?s)"
  have t: "hp_obj (snd ?t) 0 = Some static_lb" using set_cache_own by (metis azure_start_obj static_lb_simps(1))
  obtain b t1 where cp: "deep_copy 0 ?t = (Inr b, t1)" "hp_obj (snd t1) b = Some static_lb" "hp_obj (snd t1) 0 = Some static_lb"
      "zp_world (fst t1) = zp_world (fst ?s)"
    using t by (simp add: deep_copy_def seqE_def read_lb_def heap_alloc_def)
  obtain z s1 where sy: "ensureSync azure_test_env ?L b ?tcp None t1 = (Inr (z, [], None), s1)" "snd s1 = snd t1"
    using sync_run [OF cp(2), of ?tcp ?tcp None] cp(4) by auto
  have "ps_Azure (lb_Providers static_lb) \<noteq> None" by (simp add: static_lb_def azure_example_lb_def)
  then obtain s' where cc: "sync_copy azure_test_env ?L 0 ?tcp None b t1 = (Inr (), s')" "zp_old (fst s') = Some (AzureOf b)"
    using sy cp
    by (cases "b = 0"; cases z)
      (auto simp: sync_copy_def seqE_def updateLoadBalancerAzureStatus_def modifyE_def read_lb_def ignoreE_def
        patchLoadBalancerAzureStatus_def send_patch_def updateCacheData_def heap_map_obj
        setProvisioningPublicIPAddress_def setProvisioningState_def map_status_def)
  have "azure_OnUpdate azure_test_env ?L 0 ?s = (Inr (), s')"
    using cp(1) cc(1) found cms
    by (simp add: OnUpdate_live [OF azure_start_obj] apply_change_run sync_if_changed_def sync_and_report_def seqE_def
        azure_isLBChanged_def)
  with cc(2) show ?thesis by blast
qed

section \<open>Properties\<close>

text \<open>
  C5: a sync that succeeds. When \<open>OnUpdate\<close> finds a change in a live resource with an Azure block and returns
  nil, the load balancer stored in Azure, under the configured name or a generated one, forwards the ports 80 and
  443, has a rule for every port of the config maps and no other TCP or UDP rule than those and the
  default ones, whatever was there before; and the provider remembers the config maps it applied.
\<close>

theorem azure_sync_applied:
  assumes "lb_service c stored" "NewClient (ze_sdk env) L = Inr c"
    and "hp_obj (snd s) a = Some lb" "azure_spec lb = Inr spec" "lb_DeletionTimestamp lb = None"
    and "getProxyConfigMapAndCompare env L (zp_tcp (fst s)) (zp_udp (fst s)) lb = Inr (tcp, udp, ruleChange)"
    and "azure_isLBChanged (azure_cached_lb s) lb \<or> ruleChange"
    and "sl_LoadBalancer L (lb_Namespace lb) (lb_Name lb) = Found x"
    and "canonical_ports (copyMap tcp)" "canonical_ports (copyMap udp)"
    and "azure_OnUpdate env L a s = (Inr (), s')"
  shows "(\<exists>n rules. stored (zp_world (fst s')) (az_ResourceGroupName spec, n) = Some rules
      \<and> (az_Name spec \<noteq> [] \<longrightarrow> n = az_Name spec)
      \<and> good_rules (copyMap tcp) (copyMap udp) rules
      \<and> (\<forall>k. has_key (copyMap tcp) k \<longrightarrow> list_ex (claims TransportProtocolTCP k) rules)
      \<and> (\<forall>k. has_key (copyMap udp) k \<longrightarrow> list_ex (claims TransportProtocolUDP k) rules)
      \<and> forwards 80 rules \<and> forwards 443 rules)
    \<and> zp_tcp (fst s') = tcp \<and> zp_udp (fst s') = udp"
proof -
  let ?t = "setCacheReserveStatus (az_ReserveAzure spec) (setCacheAzureLoadbalancer spec s)"
  have obj: "hp_obj (snd ?t) a = Some lb" using set_cache_own assms(3,4) by blast
  have "azure_OnUpdate env L a s = apply_change env L a lb (azure_isLBChanged (azure_cached_lb s) lb) s"
    by (rule OnUpdate_live [OF assms(3-5)])
  then have "sync_and_report env L a tcp udp ?t = (Inr (), s')"
    using assms(6-8,11) by (auto simp: apply_change_run [OF assms(4)] sync_if_changed_def)
  then obtain b t1 where 1: "deep_copy a ?t = (Inr b, t1)" and 2: "sync_copy env L a tcp udp b t1 = (Inr (), s')"
    unfolding sync_and_report_def by (rule seqE_InrE)
  have b: "hp_obj (snd t1) b = Some lb"
    using 1 obj by (auto simp: deep_copy_def seqE_def read_lb_def heap_alloc_def)
  obtain azlb ip s1 where e: "ensureSync env L b tcp udp t1 = (Inr (azlb, ip, None), s1)"
      "zp_world (fst s') = zp_world (fst s1)" "zp_tcp (fst s') = tcp" "zp_udp (fst s') = udp"
    using sync_copy_ok [OF 2] by metis
  from sync_ok [OF assms(1,2) b assms(4,9,10) e(1)] e show ?thesis by simp
qed

lemma azure_sync_applied_witness:
  "\<exists>s' rules. azure_OnUpdate azure_test_env (azure_lister (Some [(port_string 8080, ''ns/svc'')])) 0 (azure_start 0 static_lb)
       = (Inr (), s')
     \<and> cloud_rules (zp_world (fst s')) (''g'', ''lb'') = Some rules
     \<and> list_ex (claims TransportProtocolTCP (port_string 8080)) rules \<and> forwards 443 rules"
proof -
  let ?tcp = "Some [(port_string 8080, ''ns/svc'')]"
  let ?L = "azure_lister ?tcp"
  obtain s' where run: "azure_OnUpdate azure_test_env ?L 0 (azure_start 0 static_lb) = (Inr (), s')"
    using update_run by blast
  have cms: "getProxyConfigMapAndCompare azure_test_env ?L (zp_tcp (fst (azure_start 0 static_lb)))
      (zp_udp (fst (azure_start 0 static_lb))) static_lb = Inr (?tcp, None, True)"
    by (simp add: getProxyConfigMapAndCompare_def get_config_map_def azure_lister_def)
  have found: "sl_LoadBalancer ?L (lb_Namespace static_lb) (lb_Name static_lb) = Found 0" by (simp add: azure_lister_def)
  have client: "NewClient (ze_sdk azure_test_env) ?L = Inr reference_client" using reference_NewClient by simp
  have ports: "canonical_ports (copyMap ?tcp)" "canonical_ports (copyMap None)" by (simp_all add: copyMap_def)
  from azure_sync_applied [OF ref_lbs.lb_service_axioms client azure_start_obj static_lb_simps(1,4) cms _ found ports run] run
  show ?thesis by (auto simp: copyMap_def has_key_def)
qed

text \<open>
  C9: an update settles. After \<open>OnUpdate\<close> returned nil for a live resource that has an Azure name, the
  next update of the same object with the same config maps returns nil, and makes no call to Azure and
  sends no patch, whatever changes Azure, the API server or the environment went through in between.
\<close>

theorem azure_settles:
  assumes "heap_wf (snd s)" "hp_obj (snd s) a = Some lb" "azure_spec lb = Inr spec" "az_Name spec \<noteq> []"
    and "lb_DeletionTimestamp lb = None" "sl_LoadBalancer L (lb_Namespace lb) (lb_Name lb) = Found x"
    and "azure_OnUpdate env L a s = (Inr (), s1)"
    and "\<And>name. sl_ConfigMap L' (lb_Namespace lb) name = sl_ConfigMap L (lb_Namespace lb) name"
  shows "\<exists>s2. azure_OnUpdate env' L' a s1 = (Inr (), s2)
    \<and> zp_world (fst s2) = zp_world (fst s1) \<and> zp_patches (fst s2) = zp_patches (fst s1)"
proof -
  let ?t = "setCacheReserveStatus (az_ReserveAzure spec) (setCacheAzureLoadbalancer spec s)"
  have obj: "hp_obj (snd ?t) a = Some lb" using set_cache_own assms(2,3) by blast
  have run: "sync_if_changed env L a lb (azure_isLBChanged (azure_cached_lb s) lb) ?t = (Inr (), s1)"
    using assms(7) OnUpdate_live [OF assms(2,3,5), of env L] by (simp add: apply_change_run [OF assms(3)])
  obtain tcp udp ch where cms: "getProxyConfigMapAndCompare env L (zp_tcp (fst s)) (zp_udp (fst s)) lb = Inr (tcp, udp, ch)"
    using run by (auto simp: sync_if_changed_def split: sum.splits)
  have same: "getProxyConfigMapAndCompare env' L' tcp' udp' lb = Inr (tcp, udp, \<not> gm_deep_equal tcp' tcp \<or> \<not> gm_deep_equal udp' udp)"
    for tcp' udp'
    using cms assms(8)
    by (auto simp: getProxyConfigMapAndCompare_def get_config_map_def split: sum.splits)
  have "\<exists>lb' old. hp_obj (snd s1) a = Some lb' \<and> status_only lb lb' \<and> azure_cached_lb s1 = Some old
    \<and> \<not> azure_isLBChanged (Some old) lb' \<and> gm_deep_equal (zp_tcp (fst s1)) tcp \<and> gm_deep_equal (zp_udp (fst s1)) udp"
  proof (cases "azure_isLBChanged (azure_cached_lb s) lb \<or> ch")
    case True
    have "heap_wf (snd ?t)" using assms(1)
      by (auto simp: setCacheReserveStatus_def setCacheAzureLoadbalancer_def update_old_def heap_wf_def heap_map_obj
          heap_map_def split: option.split azure_ref.split)
    moreover have "sync_and_report env L a tcp udp ?t = (Inr (), s1)"
      using run cms True assms(6) by (auto simp: sync_if_changed_def)
    ultimately show ?thesis using sync_settled [OF _ obj assms(3,4)] status_only_simps(2) by fastforce
  next
    case False
    then have s1: "s1 = ?t" using run cms by (simp add: sync_if_changed_def)
    obtain old where old: "azure_cached_lb s = Some old" "ps_Azure (lb_Providers old) = ps_Azure (lb_Providers lb)"
        "\<not> azure_isLBChanged (Some old) lb"
      using False by (cases "azure_cached_lb s") (auto simp: azure_isLBChanged_def)
    then obtain p where p: "zp_lb (fst s) = Some p" "hp_obj (snd s) p = Some old"
      by (auto simp: azure_cached_lb_def bind_eq_Some_conv)
    have "azure_spec old = Inr spec" using old(2) assms(3) by (simp add: azure_spec_def)
    from set_cache_own(2) [OF set_cache_own(1) [OF p(2) this] this] have "azure_cached_lb s1 = Some old"
      using p(1) by (simp add: s1 azure_cached_lb_def)
    moreover have "gm_deep_equal (zp_tcp (fst s)) tcp" "gm_deep_equal (zp_udp (fst s)) udp"
      using cms False by (auto simp: getProxyConfigMapAndCompare_def split: sum.splits)
    moreover have "status_only lb lb" by (auto simp: status_only_def intro: exI [of _ "lb_AzureStatus lb"])
    ultimately show ?thesis using obj old(3) s1 by auto
  qed
  then obtain lb' where lb': "hp_obj (snd s1) a = Some lb'" "status_only lb lb'" "\<not> azure_isLBChanged (azure_cached_lb s1) lb'"
      "gm_deep_equal (zp_tcp (fst s1)) tcp" "gm_deep_equal (zp_udp (fst s1)) udp" by metis
  have "azure_spec lb' = Inr spec" "getProxyConfigMapAndCompare env' L' (zp_tcp (fst s1)) (zp_udp (fst s1)) lb' = Inr (tcp, udp, False)"
    using status_only_simps(1) [OF lb'(2)] status_only_simps(3) [OF lb'(2), of env' L'] assms(3) same lb'(4,5)
    by simp_all
  from OnUpdate_unchanged [OF lb'(1) this(1) lb'(3) this(2)] show ?thesis by simp
qed

lemma azure_settles_witness:
  "\<exists>s1 s2. azure_OnUpdate azure_test_env (azure_lister (Some [(port_string 8080, ''ns/svc'')])) 0 (azure_start 0 static_lb)
       = (Inr (), s1)
     \<and> azure_OnUpdate azure_test_env (azure_lister (Some [(port_string 8080, ''ns/svc'')])) 0 s1 = (Inr (), s2)
     \<and> zp_world (fst s2) = zp_world (fst s1) \<and> zp_patches (fst s2) = zp_patches (fst s1)"
proof -
  let ?L = "azure_lister (Some [(port_string 8080, ''ns/svc'')])"
  obtain s1 where run: "azure_OnUpdate azure_test_env ?L 0 (azure_start 0 static_lb) = (Inr (), s1)"
    using update_run by blast
  have found: "sl_LoadBalancer ?L (lb_Namespace static_lb) (lb_Name static_lb) = Found 0" by (simp add: azure_lister_def)
  have wf: "heap_wf (snd (azure_start 0 static_lb))" by (simp add: azure_start_def heap_wf_alloc)
  have name: "az_Name (example_spec AzureStaticIPAllocationMethod (Some ''10.0.0.4'')) \<noteq> []"
    by (simp add: example_spec_def)
  from azure_settles [OF wf azure_start_obj static_lb_simps(1) name static_lb_simps(4) found run refl] run
  show ?thesis by blast
qed

text \<open>
  C39: a resource without an Azure block (it has another provider) must not be synced twice. Whatever the
  first update did, the next one finds no change, goes on to read the block that is not there and
  ends the process.
\<close>

theorem missing_block_panics:
  assumes "hp_obj (snd s) a = Some lb" "ps_Azure (lb_Providers lb) = None"
    and "azure_OnUpdate env L a s = (r, s')"
  shows "azure_OnUpdate env' L' a s' = (Inl (Panic (NilDereference ''lb.Spec.Providers.Azure'')), s')"
proof -
  have panic: "azure_OnUpdate env1 L1 a t = (Inl (Panic (NilDereference ''lb.Spec.Providers.Azure'')), t)"
    if "hp_obj (snd t) a = Some lb" "\<not> azure_isLBChanged (azure_cached_lb t) lb"
    for t :: "'a zstate" and env1 :: "('a, 'c) azure_env" and L1
    using that assms(2) by (simp add: OnUpdate_run apply_change_def azure_spec_def Let_def)
  show ?thesis
  proof (cases "azure_isLBChanged (azure_cached_lb s) lb")
    case True
    then have "cleanupAzureLB env L None False (remember_lb a s) = (r, s')"
      using assms by (simp add: OnUpdate_run Let_def)
    from cleaned_unchanged(1,2) [OF assms(1) this] show ?thesis by (rule panic)
  next
    case False
    then have "s' = s" using assms by (simp add: OnUpdate_run apply_change_def azure_spec_def Let_def)
    with panic [OF assms(1) False] show ?thesis by simp
  qed
qed

lemma missing_block_panics_witness:
  "\<exists>s'. azure_OnUpdate azure_test_env (azure_lister None) 0 (azure_start 0 (azure_example_lb None)) = (Inr (), s')
     \<and> azure_OnUpdate azure_test_env (azure_lister None) 0 s' = (Inl (Panic (NilDereference ''lb.Spec.Providers.Azure'')), s')"
proof -
  let ?lb = "azure_example_lb None"
  have "ps_Azure (lb_Providers ?lb) = None" by (simp add: azure_example_lb_def)
  moreover have "\<exists>s'. cleanupAzureLB azure_test_env (azure_lister None) None False (remember_lb 0 (azure_start 0 ?lb)) = (Inr (), s')"
    by (simp add: cleanupAzureLB_def remember_lb_def old_azure_def finish_cleanup_def seqE_def modifyE_def
        patachFinalizersAndStatus_def getFinalizersPatch_def send_patch_def Let_def)
  ultimately obtain s' where run: "azure_OnUpdate azure_test_env (azure_lister None) 0 (azure_start 0 ?lb) = (Inr (), s')"
    by (auto simp: OnUpdate_run [OF azure_start_obj] azure_isLBChanged_def)
  from missing_block_panics [OF azure_start_obj \<open>ps_Azure (lb_Providers ?lb) = None\<close> run] run show ?thesis by blast
qed

text \<open>
  C40: a failed cleanup of a deleted resource is not repeated. The resource is cached before the cleanup, so
  the retry finds no change: it returns nil without a call to Azure and without removing the
  finalizer, as long as the config maps stay the same.
\<close>

theorem failed_cleanup_not_retried:
  assumes "hp_obj (snd s) a = Some lb" "azure_spec lb = Inr spec" "lb_DeletionTimestamp lb \<noteq> None"
    and "azure_isLBChanged (azure_cached_lb s) lb" "azure_OnUpdate env L a s = (Inl e, s1)"
    and "getProxyConfigMapAndCompare env' L' (zp_tcp (fst s)) (zp_udp (fst s)) lb = Inr (tcp, udp, False)"
  shows "\<exists>s2. azure_OnUpdate env' L' a s1 = (Inr (), s2)
    \<and> zp_world (fst s2) = zp_world (fst s1) \<and> zp_patches (fst s2) = zp_patches (fst s1)"
proof -
  have "ps_Azure (lb_Providers lb) \<noteq> None" using assms(2) by (auto simp: azure_spec_def split: option.splits)
  then have "cleanupAzureLB env L (Some lb) True (remember_lb a s) = (Inl e, s1)"
    using assms(1,3-5) by (auto simp: OnUpdate_run Let_def)
  note u = cleaned_unchanged [OF assms(1) this]
  from OnUpdate_unchanged [OF u(1) assms(2) u(2), of env' L' tcp udp] assms(6) u(3,4) show ?thesis by simp
qed

definition deleted_lb :: load_balancer where
  "deleted_lb = static_lb\<lparr>lb_DeletionTimestamp := Some 1, lb_Finalizers := Some [azureFinalizer]\<rparr>"

lemma failed_cleanup_not_retried_witness:
  "\<exists>s s1 s2. hp_obj (snd s) 0 = Some deleted_lb \<and> azure_OnUpdate azure_test_env empty_lister 0 s = (Inl KubeNotFound, s1)
     \<and> azure_OnUpdate azure_test_env (azure_lister None) 0 s1 = (Inr (), s2)
     \<and> zp_world (fst s2) = zp_world (fst s1) \<and> zp_patches (fst s2) = zp_patches (fst s1)"
proof -
  let ?old = "example_spec AzureStaticIPAllocationMethod (Some ''10.0.0.4'')"
  let ?s = "((fst (azure_start 0 deleted_lb))\<lparr>zp_old := Some (OwnAzure ?old)\<rparr>, snd (azure_start 0 deleted_lb))"
  have spec: "azure_spec deleted_lb = Inr ?old" "lb_DeletionTimestamp deleted_lb \<noteq> None"
    "ps_Azure (lb_Providers deleted_lb) \<noteq> None"
    by (simp_all add: deleted_lb_def static_lb_def azure_example_lb_def azure_spec_def)
  have obj: "hp_obj (snd ?s) 0 = Some deleted_lb" by simp
  have changed: "azure_isLBChanged (azure_cached_lb ?s) deleted_lb"
    by (simp add: azure_isLBChanged_def azure_cached_lb_def azure_start_def azure_new_def NewAzureProvider_def)
  have "NewClient reference_sdk empty_lister = Inl KubeNotFound"
    by (simp add: NewClient_def getAPISecret_def empty_lister_def)
  then obtain s1 where "cleanupAzureLB azure_test_env empty_lister (Some deleted_lb) True (remember_lb 0 ?s) = (Inl KubeNotFound, s1)"
    by (simp add: cleanupAzureLB_def remember_lb_def old_azure_def)
  then have run: "azure_OnUpdate azure_test_env empty_lister 0 ?s = (Inl KubeNotFound, s1)"
    using changed spec by (auto simp: OnUpdate_run [OF obj] Let_def)
  have cms: "getProxyConfigMapAndCompare azure_test_env (azure_lister None) (zp_tcp (fst ?s)) (zp_udp (fst ?s)) deleted_lb
      = Inr (None, None, False)"
    by (simp add: getProxyConfigMapAndCompare_def get_config_map_def azure_lister_def)
  from failed_cleanup_not_retried [OF obj spec(1,2) changed run cms] run obj show ?thesis by blast
qed


definition azure_ctl :: "azure_cloud azure_prov ctl" where
  "azure_ctl = NewLoadBalancerProvider \<lparr> cfg_LoadBalancerName = ''lb'', cfg_LoadBalancerNamespace = ''ns'',
     cfg_TCPConfigMap = [], cfg_UDPConfigMap = [] \<rparr> (azure_lister (Some [])) (snd (azure_start 0 static_lb)) azure_new"

lemma static_valid: "validateLoadBalancer static_lb = None"
proof -
  have "ipv4_string [10, 0, 0, 4 :: byte] = ''10.0.0.4''"
    by (simp add: ipv4_string_def nat_str.simps digit_char_def char_of_eq_iff)
  then have "parseIP ''10.0.0.4'' \<noteq> None" using parseIP_ipv4_string [of 10 0 0 4] by simp
  then show ?thesis
    by (simp add: static_lb_def validateLoadBalancer_def validateProviders_def first_error_def azure_example_lb_def
        validate_azure_def example_spec_def validate_azure_private_def validateProxy_def proxy_types_def
        AzureBasicSKU_def AzureStandardSKU_def AzureStaticIPAllocationMethod_def Let_def)
qed

lemma azure_ctl_simps:
  "ct_back azure_ctl = azure_new" "ct_heap azure_ctl = snd (azure_start 0 static_lb)"
  "ct_lister azure_ctl = azure_lister (Some [])" "\<not> filterLoadBalancer (ct_cfg azure_ctl) static_lb"
  "ct_queue azure_ctl = newRateLimitingQueue"
  by (simp_all add: azure_ctl_def NewLoadBalancerProvider_def filterLoadBalancer_def)


end
