(* ===== verification/AzureListing.thy ===== *)
theory AzureListing
  imports AzureClient
begin

text \<open>
  The rest of \<open>providers/azure/client/types.go\<close>: the operations of the client interface that the
  provider does not call yet. \<open>ListAll\<close> follows the pages of a list until a page is empty. Nothing
  bounds the number of pages, so a listing is a partial function: \<open>None\<close> means that it never
  returns.
\<close>

section \<open>The SDK\<close>

text \<open>A page of a listing, with the link to the next one.\<close>

record 'a az_page =
  pg_Value :: "'a slice"
  pg_NextLink :: "string option"

definition empty_page :: "'a az_page" where
  "empty_page = \<lparr> pg_Value = None, pg_NextLink = None \<rparr>"

definition NotDone :: "'a az_page \<Rightarrow> bool" where
  "NotDone page \<longleftrightarrow> elems (pg_Value page) \<noteq> []"

text \<open>\<open>page.Next\<close>: without a link there is nothing to ask for, and the next page is empty.\<close>

definition page_Next ::
  "(string \<Rightarrow> ('w, go_error, 'a az_page) prog) \<Rightarrow> 'a az_page \<Rightarrow> ('w, go_error, 'a az_page) prog" where
  "page_Next fetch page =
     (if to_String (pg_NextLink page) = [] then retE empty_page else fetch (to_String (pg_NextLink page)))"

record ('w, 'f) azure_full_sdk = "('w, 'f) azure_sdk" +
  sd_lb_ListAll :: "azure_config \<Rightarrow> ('w, go_error, az_lb az_page) prog"
  sd_lb_fetch :: "azure_config \<Rightarrow> string \<Rightarrow> ('w, go_error, az_lb az_page) prog"
  sd_vm_ListAll :: "azure_config \<Rightarrow> ('w, go_error, az_vm az_page) prog"
  sd_vm_fetch :: "azure_config \<Rightarrow> string \<Rightarrow> ('w, go_error, az_vm az_page) prog"
  sd_vm_CreateOrUpdate :: "azure_config \<Rightarrow> string \<Rightarrow> string \<Rightarrow> az_vm \<Rightarrow> ('w, go_error, 'f) prog"
  sd_vm_Result :: "azure_config \<Rightarrow> 'f \<Rightarrow> ('w, go_error, az_vm) prog"
  sd_vm_Delete :: "azure_config \<Rightarrow> string \<Rightarrow> string \<Rightarrow> ('w, go_error, 'f) prog"
  sd_nic_ListAll :: "azure_config \<Rightarrow> ('w, go_error, az_nic az_page) prog"
  sd_nic_fetch :: "azure_config \<Rightarrow> string \<Rightarrow> ('w, go_error, az_nic az_page) prog"
  sd_nic_Delete :: "azure_config \<Rightarrow> string \<Rightarrow> string \<Rightarrow> ('w, go_error, 'f) prog"

section \<open>Listings\<close>

type_synonym ('w, 'a) listing = "'w \<Rightarrow> ((go_error + 'a slice) \<times> 'w) option"

text \<open>The loop of the three \<open>ListAll\<close>, with the result so far.\<close>

partial_function (option) collect_pages ::
  "(string \<Rightarrow> ('w, go_error, 'a az_page) prog) \<Rightarrow> 'a slice \<Rightarrow> 'a az_page \<Rightarrow> ('w, 'a) listing" where
  "collect_pages fetch re page w =
     (if \<not> NotDone page then Some (Inr re, w)
      else case page_Next fetch page w of
          (Inl e, w') \<Rightarrow> Some (Inl e, w')
        | (Inr page', w') \<Rightarrow> collect_pages fetch (Some (elems re @ elems (pg_Value page))) page' w')"

definition list_all_pages ::
  "('w, go_error, 'a az_page) prog \<Rightarrow> (string \<Rightarrow> ('w, go_error, 'a az_page) prog) \<Rightarrow> 'a slice
   \<Rightarrow> ('w, 'a) listing" where
  "list_all_pages first fetch re w =
     (case first w of
        (Inl e, w') \<Rightarrow> Some (Inl e, w')
      | (Inr page, w') \<Rightarrow> collect_pages fetch re page w')"

definition loadBalancer_ListAll :: "('w, 'f) azure_full_sdk \<Rightarrow> azure_config \<Rightarrow> ('w, az_lb) listing" where
  "loadBalancer_ListAll sdk cfg = list_all_pages (sd_lb_ListAll sdk cfg) (sd_lb_fetch sdk cfg) None"

definition virtualMachine_ListAll :: "('w, 'f) azure_full_sdk \<Rightarrow> azure_config \<Rightarrow> ('w, az_vm) listing" where
  "virtualMachine_ListAll sdk cfg = list_all_pages (sd_vm_ListAll sdk cfg) (sd_vm_fetch sdk cfg) (Some [])"

definition networkInterface_ListAll :: "('w, 'f) azure_full_sdk \<Rightarrow> azure_config \<Rightarrow> ('w, az_nic) listing" where
  "networkInterface_ListAll sdk cfg = list_all_pages (sd_nic_ListAll sdk cfg) (sd_nic_fetch sdk cfg) (Some [])"

section \<open>Writers\<close>

definition virtualMachine_CreateOrUpdate ::
  "('w, 'f) azure_full_sdk \<Rightarrow> azure_config \<Rightarrow> string \<Rightarrow> string \<Rightarrow> az_vm \<Rightarrow> ('w, go_error, az_vm) prog" where
  "virtualMachine_CreateOrUpdate sdk cfg gname name vm =
     seqE (sd_vm_CreateOrUpdate sdk cfg gname name vm) (\<lambda>future.
     seqE (sd_WaitForCompletionRef (azure_sdk.truncate sdk) cfg future) (\<lambda>_. sd_vm_Result sdk cfg future))"

text \<open>The other two \<open>Delete\<close> wait until the resource is gone; one that is gone already is fine.\<close>

definition delete_and_wait ::
  "('w, go_error, 'f) prog \<Rightarrow> ('f \<Rightarrow> ('w, go_error, unit) prog) \<Rightarrow> ('w, go_error, unit) prog" where
  "delete_and_wait del wait w =
     (case del w of
        (Inr future, w') \<Rightarrow> wait future w'
      | (Inl e, w') \<Rightarrow>
          (case IsNotFound e of
             Inl p \<Rightarrow> (Inl p, w')
           | Inr gone \<Rightarrow> (if gone then Inr () else Inl e, w')))"

definition virtualMachine_Delete ::
  "('w, 'f) azure_full_sdk \<Rightarrow> azure_config \<Rightarrow> string \<Rightarrow> string \<Rightarrow> ('w, go_error, unit) prog" where
  "virtualMachine_Delete sdk cfg gname name =
     delete_and_wait (sd_vm_Delete sdk cfg gname name) (sd_WaitForCompletionRef (azure_sdk.truncate sdk) cfg)"

definition networkInterface_Delete ::
  "('w, 'f) azure_full_sdk \<Rightarrow> azure_config \<Rightarrow> string \<Rightarrow> string \<Rightarrow> ('w, go_error, unit) prog" where
  "networkInterface_Delete sdk cfg gname name =
     delete_and_wait (sd_nic_Delete sdk cfg gname name) (sd_WaitForCompletionRef (azure_sdk.truncate sdk) cfg)"

lemma delete_gone:
  "del w = (Inl (Detailed (Some 404) orig t), w') \<Longrightarrow> delete_and_wait del wait w = (Inr (), w')"
  by (simp add: delete_and_wait_def IsNotFound_def)

lemma delete_waits: "del w = (Inr f, w') \<Longrightarrow> delete_and_wait del wait w = wait f w'"
  by (simp add: delete_and_wait_def)

section \<open>Numbered pages\<close>

text \<open>A service that has the pages \<open>ps\<close>, each of them with a link to the next.\<close>

definition page_at :: "(nat \<Rightarrow> string) \<Rightarrow> 'a list list \<Rightarrow> nat \<Rightarrow> 'a az_page" where
  "page_at link ps i = \<lparr> pg_Value = Some (ps ! i),
     pg_NextLink = (if Suc i < length ps then Some (link (Suc i)) else None) \<rparr>"

definition collected :: "'a slice \<Rightarrow> 'a list list \<Rightarrow> 'a slice" where
  "collected re ps = (case takeWhile (\<lambda>p. p \<noteq> []) ps of [] \<Rightarrow> re | qs \<Rightarrow> Some (elems re @ concat qs))"

lemma collected_simps [simp]:
  "collected re [] = re" "collected re ([] # ps) = re"
  "p \<noteq> [] \<Longrightarrow> collected re (p # ps) = collected (Some (elems re @ p)) ps"
  by (simp_all add: collected_def split: list.split)

lemma collect_numbered:
  assumes link: "\<And>i. link i \<noteq> []"
    and fetch: "\<And>i w. i < length ps \<Longrightarrow> fetch (link i) w = (Inr (page_at link ps i), w)"
  shows "i < length ps \<Longrightarrow> collect_pages fetch re (page_at link ps i) w = Some (Inr (collected re (drop i ps)), w)"
proof (induction "length ps - i" arbitrary: i re)
  case 0
  then show ?case by simp
next
  case (Suc n)
  have drop: "drop i ps = ps ! i # drop (Suc i) ps" using Suc.prems by (simp add: Cons_nth_drop_Suc)
  show ?case
  proof (cases "ps ! i = []")
    case True
    then show ?thesis by (simp add: collect_pages.simps NotDone_def page_at_def drop)
  next
    case notempty: False
    have notdone: "NotDone (page_at link ps i)" using notempty by (simp add: NotDone_def page_at_def)
    have val: "elems (pg_Value (page_at link ps i)) = ps ! i" by (simp add: page_at_def)
    show ?thesis
    proof (cases "Suc i < length ps")
      case True
      then have "page_Next fetch (page_at link ps i) w = (Inr (page_at link ps (Suc i)), w)"
        using fetch link by (simp add: page_Next_def page_at_def)
      then show ?thesis
        using Suc.hyps(1) [of "Suc i" "Some (elems re @ ps ! i)"] Suc.hyps(2) True notempty notdone val
        by (simp add: collect_pages.simps [of fetch re "page_at link ps i" w] drop)
    next
      case False
      then have "page_Next fetch (page_at link ps i) w = (Inr empty_page, w)"
        by (simp add: page_Next_def page_at_def)
      then show ?thesis using notempty notdone val False
        by (simp add: collect_pages.simps [of fetch re "page_at link ps i" w]
            collect_pages.simps [of fetch _ empty_page w] drop)
          (simp add: NotDone_def empty_page_def)
    qed
  qed
qed

text \<open>A page that is not empty and links to itself is followed for ever.\<close>

lemma collect_cycle:
  assumes "collect_pages fetch re page w = Some y"
  shows "\<not> (NotDone page \<and> (\<forall>w. page_Next fetch page w = (Inr page, w)))"
proof (rule collect_pages.raw_induct [OF _ assms])
  fix collect fetch page w y and re :: "'a slice"
  assume IH: "\<And>fetch re page w y. collect fetch re page w = Some y \<Longrightarrow>
      \<not> (NotDone page \<and> (\<forall>w. page_Next fetch page w = (Inr page, w)))"
    and step: "(if \<not> NotDone page then Some (Inr re, w)
      else case page_Next fetch page w of
          (Inl e, w') \<Rightarrow> Some (Inl e, w')
        | (Inr page', w') \<Rightarrow> collect fetch (Some (elems re @ elems (pg_Value page))) page' w') = Some y"
  show "\<not> (NotDone page \<and> (\<forall>w. page_Next fetch page w = (Inr page, w)))"
  proof
    assume cyc: "NotDone page \<and> (\<forall>w. page_Next fetch page w = (Inr page, w))"
    then have "collect fetch (Some (elems re @ elems (pg_Value page))) page w = Some y"
      using step by simp
    from IH [OF this] cyc show False by blast
  qed
qed

section \<open>Properties\<close>

text \<open>
  C30: a listing of load balancers ends, and has the items of all pages in their order, when the
  service answers with finitely many pages; but it ends at the first empty page, even if that page
  links to more. When a page links to itself, the listing never returns.
\<close>

theorem listing_follows_pages:
  assumes "\<And>i. link i \<noteq> []"
    and "\<And>i w. i < length ps \<Longrightarrow> sd_lb_fetch sdk cfg (link i) w = (Inr (page_at link ps i), w)"
    and "sd_lb_ListAll sdk cfg w = (Inr (page_at link ps 0), w)" "ps \<noteq> []"
    and "sd_lb_ListAll sdk2 cfg w = (Inr page, w)" "NotDone page" "to_String (pg_NextLink page) \<noteq> []"
    and "\<And>w. sd_lb_fetch sdk2 cfg (to_String (pg_NextLink page)) w = (Inr page, w)"
  shows "loadBalancer_ListAll sdk cfg w = Some (Inr (collected None ps), w)
    \<and> ([] \<notin> set ps \<longrightarrow> collected None ps = Some (concat ps))
    \<and> loadBalancer_ListAll sdk2 cfg w = None"
proof (intro conjI impI)
  show "loadBalancer_ListAll sdk cfg w = Some (Inr (collected None ps), w)"
    using collect_numbered [of link ps "sd_lb_fetch sdk cfg" 0 None w] assms(1-4)
    by (simp add: loadBalancer_ListAll_def list_all_pages_def)
  show "collected None ps = Some (concat ps)" if "[] \<notin> set ps"
  proof -
    have "takeWhile (\<lambda>p. p \<noteq> []) ps = ps" using that by (auto simp: takeWhile_eq_all_conv)
    then show ?thesis using assms(4) by (cases ps) (simp_all add: collected_def)
  qed
  have "page_Next (sd_lb_fetch sdk2 cfg) page w = (Inr page, w)" for w
    using assms(7,8) by (simp add: page_Next_def)
  then show "loadBalancer_ListAll sdk2 cfg w = None"
    using collect_cycle [of "sd_lb_fetch sdk2 cfg" None page w] assms(5,6)
    by (cases "collect_pages (sd_lb_fetch sdk2 cfg) None page w")
      (auto simp: loadBalancer_ListAll_def list_all_pages_def)
qed

text \<open>A service of two pages and one whose only page links to itself.\<close>

definition refusing_sdk :: "(unit, unit) azure_full_sdk" where
  "refusing_sdk =
     \<lparr> sd_Authorizer = (\<lambda>_. None),
       sd_lb_Get = (\<lambda>_ _ _. throwE KubeNotFound), sd_lb_CreateOrUpdate = (\<lambda>_ _ _ _. throwE KubeNotFound),
       sd_lb_Delete = (\<lambda>_ _ _. throwE KubeNotFound), sd_lb_Result = (\<lambda>_ _. throwE KubeNotFound),
       sd_vm_Get = (\<lambda>_ _ _. throwE KubeNotFound), sd_nic_Get = (\<lambda>_ _ _. throwE KubeNotFound),
       sd_nic_CreateOrUpdate = (\<lambda>_ _ _ _. throwE KubeNotFound), sd_nic_Result = (\<lambda>_ _. throwE KubeNotFound),
       sd_sg_Get = (\<lambda>_ _ _. throwE KubeNotFound), sd_sg_CreateOrUpdate = (\<lambda>_ _ _ _. throwE KubeNotFound),
       sd_sg_Result = (\<lambda>_ _. throwE KubeNotFound), sd_ip_Get = (\<lambda>_ _ _. throwE KubeNotFound),
       sd_WaitForCompletionRef = (\<lambda>_ _. retE ()),
       sd_lb_ListAll = (\<lambda>_. throwE KubeNotFound), sd_lb_fetch = (\<lambda>_ _. throwE KubeNotFound),
       sd_vm_ListAll = (\<lambda>_. throwE KubeNotFound), sd_vm_fetch = (\<lambda>_ _. throwE KubeNotFound),
       sd_vm_CreateOrUpdate = (\<lambda>_ _ _ _. throwE KubeNotFound), sd_vm_Result = (\<lambda>_ _. throwE KubeNotFound),
       sd_vm_Delete = (\<lambda>_ _ _. throwE KubeNotFound),
       sd_nic_ListAll = (\<lambda>_. throwE KubeNotFound), sd_nic_fetch = (\<lambda>_ _. throwE KubeNotFound),
       sd_nic_Delete = (\<lambda>_ _ _. throwE KubeNotFound) \<rparr>"

definition empty_azlb :: az_lb where
  "empty_azlb = \<lparr> al_Name = None, al_Location = None, al_Sku = None, al_FrontendIPConfigurations = None,
     al_BackendAddressPools = None, al_LoadBalancingRules = None, al_Probes = None, al_ProvisioningState = None \<rparr>"

definition example_pages :: "az_lb list list" where
  "example_pages = [[empty_azlb], [empty_azlb, empty_azlb]]"

definition example_link :: "nat \<Rightarrow> string" where
  "example_link i = replicate (Suc i) (CHR ''p'')"

definition paged_sdk :: "(unit, unit) azure_full_sdk" where
  "paged_sdk = refusing_sdk\<lparr>sd_lb_ListAll := (\<lambda>_. retE (page_at example_link example_pages 0)),
     sd_lb_fetch := (\<lambda>_ l. retE (page_at example_link example_pages (length l - 1)))\<rparr>"

definition self_page :: "az_lb az_page" where
  "self_page = \<lparr> pg_Value = Some [empty_azlb], pg_NextLink = Some ''p'' \<rparr>"

definition cyclic_sdk :: "(unit, unit) azure_full_sdk" where
  "cyclic_sdk = refusing_sdk\<lparr>sd_lb_ListAll := (\<lambda>_. retE self_page), sd_lb_fetch := (\<lambda>_ _. retE self_page)\<rparr>"

lemma listing_follows_pages_witness:
  "loadBalancer_ListAll paged_sdk (NewConfig []) () = Some (Inr (Some [empty_azlb, empty_azlb, empty_azlb]), ())
   \<and> loadBalancer_ListAll cyclic_sdk (NewConfig []) () = None"
proof -
  have "loadBalancer_ListAll paged_sdk (NewConfig []) () = Some (Inr (collected None example_pages), ())
    \<and> ([] \<notin> set example_pages \<longrightarrow> collected None example_pages = Some (concat example_pages))
    \<and> loadBalancer_ListAll cyclic_sdk (NewConfig []) () = None"
    by (rule listing_follows_pages [where link = example_link and page = self_page])
      (simp_all add: paged_sdk_def cyclic_sdk_def self_page_def NotDone_def example_link_def,
       simp add: example_pages_def)
  then show ?thesis by (simp add: example_pages_def)
qed

end
