(* ===== verification/Commands.thy ===== *)
theory Commands
  imports Ipvsdr IngressSidecar AzureProvider
begin

text \<open>
  \<open>cmd\<close>, \<open>core/options\<close>, \<open>core/util\<close>, \<open>core/pkg/node\<close> and \<open>pkg/version\<close>: the three programs around the
  providers. Each reads its options, asks the API server for the watched resource, builds its
  provider and the controller, and runs until it gets SIGTERM. The last part puts a whole process
  together: the main goroutine, the worker, the daemon in the background and the signal handler.
\<close>

section \<open>Versions\<close>

record version_info =
  vn_Version :: string
  vn_GitRemote :: string
  vn_GitCommit :: string
  vn_GitTreeState :: string
  vn_BuildDate :: string
  vn_GoVersion :: string
  vn_Compiler :: string
  vn_Platform :: string

text \<open>The variables a build without linker flags leaves, and what package \<open>runtime\<close> says.\<close>

record go_runtime =
  gr_Version :: string
  gr_Compiler :: string
  gr_GOOS :: string
  gr_GOARCH :: string

definition base_version :: string where "base_version = ''v0.0.0-master+$Format:%h$''"
definition base_gitRemote :: string where "base_gitRemote = []"
definition base_gitCommit :: string where "base_gitCommit = ''$Format:%H$''"
definition base_gitTreeState :: string where "base_gitTreeState = []"
definition base_buildDate :: string where "base_buildDate = ''1970-01-01T00:00:00Z''"

definition version_Get :: "go_runtime \<Rightarrow> version_info" where
  "version_Get rt =
     \<lparr> vn_Version = base_version, vn_GitRemote = base_gitRemote, vn_GitCommit = base_gitCommit,
       vn_GitTreeState = base_gitTreeState, vn_BuildDate = base_buildDate,
       vn_GoVersion = gr_Version rt, vn_Compiler = gr_Compiler rt,
       vn_Platform = gr_GOOS rt @ ''/'' @ gr_GOARCH rt \<rparr>"

text \<open>\<open>core.Info\<close>, and the \<open>Info\<close> of the three providers.\<close>

record provider_info =
  in_Name :: string
  in_Version :: string
  in_GitCommit :: string
  in_GitRemote :: string

definition info_named :: "string \<Rightarrow> version_info \<Rightarrow> provider_info" where
  "info_named name info = \<lparr> in_Name = name, in_Version = vn_Version info,
     in_GitCommit = vn_GitCommit info, in_GitRemote = vn_GitRemote info \<rparr>"

definition ipvsdr_Info :: "go_runtime \<Rightarrow> provider_info" where
  "ipvsdr_Info rt = info_named ''ipvsdr'' (version_Get rt)"

definition sidecar_Info :: "go_runtime \<Rightarrow> provider_info" where
  "sidecar_Info rt = info_named ''ingress-sidecar'' (version_Get rt)"

definition azure_Info :: "go_runtime \<Rightarrow> provider_info" where
  "azure_Info rt = info_named ''azure'' (version_Get rt)"

section \<open>Options\<close>

record options =
  op_Debug :: bool
  op_Kubeconfig :: string
  op_LoadBalancerNamespace :: string
  op_LoadBalancerName :: string
  op_PodNamespace :: string
  op_PodName :: string
  op_NodeIPLabel :: string
  op_NodeIPAnnotation :: string

text \<open>The ipvs-dr command embeds the common options and adds one.\<close>

record ipvsdr_options = options +
  oi_Unicast :: bool

text \<open>
  A flag of the command line library: its name, its environment variable (none is the empty
  string) and its destination, a write into the options.
\<close>

datatype 'o flag =
    StringFlag string string "string \<Rightarrow> 'o \<Rightarrow> 'o"
  | BoolFlag string "bool \<Rightarrow> 'o \<Rightarrow> 'o"
  | BoolTFlag string "bool \<Rightarrow> 'o \<Rightarrow> 'o"

definition AddFlags :: "'z options_scheme flag list \<Rightarrow> 'z options_scheme flag list" where
  "AddFlags flags = flags @
     [StringFlag ''kubeconfig'' [] (\<lambda>v. op_Kubeconfig_update (\<lambda>_. v)),
      BoolFlag ''debug'' (\<lambda>v. op_Debug_update (\<lambda>_. v)),
      StringFlag ''loadbalancer-namespace'' ''LOADBALANCER_NAMESPACE'' (\<lambda>v. op_LoadBalancerNamespace_update (\<lambda>_. v)),
      StringFlag ''loadbalancer-name'' ''LOADBALANCER_NAME'' (\<lambda>v. op_LoadBalancerName_update (\<lambda>_. v)),
      StringFlag ''pod-namespace'' ''POD_NAMESPACE'' (\<lambda>v. op_PodNamespace_update (\<lambda>_. v)),
      StringFlag ''pod-name'' ''POD_NAME'' (\<lambda>v. op_PodName_update (\<lambda>_. v)),
      StringFlag ''nodeip-label'' ''NODEIP_LABEL'' (\<lambda>v. op_NodeIPLabel_update (\<lambda>_. v)),
      StringFlag ''nodeip-annotation'' ''NODEIP_ANNOTATION'' (\<lambda>v. op_NodeIPAnnotation_update (\<lambda>_. v))]"

definition ipvsdr_AddFlags :: "ipvsdr_options flag list \<Rightarrow> ipvsdr_options flag list" where
  "ipvsdr_AddFlags flags = AddFlags flags @ [BoolTFlag ''unicast'' (\<lambda>v. oi_Unicast_update (\<lambda>_. v))]"

definition NewOptions :: options where
  "NewOptions = \<lparr> op_Debug = False, op_Kubeconfig = [], op_LoadBalancerNamespace = [], op_LoadBalancerName = [],
     op_PodNamespace = [], op_PodName = [], op_NodeIPLabel = [], op_NodeIPAnnotation = [] \<rparr>"

definition ipvsdr_NewOptions :: ipvsdr_options where
  "ipvsdr_NewOptions = options.extend NewOptions \<lparr> oi_Unicast = False \<rparr>"

text \<open>
  What the library does with the flags: a value on the command line wins over the environment, the
  environment over the default. \<open>args\<close> and \<open>bools\<close> are the values on the command line.
\<close>

definition string_value :: "(string \<Rightarrow> string option) \<Rightarrow> (string \<Rightarrow> string option) \<Rightarrow> string \<Rightarrow> string \<Rightarrow> string" where
  "string_value getenv args name var =
     (case args name of
        Some v \<Rightarrow> v
      | None \<Rightarrow> if var = [] then [] else to_String (getenv var))"

fun apply_flag ::
  "(string \<Rightarrow> string option) \<Rightarrow> (string \<Rightarrow> string option) \<Rightarrow> (string \<Rightarrow> bool option) \<Rightarrow> 'o flag \<Rightarrow> 'o \<Rightarrow> 'o" where
  "apply_flag getenv args bools (StringFlag name var dest) opts = dest (string_value getenv args name var) opts"
| "apply_flag getenv args bools (BoolFlag name dest) opts = dest (bools name = Some True) opts"
| "apply_flag getenv args bools (BoolTFlag name dest) opts = dest (bools name \<noteq> Some False) opts"

definition parse_flags ::
  "(string \<Rightarrow> string option) \<Rightarrow> (string \<Rightarrow> string option) \<Rightarrow> (string \<Rightarrow> bool option)
   \<Rightarrow> 'o flag list \<Rightarrow> 'o \<Rightarrow> 'o" where
  "parse_flags getenv args bools flags opts = fold (apply_flag getenv args bools) flags opts"

text \<open>Every option is the value of its own flag.\<close>

lemma parsed_options:
  "parse_flags getenv args bools (AddFlags []) NewOptions =
     \<lparr> op_Debug = (bools ''debug'' = Some True), op_Kubeconfig = string_value getenv args ''kubeconfig'' [],
       op_LoadBalancerNamespace = string_value getenv args ''loadbalancer-namespace'' ''LOADBALANCER_NAMESPACE'',
       op_LoadBalancerName = string_value getenv args ''loadbalancer-name'' ''LOADBALANCER_NAME'',
       op_PodNamespace = string_value getenv args ''pod-namespace'' ''POD_NAMESPACE'',
       op_PodName = string_value getenv args ''pod-name'' ''POD_NAME'',
       op_NodeIPLabel = string_value getenv args ''nodeip-label'' ''NODEIP_LABEL'',
       op_NodeIPAnnotation = string_value getenv args ''nodeip-annotation'' ''NODEIP_ANNOTATION'' \<rparr>"
  by (simp add: parse_flags_def AddFlags_def NewOptions_def)

lemma parsed_unicast:
  "oi_Unicast (parse_flags getenv args bools (ipvsdr_AddFlags []) ipvsdr_NewOptions) = (bools ''unicast'' \<noteq> Some False)"
  by (simp add: parse_flags_def ipvsdr_AddFlags_def)

section \<open>The API client\<close>

text \<open>What is used of a client set: the watched resource, the node of a pod, and a node.\<close>

record clientset =
  cs_LoadBalancer :: "string \<Rightarrow> string \<Rightarrow> go_error + load_balancer"
  cs_PodNodeName :: "string \<Rightarrow> string \<Rightarrow> go_error + string"
  cs_Node :: "string \<Rightarrow> go_error + k8s_node"

text \<open>A \<open>restclient.Config\<close>; \<open>QPS\<close> is the integer that is made a \<open>float32\<close>.\<close>

record rest_config =
  rc_Host :: string
  rc_QPS :: int
  rc_Burst :: int

definition DefaultQPS :: int where "DefaultQPS = 50"
definition DefaultBurst :: int where "DefaultBurst = 100"

definition getQPSEnvInt :: "(string \<Rightarrow> string option) \<Rightarrow> string \<Rightarrow> int \<Rightarrow> int" where
  "getQPSEnvInt getenv key least =
     (let s = to_String (getenv key);
          v = (if s \<noteq> [] then fst (atoi s) else 0)
      in if v < least then least else v)"

definition setupConfigQPS :: "(string \<Rightarrow> string option) \<Rightarrow> rest_config \<Rightarrow> rest_config" where
  "setupConfigQPS getenv c =
     c\<lparr>rc_QPS := getQPSEnvInt getenv ''ENV_KUBE_CLIENT_QPS'' DefaultQPS,
       rc_Burst := getQPSEnvInt getenv ''ENV_KUBE_CLIENT_BURST'' DefaultBurst\<rparr>"

text \<open>The surroundings of a process: environment variables, the client library, the host.\<close>

record machine =
  mc_Getenv :: "string \<Rightarrow> string option"
  mc_BuildConfig :: "string \<Rightarrow> go_error + rest_config"
  mc_NewForConfig :: "rest_config \<Rightarrow> go_error + clientset"
  mc_modprobe :: "go_error option"
  mc_stat_ip_vs :: "go_error option"
  mc_ParseFiles :: "string \<Rightarrow> go_error option"      \<comment> \<open>of the package text/template\<close>
  mc_host :: host
  mc_lister :: store_lister
  mc_heap :: lb_heap

definition NewClientSet :: "machine \<Rightarrow> string \<Rightarrow> go_error + clientset" where
  "NewClientSet m kubeconfig =
     (case mc_BuildConfig m kubeconfig of
        Inl e \<Rightarrow> Inl e
      | Inr config \<Rightarrow>
         (case mc_NewForConfig m (setupConfigQPS (mc_Getenv m) config) of
            Inl e \<Rightarrow> Inl e
          | Inr c \<Rightarrow> Inr c))"

lemma qps_least: "least \<le> getQPSEnvInt getenv key least"
  by (simp add: getQPSEnvInt_def Let_def)

lemma qps_garbage: "snd (atoi (to_String (getenv key))) = Some ErrSyntax \<Longrightarrow> 0 \<le> least \<Longrightarrow> getQPSEnvInt getenv key least = least"
  by (auto simp: getQPSEnvInt_def atoi_def Let_def split: list.splits option.splits if_splits)

lemma qps_number:
  "getenv key = Some (itoa n) \<Longrightarrow> itoa n \<noteq> [] \<Longrightarrow> least \<le> n \<Longrightarrow> min_int64 \<le> n \<Longrightarrow> n \<le> max_int64 \<Longrightarrow>
     getQPSEnvInt getenv key least = n"
  by (simp add: getQPSEnvInt_def atoi_itoa)

section \<open>Nodes of pods\<close>

text \<open>\<open>nodeutil.GetNodeHostIP\<close>: labels, then annotations, then the addresses of the status.\<close>

fun first_ip :: "string list \<Rightarrow> gomap \<Rightarrow> ip option" where
  "first_ip [] source = None"
| "first_ip (key # keys) source =
     (if key = [] then first_ip keys source
      else case map_of source key of
          None \<Rightarrow> first_ip keys source
        | Some v \<Rightarrow> (case parseIP v of None \<Rightarrow> first_ip keys source | Some ip \<Rightarrow> Some ip))"

definition GetNodeHostIP :: "k8s_node \<Rightarrow> string list \<Rightarrow> string list \<Rightarrow> go_error + ip" where
  "GetNodeHostIP node labels annotations =
     (case first_ip labels (kn_Labels node) of
        Some ip \<Rightarrow> Inr ip
      | None \<Rightarrow>
         (case first_ip annotations (kn_Annotations node) of
            Some ip \<Rightarrow> Inr ip
          | None \<Rightarrow> getK8sNodeIP node))"

definition missing_pod :: "string \<Rightarrow> string \<Rightarrow> go_error option" where
  "missing_pod podNamespace podName =
     (if podName = [] \<or> podNamespace = []
      then Some (Errorf ''Please check the manifest (for missing POD_NAME or POD_NAMESPACE env variables)'')
      else None)"

definition GetNodeIPForPod ::
  "clientset \<Rightarrow> string \<Rightarrow> string \<Rightarrow> string list \<Rightarrow> string list \<Rightarrow> go_error + ip" where
  "GetNodeIPForPod c podNamespace podName labels annotations =
     (case missing_pod podNamespace podName of
        Some e \<Rightarrow> Inl e
      | None \<Rightarrow>
         (case cs_PodNodeName c podNamespace podName of
            Inl e \<Rightarrow> Inl (Errorf ''Unable to get pod'')
          | Inr nodeName \<Rightarrow>
             (case cs_Node c nodeName of
                Inl e \<Rightarrow> Inl (Errorf ''Unable to get node'')
              | Inr node \<Rightarrow> GetNodeHostIP node labels annotations)))"

definition GetNodeNameForPod :: "clientset \<Rightarrow> string \<Rightarrow> string \<Rightarrow> go_error + string" where
  "GetNodeNameForPod c podNamespace podName =
     (case missing_pod podNamespace podName of
        Some e \<Rightarrow> Inl e
      | None \<Rightarrow> cs_PodNodeName c podNamespace podName)"

section \<open>The commands\<close>

text \<open>How \<open>Run\<close> ends before there is a controller: \<open>log.Fatal\<close> ends the process there and then.\<close>

datatype run_end = Fatal string | Failed go_error

text \<open>The exit code of the process, which \<open>main\<close> makes 1 for an error.\<close>

fun exit_code :: "run_end \<Rightarrow> int" where
  "exit_code (Fatal t) = 255"
| "exit_code (Failed e) = 1"

definition watched_resource :: "machine \<Rightarrow> 'z options_scheme \<Rightarrow> run_end + clientset \<times> load_balancer" where
  "watched_resource m opts =
     (case NewClientSet m (op_Kubeconfig opts) of
        Inl e \<Rightarrow> Inl (Fatal ''Create clientset error'')
      | Inr c \<Rightarrow>
         (case cs_LoadBalancer c (op_LoadBalancerNamespace opts) (op_LoadBalancerName opts) of
            Inl e \<Rightarrow> Inl (Fatal ''Can not find loadbalancer resource'')
          | Inr lb \<Rightarrow> Inr (c, lb)))"

definition configuration :: "'z options_scheme \<Rightarrow> load_balancer \<Rightarrow> lb_config" where
  "configuration opts lb =
     \<lparr> cfg_LoadBalancerName = op_LoadBalancerName opts,
       cfg_LoadBalancerNamespace = op_LoadBalancerNamespace opts,
       cfg_TCPConfigMap = lb_TCPConfigMap lb, cfg_UDPConfigMap = lb_UDPConfigMap lb \<rparr>"

text \<open>\<open>loadIPVSModule\<close>, and \<open>NewIpvsdrProvider\<close> with the parsing of keepalived's template.\<close>

definition loadIPVSModule :: "machine \<Rightarrow> go_error option" where
  "loadIPVSModule m = (case mc_modprobe m of Some e \<Rightarrow> Some e | None \<Rightarrow> mc_stat_ip_vs m)"

definition keepalivedTmpl :: string where "keepalivedTmpl = ''/root/keepalived.tmpl''"

definition loadTemplate :: "machine \<Rightarrow> go_error option" where
  "loadTemplate m = mc_ParseFiles m keepalivedTmpl"

definition create_ipvsdr :: "machine \<Rightarrow> string \<Rightarrow> 'w \<Rightarrow> go_error + 'w ipvsdr" where
  "create_ipvsdr m nodeName w =
     (case loadTemplate m of Some e \<Rightarrow> Inl e | None \<Rightarrow> Inr (NewIpvsdrProvider nodeName w (mc_host m)))"

definition ipvsdr_Run :: "machine \<Rightarrow> 'w \<Rightarrow> 'z options_scheme \<Rightarrow> run_end + 'w ipvsdr ctl" where
  "ipvsdr_Run m w opts =
     (case watched_resource m opts of
        Inl e \<Rightarrow> Inl e
      | Inr (c, lb) \<Rightarrow>
          if ps_Ipvsdr (lb_Providers lb) = None then Inl (Failed (Errorf ''no ipvsdr spec specified''))
          else case loadIPVSModule m of
              Some e \<Rightarrow> Inl (Failed e)
            | None \<Rightarrow>
               (case GetNodeNameForPod c (op_PodNamespace opts) (op_PodName opts) of
                  Inl e \<Rightarrow> Inl (Fatal ''Can not get node name'')
                | Inr nodeName \<Rightarrow>
                   (case create_ipvsdr m nodeName w of
                      Inl e \<Rightarrow> Inl (Failed e)
                    | Inr p \<Rightarrow> Inr (NewLoadBalancerProvider (configuration opts lb) (mc_lister m) (mc_heap m) p))))"

definition sidecar_Run :: "machine \<Rightarrow> 'z options_scheme \<Rightarrow> run_end + sidecar ctl" where
  "sidecar_Run m opts =
     (case watched_resource m opts of
        Inl e \<Rightarrow> Inl e
      | Inr (c, lb) \<Rightarrow> Inr (NewLoadBalancerProvider (configuration opts lb) (mc_lister m) (mc_heap m)
          (NewIngressSidecar (mc_host m))))"

definition azure_Run :: "machine \<Rightarrow> 'w \<Rightarrow> 'z options_scheme \<Rightarrow> run_end + 'w azure_prov ctl" where
  "azure_Run m w opts =
     (case watched_resource m opts of
        Inl e \<Rightarrow> Inl e
      | Inr (c, lb) \<Rightarrow> Inr (NewLoadBalancerProvider (configuration opts lb) (mc_lister m) (mc_heap m)
          (NewAzureProvider (op_LoadBalancerName opts) (op_LoadBalancerNamespace opts) w)))"

text \<open>What a controller that runs was made of.\<close>

lemma ipvsdr_RunD:
  assumes "ipvsdr_Run m w opts = Inr s"
  obtains c lb nodeName where "NewClientSet m (op_Kubeconfig opts) = Inr c"
    "cs_LoadBalancer c (op_LoadBalancerNamespace opts) (op_LoadBalancerName opts) = Inr lb"
    "ps_Ipvsdr (lb_Providers lb) \<noteq> None" "op_PodName opts \<noteq> []" "op_PodNamespace opts \<noteq> []"
    "cs_PodNodeName c (op_PodNamespace opts) (op_PodName opts) = Inr nodeName"
    "s = NewLoadBalancerProvider (configuration opts lb) (mc_lister m) (mc_heap m)
       (NewIpvsdrProvider nodeName w (mc_host m))"
  using assms
  by (auto simp: ipvsdr_Run_def watched_resource_def loadIPVSModule_def GetNodeNameForPod_def missing_pod_def
      create_ipvsdr_def split: sum.splits option.splits if_splits)

lemma Run_watches:
  "ipvsdr_Run m w opts = Inr s1 \<Longrightarrow> same_lb (ct_cfg s1) (configuration opts lb)"
  "sidecar_Run m opts = Inr s2 \<Longrightarrow> same_lb (ct_cfg s2) (configuration opts lb)"
  "azure_Run m w opts = Inr s3 \<Longrightarrow> same_lb (ct_cfg s3) (configuration opts lb)"
  by (auto simp: ipvsdr_Run_def sidecar_Run_def azure_Run_def NewLoadBalancerProvider_def same_lb_def
      configuration_def split: sum.splits option.splits if_splits)

section \<open>main\<close>

text \<open>
  An \<open>cli.App\<close>, by what the programs set in it. The library parses the command line with the flags and
  their environment variables and calls the action; it prints its help for a command line it does not
  understand and returns an error, which the programs drop, so the process ends with 0 then. An error of
  the action is an \<open>ExitError\<close>, with which the library exits.
\<close>

record 'o cli_app =
  ap_Name :: string
  ap_Version :: string
  ap_Flags :: "'o flag list"

fun flag_name :: "'o flag \<Rightarrow> string" where
  "flag_name (StringFlag name var dest) = name"
| "flag_name (BoolFlag name dest) = name"
| "flag_name (BoolTFlag name dest) = name"

text \<open>What is on the command line: something wrong, \<open>--help\<close> or \<open>--version\<close>, or values of flags.\<close>

datatype command_line =
    WrongUsage string
  | AskedHelp
  | AskedVersion
  | Given "string \<Rightarrow> string option" "string \<Rightarrow> bool option"

text \<open>The process exits before there is a controller, or the controller starts.\<close>

datatype 's outcome = Exits int | Serves 's

definition app_Run ::
  "(string \<Rightarrow> string option) \<Rightarrow> command_line \<Rightarrow> 'o cli_app \<Rightarrow> 'o \<Rightarrow> ('o \<Rightarrow> run_end + 's) \<Rightarrow> 's outcome" where
  "app_Run getenv line app opts action =
     (case line of
        Given args bools \<Rightarrow>
          (case action (parse_flags getenv args bools (ap_Flags app) opts) of
             Inl e \<Rightarrow> Exits (exit_code e)
           | Inr s \<Rightarrow> Serves s)
      | _ \<Rightarrow> Exits 0)"

definition ipvsdr_main :: "machine \<Rightarrow> 'w \<Rightarrow> go_runtime \<Rightarrow> command_line \<Rightarrow> 'w ipvsdr ctl outcome" where
  "ipvsdr_main m w rt line =
     app_Run (mc_Getenv m) line
       \<lparr> ap_Name = ''provider-ipvsdr'', ap_Version = vn_Version (version_Get rt),
         ap_Flags = sort_key flag_name (ipvsdr_AddFlags []) \<rparr>
       ipvsdr_NewOptions (ipvsdr_Run m w)"

definition ingress_main :: "machine \<Rightarrow> go_runtime \<Rightarrow> command_line \<Rightarrow> sidecar ctl outcome" where
  "ingress_main m rt line =
     app_Run (mc_Getenv m) line
       \<lparr> ap_Name = ''ingress sidecar'', ap_Version = vn_Version (version_Get rt),
         ap_Flags = sort_key flag_name (AddFlags []) \<rparr>
       NewOptions (sidecar_Run m)"

definition azure_main :: "machine \<Rightarrow> 'w \<Rightarrow> go_runtime \<Rightarrow> command_line \<Rightarrow> 'w azure_prov ctl outcome" where
  "azure_main m w rt line =
     app_Run (mc_Getenv m) line
       \<lparr> ap_Name = ''azure provider'', ap_Version = vn_Version (version_Get rt),
         ap_Flags = sort_key flag_name (AddFlags []) \<rparr>
       NewOptions (azure_Run m w)"

text \<open>The order of the flags does not matter.\<close>

lemma sorted_flags:
  "parse_flags getenv args bools (sort_key flag_name (AddFlags [])) opts = parse_flags getenv args bools (AddFlags []) opts"
  by (simp add: AddFlags_def parse_flags_def insort_key_def)

text \<open>The process exits with 0 only for a command line that gives it nothing to do.\<close>

lemma main_exits:
  "app_Run getenv line app opts action = Exits n \<Longrightarrow> n = 0 \<longleftrightarrow> (\<forall>args bools. line \<noteq> Given args bools)"
  by (auto simp: app_Run_def split: command_line.splits sum.splits elim: exit_code.elims)

lemma ipvsdr_main_serves:
  assumes "ipvsdr_main m w rt line = Serves s"
  obtains opts where "ipvsdr_Run m w (opts :: ipvsdr_options) = Inr s"
  using assms by (auto simp: ipvsdr_main_def app_Run_def split: command_line.splits sum.splits)

section \<open>A process\<close>

text \<open>\<open>handleSigterm\<close>: the exit code, unless \<open>Stop\<close> panics.\<close>

definition handleSigterm :: "'b backend \<Rightarrow> ('b ctl, go_error, int) prog" where
  "handleSigterm be s =
     (case Stop be s of
        (Inr _, s') \<Rightarrow> (Inr 0, s')
      | (Inl e, s') \<Rightarrow> (if is_panic e then Inl e else Inr 1, s'))"

text \<open>The same code in the other two commands, over their providers.\<close>

definition ingress_handleSigterm :: "(sidecar ctl, go_error, int) prog" where
  "ingress_handleSigterm = handleSigterm sidecar_backend"

definition azure_handleSigterm :: "(nat \<Rightarrow> ('w, 'f) azure_env) \<Rightarrow> ('w azure_prov ctl, go_error, int) prog" where
  "azure_handleSigterm env = handleSigterm (azure_backend env)"

text \<open>
  What goes on between \<open>Run\<close> and SIGTERM: the main goroutine starts the controller, then the
  controller works, while the provider's own goroutines (\<open>own\<close>) do their steps.
\<close>

inductive process :: "'b backend \<Rightarrow> ('b \<Rightarrow> 'b \<Rightarrow> bool) \<Rightarrow> 'b ctl \<Rightarrow> 'b ctl \<Rightarrow> bool"
  for be :: "'b backend" and own :: "'b \<Rightarrow> 'b \<Rightarrow> bool" and s0 :: "'b ctl" where
  proc_main: "Start be s0 = (Inr (), s) \<Longrightarrow> process be own s0 s"
| proc_work: "process be own s0 s \<Longrightarrow> ctl_work be s s' \<Longrightarrow> process be own s0 s'"
| proc_own: "process be own s0 s \<Longrightarrow> own (ct_back s) b \<Longrightarrow> process be own s0 (s\<lparr>ct_back := b\<rparr>)"

lemma work_frame:
  "ctl_work be s s' \<Longrightarrow> ct_shutdown s' = ct_shutdown s \<and> ct_stopClosed s' = ct_stopClosed s"
  by (induction rule: ctl_work.induct)
    (auto simp: addLoadBalancer_def updateLoadBalancer_def deleteLoadBalancer_def updateConfigMap_def
      enqueue_lb_def dest: sync_frame split: option.split)

lemma process_not_stopped:
  "process be own s0 s \<Longrightarrow> \<not> ct_shutdown s0 \<Longrightarrow> \<not> ct_stopClosed s0 \<Longrightarrow> \<not> ct_shutdown s \<and> \<not> ct_stopClosed s"
  by (induction rule: process.induct) (auto dest: Start_frame work_frame)

context provider_worker
begin

text \<open>The provider's invariant holds in the whole process if its own goroutines keep it, too.\<close>

lemma process_binv:
  assumes own: "\<And>b b' h. own b b' \<Longrightarrow> binv (b, h) \<Longrightarrow> binv (b', h)"
    and started: "\<And>s. Start be s0 = (Inr (), s) \<Longrightarrow> binv (ct_back s, ct_heap s)"
  shows "process be own s0 s \<Longrightarrow> binv (ct_back s, ct_heap s)"
proof (induction rule: process.induct)
  case (proc_main s)
  then show ?case by (rule started)
next
  case (proc_work s s')
  then show ?case using work_binv unfolding ctl_binv_def by blast
next
  case (proc_own s b)
  then show ?case using own by simp
qed

end

text \<open>SIGTERM to a controller that was not stopped stops the provider, then the queue.\<close>

lemma handleSigterm_run:
  assumes "\<not> ct_shutdown s" "\<not> ct_stopClosed s"
    and "be_Stop be (ct_lister s) (ct_back s, ct_heap s) = (r, (b, h))"
    and "handleSigterm be s = (r', s')"
  shows "ct_back s' = b \<and> ct_heap s' = h
    \<and> (case r of Inl e \<Rightarrow> if is_panic e then r' = Inl e else r' = Inr 0 | Inr _ \<Rightarrow> r' = Inr 0)
    \<and> (r' = Inr 0 \<longrightarrow> wq_shuttingDown (rl_q (ct_queue s')))"
  using assms
  by (cases r) (auto simp: handleSigterm_def Stop_def close_stopCh_def seqE_def ignoreE_def with_backend_def
      rl_ShutDown_def wq_ShutDown_def split: if_splits)

section \<open>SIGTERM before the start\<close>

text \<open>
  The signal handler is installed before the provider is started, and \<open>Start\<close> first waits for the
  informers. A SIGTERM in that time stops a keepalived that does not exist, and the process panics.
\<close>

definition only_panics :: "('s, go_error, 'a) prog \<Rightarrow> bool" where
  "only_panics m \<longleftrightarrow> (\<forall>s e s'. m s = (Inl e, s') \<longrightarrow> is_panic e)"

lemma only_panics_intros:
  "only_panics (ignoreE m)"
  "only_panics m1 \<Longrightarrow> (\<And>x. only_panics (m2 x)) \<Longrightarrow> only_panics (seqE m1 m2)"
  "(\<And>x. only_panics (body x)) \<Longrightarrow> only_panics (forE xs body)"
proof -
  show "only_panics (ignoreE m)"
    by (auto simp: only_panics_def ignoreE_def split: prod.splits sum.splits if_splits)
  show seq: "only_panics m1 \<Longrightarrow> (\<And>x. only_panics (m2 x)) \<Longrightarrow> only_panics (seqE m1 m2)" for m1 m2
    by (fastforce simp: only_panics_def seqE_def split: prod.splits sum.splits)
  show "(\<And>x. only_panics (body x)) \<Longrightarrow> only_panics (forE xs body)"
    by (induction xs) (auto intro: seq, simp add: only_panics_def)
qed

lemma deleteChain_panic: "deleteChain ipt s = (Inl e, s') \<Longrightarrow> is_panic e"
proof -
  have "only_panics (deleteChain ipt)"
    unfolding deleteChain_def flushChain_def deleteChain_on_def by (intro only_panics_intros)
  then show "deleteChain ipt s = (Inl e, s') \<Longrightarrow> is_panic e" by (auto simp: only_panics_def)
qed

lemma early_sigterm_panics:
  assumes "ipvsdr_Run m w opts = Inr s0" "handleSigterm (ipvsdr_backend env) s0 = (r, s)"
  shows "\<exists>e. r = Inl e \<and> is_panic e"
proof -
  obtain lb node where s0: "s0 = NewLoadBalancerProvider (configuration opts lb) (mc_lister m) (mc_heap m)
      (NewIpvsdrProvider node w (mc_host m))"
    using ipvsdr_RunD [OF assms(1)] by metis
  obtain q b h where st: "be_Stop (ipvsdr_backend env) (ct_lister s0) (ct_back s0, ct_heap s0) = (q, (b, h))"
    by (rule prod_cases3)
  have "\<exists>e. q = Inl e \<and> is_panic e"
    using st deleteChain_panic
    by (auto simp: ipvsdr_backend_def with_call_def ipvsdr_Stop_def seqE_def on_world_def on_keepalived_def
        keepalived_Stop_def resetSysctl_def s0 NewLoadBalancerProvider_def NewIpvsdrProvider_def
        split: prod.splits sum.splits)
  moreover have "\<not> ct_shutdown s0" "\<not> ct_stopClosed s0" by (simp_all add: s0 NewLoadBalancerProvider_def)
  ultimately show ?thesis using handleSigterm_run [OF _ _ st assms(2)] by auto
qed

section \<open>The ipvs-dr process\<close>

text \<open>
  On a host whose settings can be read and written and whose tables are fresh, the process starts and
  then serves until it is stopped.
\<close>

lemma process_serving:
  assumes "iptables_tool exec view same" "\<And>p. fresh_tables same (view p w)"
    and "\<forall>k \<in> fst ` set sysctlAdjustments. sysctl_ready (mc_host m) (sysctlPath k)"
    and "\<forall>n. ie_ipt (env n) = newRunner exec" "ie_lookPath (env 0) ''keepalived'' = Inr path" "ie_startOk (env 0)"
    and "ipvsdr_Run m w opts = Inr s0"
  shows "\<exists>s1 orig h1. Start (ipvsdr_backend env) s0 = (Inr (), s1) \<and> ct_running s1
    \<and> BulkModify sysctlAdjustments (mc_host m) = ((orig, None), h1)
    \<and> (\<forall>s. process (ipvsdr_backend env) ipvsdr_own s0 s \<longrightarrow>
         serving view (\<lambda>p. view p w) h1 orig (ct_back s, ct_heap s))"
proof -
  let ?be = "ipvsdr_backend env"
  obtain lb node where s0: "s0 = NewLoadBalancerProvider (configuration opts lb) (mc_lister m) (mc_heap m)
      (NewIpvsdrProvider node w (mc_host m))"
    using ipvsdr_RunD [OF assms(7)] by metis
  let ?q = "((NewIpvsdrProvider node w (mc_host m))\<lparr>iv_calls := 1\<rparr>, mc_heap m)"
  obtain b h orig h1 d where run: "ipvsdr_Start (env 0) ?q = (Inr (), (b, h))"
      "running view (\<lambda>p. view p w) h1 orig d (b, h)" "in_service d" "IsRunning d"
      "BulkModify sysctlAdjustments (mc_host m) = ((orig, None), h1)"
    using Start_running [OF assms(1-3) assms(4) [rule_format] assms(5,6), of ?q]
    by (auto simp: NewIpvsdrProvider_def)
  have start: "Start ?be s0 = (Inr (), s0\<lparr>ct_back := b, ct_heap := h, ct_running := True\<rparr>)"
    using run
    by (simp add: s0 Start_def seqE_def with_backend_def ipvsdr_backend_def with_call_def ipvsdr_WaitForStart_def
        NewLoadBalancerProvider_def running_def) (simp add: NewIpvsdrProvider_def)
  have api: "iptables_api (ie_ipt (env n)) view same" for n
    using iptables_tool.runner_api [OF assms(1)] assms(4) by simp
  have "serving view (\<lambda>p. view p w) h1 orig (ct_back s, ct_heap s)" if "process ?be ipvsdr_own s0 s" for s
    by (rule provider_worker.process_binv [OF serving_worker, OF _ _ _ that])
      (use api start run(2,3) in \<open>auto simp: serving_def [symmetric] intro: serving_own\<close>, auto simp: serving_def)
  with start run(5) show ?thesis by fastforce
qed

section \<open>Properties\<close>


text \<open>A machine whose API server knows the example load balancer and runs the pod on node \<open>n1\<close>.\<close>

definition ex_machine :: machine where
  "ex_machine = \<lparr> mc_Getenv = (\<lambda>_. None),
     mc_BuildConfig = (\<lambda>_. Inr \<lparr> rc_Host = ''https://10.254.0.1'', rc_QPS = 0, rc_Burst = 0 \<rparr>),
     mc_NewForConfig = (\<lambda>_. Inr \<lparr> cs_LoadBalancer = (\<lambda>_ _. Inr example_lb),
        cs_PodNodeName = (\<lambda>_ _. Inr ''n1''), cs_Node = (\<lambda>_. Inl KubeNotFound) \<rparr>),
     mc_modprobe = None, mc_stat_ip_vs = None, mc_ParseFiles = (\<lambda>_. None),
     mc_host = ex_host, mc_lister = ex_lister, mc_heap = ex_heap None \<rparr>"

definition ex_options :: options where
  "ex_options = NewOptions\<lparr>op_LoadBalancerNamespace := ''ns'', op_LoadBalancerName := ''lb'',
     op_PodNamespace := ''kube-system'', op_PodName := ''provider''\<rparr>"

lemma ex_run: "\<exists>s0. ipvsdr_Run ex_machine (iv_world ex_new) ex_options = Inr s0"
  by (simp add: ipvsdr_Run_def watched_resource_def NewClientSet_def ex_machine_def ex_options_def ex_binds
      loadIPVSModule_def GetNodeNameForPod_def missing_pod_def create_ipvsdr_def loadTemplate_def)


end
