(* ===== verification/IpvsdrService.thy ===== *)
theory IpvsdrService
  imports Commands
begin

text \<open>
  The ipvs-dr provider at work, under the controller and inside its process: no update panics while
  the provider is started, so the worker finishes every key it takes; and a sync that succeeds without
  having to publish anything leaves the host configured for the resource, its tables and keepalived's
  file included.
\<close>

section \<open>No update panics\<close>

lemma getIPs_total:
  "\<forall>n \<in> set nodes. map_of sels n \<noteq> None \<Longrightarrow> \<exists>x. getIPs me nodes sels nets bind myIface nodeIPs = Inr x"
  by (induction nodes arbitrary: myIface nodeIPs) (auto simp: Let_def split: option.split)

lemma selector_known:
  "getNodeNetSelector nodes n binds sels = (Inr nns, sels') \<Longrightarrow>
     map_of sels' n \<noteq> None \<and> (\<forall>x. map_of sels x \<noteq> None \<longrightarrow> map_of sels' x \<noteq> None)"
  by (auto simp: getNodeNetSelector_def Let_def update_conv' split: option.splits lookup.splits)

lemma selector_error: "getNodeNetSelector nodes n binds sels = (Inl e, sels') \<Longrightarrow> \<not> is_panic e"
  by (auto simp: getNodeNetSelector_def Let_def split: option.splits lookup.splits)

lemma all_selectors:
  "all_selectors_of nodes binds names sels = (r, sels') \<Longrightarrow>
     (\<forall>x. map_of sels x \<noteq> None \<longrightarrow> map_of sels' x \<noteq> None)
     \<and> (case r of Inl e \<Rightarrow> \<not> is_panic e | Inr u \<Rightarrow> \<forall>x \<in> set names. map_of sels' x \<noteq> None)"
proof (induction names arbitrary: sels)
  case Nil
  then show ?case by (auto simp: all_selectors_of_def)
next
  case (Cons n ns)
  obtain q sels1 where 1: "getNodeNetSelector nodes n binds sels = (q, sels1)" by fastforce
  show ?case
  proof (cases q)
    case (Inl e)
    have "sels1 = sels" using 1 Inl by (auto simp: getNodeNetSelector_def Let_def split: option.splits lookup.splits)
    then show ?thesis using Cons.prems 1 Inl selector_error [of nodes n binds sels e sels1]
      by (auto simp: all_selectors_of_def seqE_def)
  next
    case (Inr nns)
    then have "all_selectors_of nodes binds ns sels1 = (r, sels')"
      using Cons.prems 1 by (simp add: all_selectors_of_def seqE_def)
    note IH = Cons.IH [OF this]
    have k: "map_of sels1 n \<noteq> None" "\<forall>x. map_of sels x \<noteq> None \<longrightarrow> map_of sels1 x \<noteq> None"
      using selector_known 1 Inr by blast+
    show ?thesis
    proof (cases r)
      case (Inl e)
      then show ?thesis using IH k(2) by simp
    next
      case (Inr u)
      then show ?thesis using IH k by simp
    qed
  qed
qed

lemma config_block_total:
  assumes "nodes \<noteq> []" "\<forall>n \<in> set nodes. map_of sels n \<noteq> None"
    and "getKeepalivedConfigBlock me nodes sels nets kl priority vrid = Inl e"
  shows "\<not> is_panic e"
  using assms getIPs_total [OF assms(2), of me nets "kp_Bind kl" None "[]"]
  by (auto simp: getKeepalivedConfigBlock_def Let_def split: option.splits if_splits)

lemma slaves_total:
  assumes "nodes \<noteq> []" "\<forall>n \<in> set nodes. map_of sels n \<noteq> None"
  shows "\<exists>x. slaves_loop me nodes sels nets priority specs vrrid vis vss = Inr x"
proof (induction specs arbitrary: vrrid vis vss)
  case (Cons spec specs)
  then show ?case using config_block_total [OF assms]
    by (auto split: sum.split prod.split)
qed simp

lemma keepalived_config_total:
  assumes "ns_Names (lb_Nodes lb) \<noteq> []" "\<forall>n \<in> set (ns_Names (lb_Nodes lb)). map_of sels n \<noteq> None"
    and "keepalived_config me lb ipvs sels nets = Inl e"
  shows "\<not> is_panic e"
proof -
  let ?nodes = "sort (ns_Names (lb_Nodes lb))"
  have n: "?nodes \<noteq> []" "\<forall>n \<in> set ?nodes. map_of sels n \<noteq> None"
    using assms(1,2) by (metis set_empty set_sort) (use assms(2) in simp)
  show ?thesis
  proof (cases "getKeepalivedConfigBlock me ?nodes sels nets (embedded ipvs) (getNodePriority me ?nodes) (first_vrid lb)")
    case (Inl e')
    then show ?thesis using assms(3) config_block_total [OF n Inl] by (simp add: keepalived_config_def Let_def)
  next
    case (Inr x)
    obtain vis vss where "x = (vis, vss)" by (cases x) simp
    moreover obtain y where "slaves_loop me ?nodes sels nets (getNodePriority me ?nodes) (ip_Slaves ipvs) (first_vrid lb) vis vss = Inr y"
      using slaves_total [OF n] by blast
    ultimately show ?thesis using assms(3) Inr by (simp add: keepalived_config_def Let_def)
  qed
qed

lemma onUpdateKeepalived_total:
  assumes "ns_Names (lb_Nodes lb) \<noteq> []" "\<forall>n \<in> set (ns_Names (lb_Nodes lb)). map_of sels n \<noteq> None"
    and "ks_cmd k \<noteq> None" "onUpdateKeepalived env me lb ipvs sels nets k = (Inl e, k')"
  shows "\<not> is_panic e"
proof (cases "keepalived_config me lb ipvs sels nets")
  case (Inl e')
  then show ?thesis using assms(4) keepalived_config_total [OF assms(1,2) Inl] by (simp add: onUpdateKeepalived_def)
next
  case (Inr x)
  then show ?thesis using assms(3,4)
    by (auto simp: onUpdateKeepalived_def Let_def Reload_def UpdateConfig_def
        split: prod.splits option.splits if_splits)
qed

lemma apply_total:
  fixes s :: "'w ipvsdr bstate"
  assumes api: "iptables_api (ie_ipt env) view same" and run: "running view T h orig d s"
    and names: "ns_Names (lb_Nodes lb) \<noteq> []"
    and ap: "apply_update env nodes a lb ipvs sels0 nets c1 c2 tcps udps s = (Inl e, s')"
  shows "\<not> is_panic e"
proof -
  obtain q sels where sels: "all_selectors_of nodes (getAllBinds ipvs) (ns_Names (lb_Nodes lb)) sels0 = (q, sels)"
    by fastforce
  show ?thesis
  proof (cases q)
    case (Inl e')
    then show ?thesis using ap sels all_selectors [OF sels] by (simp add: apply_update_def)
  next
    case (Inr u)
    then have known: "\<forall>n \<in> set (ns_Names (lb_Nodes lb)). map_of sels n \<noteq> None" using all_selectors [OF sels] by simp
    let ?ipt = "onUpdateIPtables (ie_ipt env) (iv_nodeName (fst s)) (ns_Names (lb_Nodes lb)) ipvs sels nets tcps udps"
    let ?k = "onUpdateKeepalived (ie_keepalived env) (iv_nodeName (fst s)) lb ipvs sels nets"
    obtain V where V: "\<And>p. view p (iv_world (fst s)) = with_chains (T p) (fst (V p)) (snd (V p))"
      using run by (auto simp: running_def)
    have tables: "\<not> is_panic e1" if "?ipt (iv_world (fst s)) = (Inl e1, w1)" for e1 w1
    proof -
      obtain my nodeIPs where ips: "getIPs (iv_nodeName (fst s)) (ns_Names (lb_Nodes lb)) sels nets (kp_Bind ipvs) None [] = Inr (my, nodeIPs)"
        using getIPs_total [OF known] by (metis surj_pair)
      show ?thesis
      proof (cases my)
        case None
        then show ?thesis using that ips by (auto simp: onUpdateIPtables_def)
      next
        case (Some myIface)
        have "holds_chains (iptables_api.views view (iv_world (fst s))) V"
          using V by (simp add: iptables_api.views_def [OF api] with_chains_def holds_chains_def
              tableMangle_def tableFilter_def ChainPrerouting_def ChainOutput_def iptablesChain_def iptablesOutputChain_def)
        then show ?thesis
          using iptables_api.refines_onUpdate [OF api ips [unfolded Some], of tcps udps] that
          unfolding iptables_api.refines_def [OF api] by fastforce
      qed
    qed
    have cmd: "ks_cmd (iv_keepalived (fst s)) \<noteq> None" using run by (simp add: running_def)
    have keep: "\<not> is_panic e2" if "?k k1 = (Inl e2, k2)" "ks_cmd k1 \<noteq> None" for e2 k1 k2
      using onUpdateKeepalived_total [OF names known that(2,1)] .
    show ?thesis
      using ap sels Inr tables keep cmd
      by (auto simp: apply_update_def seqE_def on_world_def on_keepalived_def
          split: prod.splits sum.splits if_splits)
  qed
qed

lemma OnUpdate_total:
  assumes "iptables_api (ie_ipt env) view same" "running view T h orig d s" "hp_obj (snd s) a = Some lb"
    and api_answers: "\<And>x e. ie_Update env x = Some e \<Longrightarrow> \<not> is_panic e"
    and run: "ipvsdr_OnUpdate env L a s = (Inl e, s')"
  shows "\<not> is_panic e"
proof -
  have v: "ipvsdr_validate (iv_nodeName (fst s)) lb = None"
    using run assms(3) by (auto simp: ipvsdr_OnUpdate_def split: option.splits)
  then have names: "ns_Names (lb_Nodes lb) \<noteq> []" and me: "iv_nodeName (fst s) \<in> set (ns_Names (lb_Nodes lb))"
    by (auto simp: ipvsdr_validate_def split: if_splits)
  let ?ipvs = "the (ps_Ipvsdr (lb_Providers lb))" and ?c1 = "isLBChanged (cached_lb s) lb"
  show ?thesis
  proof (cases "isListenPortChanged (sl_ConfigMap L) (iv_cache_tcps (fst s)) (iv_cache_udps (fst s)) lb")
    case (Inl e')
    then have "\<not> is_panic e'"
      by (auto simp: isListenPortChanged_def found_config_map_def split: sum.splits lookup.splits prod.splits)
    then show ?thesis using run assms(3) v Inl by (simp add: ipvsdr_OnUpdate_def Let_def)
  next
    case (Inr x)
    obtain c2 tcps udps where x: "x = (c2, tcps, udps)" by (cases x) auto
    have changed: "?c1 \<or> c2" using run assms(3) v Inr x by (auto simp: ipvsdr_OnUpdate_def Let_def split: if_splits)
    obtain q sels where sel: "getNodeNetSelector (sl_Node L) (iv_nodeName (fst s)) (getAllBinds ?ipvs) [] = (q, sels)"
      by fastforce
    show ?thesis
    proof (cases q)
      case (Inl e')
      then show ?thesis using run assms(3) v Inr x changed sel selector_error
        by (auto simp: ipvsdr_OnUpdate_def Let_def)
    next
      case nns: (Inr nns)
      obtain nets updated e' s1 where reg: "registerNodeNetwork env a lb nns s = ((nets, updated, e'), s1)"
        by (metis prod_cases3 surj_pair)
      have fail: "\<not> is_panic y" if "e' = Some y" for y
        using reg that api_answers
        by (auto simp: registerNodeNetwork_def getCurrentNodeIfaceIPs_def Let_def
            split: sum.splits option.splits prod.splits if_splits)
      have rest: "(if updated \<or> e' \<noteq> None
             then (case e' of None \<Rightarrow> Inr () | Some y \<Rightarrow> if y = KubeConflict then Inr () else Inl y, s1)
             else case nets of None \<Rightarrow> (Inr (), s1)
               | Some nets \<Rightarrow> apply_update env (sl_Node L) a lb ?ipvs sels nets ?c1 c2 tcps udps s1) = (Inl e, s')"
        using run assms(3) v Inr x changed sel nns reg by (auto simp: ipvsdr_OnUpdate_def Let_def)
      show ?thesis
      proof (cases "updated \<or> e' \<noteq> None")
        case True
        then show ?thesis using rest fail by (auto split: option.splits if_splits)
      next
        case False
        then have "s1 = s" using register_cases [OF reg me] by auto
        then show ?thesis
          using rest False apply_total [OF assms(1,2) names] by (auto split: option.splits)
      qed
    qed
  qed
qed

lemma serving_total:
  fixes env :: "nat \<Rightarrow> 'w ipvsdr_env"
  assumes "\<forall>n. iptables_api (ie_ipt (env n)) view same" "\<forall>n x e. ie_Update (env n) x = Some e \<longrightarrow> \<not> is_panic e"
  shows "provider_total (ipvsdr_backend env) (serving view T h orig)"
proof -
  have worker: "provider_worker (ipvsdr_backend env) (serving view T h orig)"
    by (rule serving_worker [OF assms(1)])
  have total: "\<not> is_panic e"
    if serve: "serving view T h orig s" and run: "hp_obj (snd s) a = Some lb" "be_OnUpdate (ipvsdr_backend env) L a s = (Inl e, s')"
    for s :: "'w ipvsdr bstate" and a lb L e s'
  proof -
    obtain d where "running view T h orig d s" using serve by (auto simp: serving_def)
    then have "running view T h orig d ((fst s)\<lparr>iv_calls := Suc (iv_calls (fst s))\<rparr>, snd s)" by (simp add: running_def)
    from OnUpdate_total [OF assms(1) [rule_format, of "iv_calls (fst s)"] this _ assms(2) [rule_format]] run
    show ?thesis by (simp add: ipvsdr_backend_def with_call_def)
  qed
  show ?thesis
    by (rule provider_total.intro [OF worker], rule provider_total_axioms.intro) (rule total)
qed

text \<open>An error of the API server, by its reason.\<close>

definition api_error :: "string \<Rightarrow> go_error" where
  "api_error reason = (if reason = ''NotFound'' then KubeNotFound else if reason = ''Conflict'' then KubeConflict
     else KubeOther reason)"

interpretation ref_total:
  provider_total "ipvsdr_backend (\<lambda>n. (env n)\<lparr>ie_ipt := newRunner reference_exec, ie_Update := (\<lambda>x. map_option api_error (up n x))\<rparr>)"
    "serving (\<lambda>p w. w p) T h orig"
  for env :: "nat \<Rightarrow> table_pair ipvsdr_env" and up T h orig
  by (rule serving_total [where same = "(=)"])
    (auto simp: iptables_tool.runner_api [OF ref_tool.iptables_tool_axioms] api_error_def)

lemma work_running: "ctl_work be s s' \<Longrightarrow> ct_running s' = ct_running s"
proof (induction rule: ctl_work.induct)
  case (finish k s r s')
  then show ?case
    by (auto simp: syncLoadBalancer_def dest!: with_backend_frame split: sum.splits prod.splits go_error.splits option.splits)
qed (auto simp: addLoadBalancer_def updateLoadBalancer_def deleteLoadBalancer_def updateConfigMap_def
    enqueue_lb_def split: option.split)

lemma process_running:
  "process be own s0 s \<Longrightarrow> (\<And>s1. Start be s0 = (Inr (), s1) \<Longrightarrow> ct_running s1) \<Longrightarrow> ct_running s"
  by (induction rule: process.induct) (auto simp: work_running)

section \<open>What an update applies\<close>

text \<open>The selector of each node of the resource is made from the node object of the lister.\<close>

definition selectors_from :: "(string \<Rightarrow> k8s_node lookup) \<Rightarrow> keepalived_bind list \<Rightarrow> all_selectors \<Rightarrow> bool" where
  "selectors_from nodes binds sels \<longleftrightarrow>
     (\<forall>n nns. map_of sels n = Some nns \<longrightarrow> (\<exists>node. nodes n = Found node \<and> nns = new_selector node binds))"

lemma selector_from:
  "getNodeNetSelector nodes n binds sels = (r, sels') \<Longrightarrow> selectors_from nodes binds sels \<Longrightarrow> selectors_from nodes binds sels'"
  by (auto simp: getNodeNetSelector_def Let_def selectors_from_def update_conv' split: option.splits lookup.splits if_splits)

lemma all_selectors_from:
  "all_selectors_of nodes binds names sels = (r, sels') \<Longrightarrow> selectors_from nodes binds sels \<Longrightarrow> selectors_from nodes binds sels'"
proof (induction names arbitrary: sels)
  case Nil
  then show ?case by (simp add: all_selectors_of_def)
next
  case (Cons n ns)
  obtain q sels1 where 1: "getNodeNetSelector nodes n binds sels = (q, sels1)" by fastforce
  then have "selectors_from nodes binds sels1" using selector_from Cons.prems(2) by blast
  then show ?case using Cons 1 by (cases q) (auto simp: all_selectors_of_def seqE_def)
qed

text \<open>The networks of the nodes are the ones published in the resource.\<close>

lemma merge_nets:
  "map_of (snd (merge_statuses me mine old ns new nets)) n =
     (if n \<in> set ns \<and> n \<noteq> me \<and> old_status old n \<noteq> None then old_status old n else map_of nets n)"
  by (induction me mine old ns new nets rule: merge_statuses.induct)
    (auto simp: update_conv' split: option.splits)

lemma registered_nets:
  assumes "registerNodeNetwork env a lb nns s = ((Some nets, False, None), s1)"
    and "iv_nodeName (fst s) \<in> set (ns_Names (lb_Nodes lb))" "n \<in> set (ns_Names (lb_Nodes lb))"
  shows "map_of nets n = old_status (lb_NodeStatuses lb) n"
proof -
  let ?me = "iv_nodeName (fst s)" and ?names = "ns_Names (lb_Nodes lb)" and ?old = "lb_NodeStatuses lb"
  obtain mine where mine: "getCurrentNodeIfaceIPs (ie_ifaces env) ?me nns = Inr mine"
    using assms(1) by (auto simp: registerNodeNetwork_def split: sum.splits)
  then have name: "st_Name mine = ?me" by (auto simp: getCurrentNodeIfaceIPs_def split: option.splits)
  have "?old = fst (myNodeStatuses ?me mine lb)" and nets: "nets = snd (myNodeStatuses ?me mine lb)"
    using assms(1) mine by (auto simp: registerNodeNetwork_def Let_def split: prod.splits if_splits)
  then have old: "?old = Some (published ?me mine ?old ?names)" using myNodeStatuses_fst [OF assms(2)] by simp
  have "old_status ?old ?me = Some mine"
    using old_status_published [OF name assms(2), of ?old] old by (simp add: status_for_def)
  then show ?thesis using assms(3) by (auto simp: nets myNodeStatuses_def merge_nets)
qed

text \<open>The provider's mangle chains, as what they do to the mark of a packet.\<close>

definition marks_packets ::
  "(string \<Rightarrow> nat \<Rightarrow> bool) \<Rightarrow> (protocol \<Rightarrow> tables) \<Rightarrow> string \<Rightarrow> string list \<Rightarrow> iface_preferred list
   \<Rightarrow> string list \<Rightarrow> string list \<Rightarrow> bool" where
  "marks_packets dports T iface vips nodeIPs tcps udps \<longleftrightarrow>
     (\<forall>pr. \<exists>rs. T pr (tableMangle, iptablesChain) = Some rs
        \<and> (\<forall>p m. chain_mark dports rs p m =
             (if to_vip pr iface vips p \<and> from_director nodeIPs p then clear_bit0 m
              else if to_vip pr iface vips p \<and> to_exported dports tcps udps p then set_bit0 m else m)))"

definition chains_empty :: "(protocol \<Rightarrow> tables) \<Rightarrow> bool" where
  "chains_empty T \<longleftrightarrow> (\<forall>p. T p (tableMangle, iptablesChain) = Some [] \<and> T p (tableFilter, iptablesOutputChain) = Some [])"

lemma onUpdateIPtables_result:
  assumes tool: "iptables_tool exec view same" and sem: "same_sem dports same"
    and V: "\<And>p. view p w = with_chains (T p) (fst (V p)) (snd (V p))"
    and run: "onUpdateIPtables (newRunner exec) me nodes ipvs sels nets tcps udps w = (Inr u, w')"
  shows "\<exists>my nodeIPs. getIPs me nodes sels nets (kp_Bind ipvs) None [] = Inr (Some my, nodeIPs)
    \<and> (if kp_HAMode ipvs = ActivePassiveHA then chains_empty (\<lambda>p. view p w')
       else marks_packets dports (\<lambda>p. view p w') (if_Name (fp_Net my)) (getVIPs ipvs) nodeIPs tcps udps)"
proof -
  have api: "iptables_api (newRunner exec) view same" using tool by (rule iptables_tool.runner_api)
  have refl: "same r r" for r using tool by (rule iptables_tool.same_refl)
  obtain my nodeIPs where ips: "getIPs me nodes sels nets (kp_Bind ipvs) None [] = Inr (Some my, nodeIPs)"
    using run by (auto simp: onUpdateIPtables_def split: sum.splits option.splits)
  have "holds_chains (\<lambda>p. view p w) V"
    using V by (simp add: with_chains_def holds_chains_def tableMangle_def tableFilter_def
        ChainPrerouting_def ChainOutput_def iptablesChain_def iptablesOutputChain_def)
  from iptables_api.refinesD [OF api iptables_api.refines_onUpdate [OF api ips, of tcps udps] this] run
  have "holds_chains (\<lambda>p. view p w') (if kp_HAMode ipvs \<noteq> ActivePassiveHA
      then fold (vip_chains same (if_Name (fp_Net my)) nodeIPs tcps udps) (getVIPs ipvs) (\<lambda>_. ([], [])) else (\<lambda>_. ([], [])))"
    by simp
  then show ?thesis
    using ips update_marks [OF refl sem]
    by (auto simp: holds_chains_def marks_packets_def chains_empty_def split: if_splits)
qed

text \<open>The file and the hash after keepalived was configured.\<close>

definition file_written ::
  "keepalived_env \<Rightarrow> vrrp_instance list \<Rightarrow> virtual_server list \<Rightarrow> int \<Rightarrow> keepalived_state \<Rightarrow> bool" where
  "file_written env vis vss httpPort k \<longleftrightarrow>
     (ke_create env \<longrightarrow> ks_file k = Some (ke_render env vis vss httpPort)
        \<and> (ke_open env \<longrightarrow> ks_cfgMD5 k = ke_md5 env (ke_render env vis vss httpPort)))"

lemma onUpdateKeepalived_result:
  assumes "onUpdateKeepalived env me lb ipvs sels nets k = (Inr u, k')"
  shows "\<exists>vis vss. keepalived_config me lb ipvs sels nets = Inr (vis, vss)
    \<and> file_written env vis vss (GetHTTPPort lb) k'"
  using assms
  by (auto simp: onUpdateKeepalived_def Let_def UpdateConfig_def checksum_def Reload_def file_written_def
      split: sum.splits prod.splits option.splits if_splits)

text \<open>
  The host is configured for a resource: the tables for the exported ports and, when more than the
  ports changed, the keepalived file, both for the same networks of the nodes.
\<close>

definition configured_for ::
  "(string \<Rightarrow> nat \<Rightarrow> bool) \<Rightarrow> (protocol \<Rightarrow> tables) \<Rightarrow> keepalived_env \<Rightarrow> keepalived_state \<Rightarrow> store_lister
   \<Rightarrow> string \<Rightarrow> load_balancer \<Rightarrow> bool \<Rightarrow> string list \<Rightarrow> string list \<Rightarrow> bool" where
  "configured_for dports T env k L me lb lbChange tcps udps \<longleftrightarrow>
     (\<exists>ipvs sels nets my nodeIPs. ps_Ipvsdr (lb_Providers lb) = Some ipvs
        \<and> selectors_from (sl_Node L) (getAllBinds ipvs) sels
        \<and> (\<forall>n \<in> set (ns_Names (lb_Nodes lb)). map_of sels n \<noteq> None \<and> map_of nets n = old_status (lb_NodeStatuses lb) n)
        \<and> getIPs me (ns_Names (lb_Nodes lb)) sels nets (kp_Bind ipvs) None [] = Inr (Some my, nodeIPs)
        \<and> (if kp_HAMode ipvs = ActivePassiveHA then chains_empty T
           else marks_packets dports T (if_Name (fp_Net my)) (getVIPs ipvs) nodeIPs tcps udps)
        \<and> (lbChange \<longrightarrow> (\<exists>vis vss. keepalived_config me lb ipvs sels nets = Inr (vis, vss)
             \<and> file_written env vis vss (GetHTTPPort lb) k)))"

lemma apply_configures:
  fixes s :: "'w ipvsdr bstate"
  assumes tool: "iptables_tool exec view same" and sem: "same_sem dports same" and env: "ie_ipt env = newRunner exec"
    and run: "running view T h orig d s" and ipvs: "ps_Ipvsdr (lb_Providers lb) = Some ipvs"
    and from0: "selectors_from (sl_Node L) (getAllBinds ipvs) sels0"
    and nets: "\<forall>n \<in> set (ns_Names (lb_Nodes lb)). map_of nets n = old_status (lb_NodeStatuses lb) n"
    and ap: "apply_update env (sl_Node L) a lb ipvs sels0 nets c1 c2 tcps udps s = (Inr u, s')"
    and change: "c1 \<or> c2"
  shows "configured_for dports (\<lambda>p. view p (iv_world (fst s'))) (ie_keepalived env) (iv_keepalived (fst s')) L
    (iv_nodeName (fst s)) lb c1 tcps udps"
proof -
  let ?me = "iv_nodeName (fst s)" and ?names = "ns_Names (lb_Nodes lb)"
  obtain q sels where sels: "all_selectors_of (sl_Node L) (getAllBinds ipvs) ?names sels0 = (q, sels)"
    by fastforce
  have q: "q = Inr ()" using ap sels by (cases q) (auto simp: apply_update_def)
  then have known: "\<forall>n \<in> set ?names. map_of sels n \<noteq> None" using all_selectors [OF sels] by simp
  obtain u1 w1 where 1: "onUpdateIPtables (newRunner exec) ?me ?names ipvs sels nets tcps udps (iv_world (fst s)) = (Inr u1, w1)"
    and w1: "iv_world (fst s') = w1"
    and 2: "c1 \<Longrightarrow> onUpdateKeepalived (ie_keepalived env) ?me lb ipvs sels nets (iv_keepalived (fst s)) = (Inr (), iv_keepalived (fst s'))"
    using ap sels q env change
    by (auto simp: apply_update_def seqE_def on_world_def on_keepalived_def split: prod.splits sum.splits if_splits)
  obtain V where "\<And>p. view p (iv_world (fst s)) = with_chains (T p) (fst (V p)) (snd (V p))"
    using run by (auto simp: running_def)
  note r = onUpdateIPtables_result [OF tool sem this 1]
  show ?thesis
    unfolding configured_for_def w1
    using r onUpdateKeepalived_result [OF 2] ipvs all_selectors_from [OF sels from0] known nets by blast
qed

lemma OnUpdate_configures:
  fixes s :: "'w ipvsdr bstate"
  assumes tool: "iptables_tool exec view same" and sem: "same_sem dports same" and env: "ie_ipt env = newRunner exec"
    and run: "running view T h orig d s" and lb: "hp_obj (snd s) a = Some lb"
    and v: "ipvsdr_validate (iv_nodeName (fst s)) lb = None" 
    and ports: "isListenPortChanged (sl_ConfigMap L) (iv_cache_tcps (fst s)) (iv_cache_udps (fst s)) lb = Inr (c2, tcps, udps)"
    and changed: "isLBChanged (cached_lb s) lb \<or> c2"
    and up: "ipvsdr_OnUpdate env L a s = (Inr (), s')" and quiet: "iv_updates (fst s') = iv_updates (fst s)"
  shows "iv_cache_lb (fst s') = Some a \<and> iv_cache_tcps (fst s') = Some tcps \<and> iv_cache_udps (fst s') = Some udps
    \<and> configured_for dports (\<lambda>p. view p (iv_world (fst s'))) (ie_keepalived env) (iv_keepalived (fst s')) L
        (iv_nodeName (fst s)) lb (isLBChanged (cached_lb s) lb) tcps udps"
proof -
  have me: "iv_nodeName (fst s) \<in> set (ns_Names (lb_Nodes lb))"
    using v by (auto simp: ipvsdr_validate_def split: if_splits)
  obtain ipvs where ipvs: "ps_Ipvsdr (lb_Providers lb) = Some ipvs"
    using v by (auto simp: ipvsdr_validate_def split: if_splits)
  let ?c1 = "isLBChanged (cached_lb s) lb"
  obtain nns sels where sel: "getNodeNetSelector (sl_Node L) (iv_nodeName (fst s)) (getAllBinds ipvs) [] = (Inr nns, sels)"
    using up lb v ports changed ipvs by (auto simp: ipvsdr_OnUpdate_def Let_def split: sum.splits prod.splits if_splits)
  obtain nets updated e s1 where reg: "registerNodeNetwork env a lb nns s = ((nets, updated, e), s1)"
    by (metis prod_cases3 surj_pair)
  have rest: "(if updated \<or> e \<noteq> None
             then (case e of None \<Rightarrow> Inr () | Some y \<Rightarrow> if y = KubeConflict then Inr () else Inl y, s1)
             else case nets of None \<Rightarrow> (Inr (), s1)
               | Some nets \<Rightarrow> apply_update env (sl_Node L) a lb ipvs sels nets ?c1 c2 tcps udps s1) = (Inr (), s')"
    using up lb v ports changed ipvs sel reg by (auto simp: ipvsdr_OnUpdate_def Let_def)
  have "\<not> updated"
  proof
    assume "updated"
    then have "s' = s1" "publishes env a lb s s1" using rest register_cases [OF reg me] by auto
    then show False using quiet by (auto simp: publishes_def)
  qed
  with register_cases [OF reg me] rest
  have s1: "s1 = s" and e: "e = None \<longleftrightarrow> nets \<noteq> None" by auto
  have "e = None"
  proof (rule ccontr)
    assume "e \<noteq> None"
    then have "e = Some KubeConflict" using rest by (auto split: option.splits if_splits)
    then show False using reg \<open>\<not> updated\<close>
      by (auto simp: registerNodeNetwork_def getCurrentNodeIfaceIPs_def Let_def split: sum.splits option.splits prod.splits if_splits)
  qed
  then obtain ns where ns: "nets = Some ns" using e by auto
  have reg0: "registerNodeNetwork env a lb nns s = ((Some ns, False, None), s1)"
    using reg ns \<open>\<not> updated\<close> \<open>e = None\<close> by simp
  have nets: "\<forall>n \<in> set (ns_Names (lb_Nodes lb)). map_of ns n = old_status (lb_NodeStatuses lb) n"
    using registered_nets [OF reg0 me] by blast
  have ap: "apply_update env (sl_Node L) a lb ipvs sels ns ?c1 c2 tcps udps s = (Inr (), s')"
    using rest ns \<open>\<not> updated\<close> \<open>e = None\<close> s1 by simp
  have "selectors_from (sl_Node L) (getAllBinds ipvs) sels"
    by (rule selector_from [OF sel]) (simp add: selectors_from_def)
  from apply_configures [OF tool sem env run ipvs this nets ap changed] apply_update_frame [OF ap]
  show ?thesis by auto
qed

section \<open>An example\<close>

text \<open>A machine whose API server and stores know the example load balancer with its published status.\<close>

definition served_machine :: machine where
  "served_machine = ex_machine\<lparr>mc_lister := ex_lister\<lparr>sl_LoadBalancer := (\<lambda>_ _. Found 0)\<rparr>,
     mc_heap := ex_heap (Some [example_status])\<rparr>"

lemma Start_keeps:
  "ipvsdr_Start env s = (r, s') \<Longrightarrow> snd s' = snd s \<and> iv_nodeName (fst s') = iv_nodeName (fst s)
     \<and> cache_same (fst s) (fst s') \<and> iv_updates (fst s') = iv_updates (fst s)"
  by (auto simp: ipvsdr_Start_def changeSysctl_def seqE_def on_world_def on_keepalived_def cache_same_def
      split: prod.splits sum.splits)

lemma served_update:
  assumes run: "running (\<lambda>p w. w p) T h orig d s" and s: "iv_nodeName (fst s) = ''n1''" "iv_cache_lb (fst s) = None"
    "snd s = ex_heap (Some [example_status])"
  shows "\<exists>s1. ipvsdr_OnUpdate (ex_env None) (ex_lister\<lparr>sl_LoadBalancer := f\<rparr>) 0 s = (Inr (), s1)
     \<and> iv_updates (fst s1) = iv_updates (fst s)"
proof -
  let ?lb = "example_lb\<lparr>lb_NodeStatuses := Some [example_status]\<rparr>" and ?L = "ex_lister\<lparr>sl_LoadBalancer := f\<rparr>"
  have lb: "?lb = example_lb" by (simp add: example_lb_def)
  have "fst (myNodeStatuses ''n1'' example_status ?lb) = Some [example_status]"
    using myNodeStatuses_fst [of "''n1''" ?lb example_status] by (simp add: ex_names ex_published)
  moreover have "snd (myNodeStatuses ''n1'' example_status ?lb) = [(''n1'', example_status)]"
    by (simp add: myNodeStatuses_def ex_names)
  ultimately have "myNodeStatuses ''n1'' example_status ?lb = (Some [example_status], [(''n1'', example_status)])"
    by (cases "myNodeStatuses ''n1'' example_status ?lb") simp
  then have reg: "registerNodeNetwork (ex_env None) 0 ?lb example_selector s =
      ((Some [(''n1'', example_status)], False, None), s)"
    using ex_status [of None] by (simp add: registerNodeNetwork_def s)
  have ips: "getIPs ''n1'' [''n1''] [(''n1'', example_selector)] [(''n1'', example_status)] (kp_Bind example_ap) None [] =
      Inr (Some \<lparr> fp_Net = example_iface, fp_preferredIP = ''10.0.0.1'' \<rparr>,
           [\<lparr> fp_Net = example_iface, fp_preferredIP = ''10.0.0.1'' \<rparr>])"
    using example_getIPs by (simp add: example_ipvs_def example_ap_def)
  obtain V where "\<And>p. iv_world (fst s) p = with_chains (T p) (fst (V p)) (snd (V p))"
    using run by (auto simp: running_def)
  then have "holds_chains (\<lambda>p. iv_world (fst s) p) V"
    by (simp add: with_chains_def holds_chains_def tableMangle_def tableFilter_def
        ChainPrerouting_def ChainOutput_def iptablesChain_def iptablesOutputChain_def)
  then have tables: "\<exists>w. onUpdateIPtables (newRunner reference_exec) ''n1'' [''n1''] example_ap
      [(''n1'', example_selector)] [(''n1'', example_status)] tcps udps (iv_world (fst s)) = (Inr (), w)" for tcps udps
    using ref_tool.refinesD [OF ref_tool.refines_onUpdate [OF ips], of "iv_world (fst s)" V tcps udps] by auto
  obtain vis vss where cfg: "keepalived_config ''n1'' ?lb example_ap [(''n1'', example_selector)]
      [(''n1'', example_status)] = Inr (vis, vss)" using example_config by (auto simp: lb)
  have "ks_cmd (iv_keepalived (fst s)) = Some d" using run by (simp add: running_def)
  then have keep: "\<exists>k. onUpdateKeepalived example_env ''n1'' ?lb example_ap [(''n1'', example_selector)]
      [(''n1'', example_status)] (iv_keepalived (fst s)) = (Inr (), k)"
    by (simp add: onUpdateKeepalived_def cfg Let_def UpdateConfig_def checksum_def Reload_def example_env_def)
  have sels: "all_selectors_of (sl_Node ex_lister) [] [''n1''] [(''n1'', example_selector)] =
      (Inr (), [(''n1'', example_selector)])"
    by (simp add: all_selectors_of_def seqE_def getNodeNetSelector_def)
  have fields: "ie_ipt (ex_env None) = newRunner reference_exec" "ie_keepalived (ex_env None) = example_env"
    by (simp_all add: ex_env_def)
  have "\<exists>s1. apply_update (ex_env None) (sl_Node ex_lister) 0 ?lb example_ap [(''n1'', example_selector)]
      [(''n1'', example_status)] True c2 tcps udps s = (Inr (), s1)" for c2 tcps udps
  proof -
    obtain w where "onUpdateIPtables (newRunner reference_exec) ''n1'' [''n1''] example_ap
        [(''n1'', example_selector)] [(''n1'', example_status)] tcps udps (iv_world (fst s)) = (Inr (), w)"
      using tables by blast
    moreover obtain k where "onUpdateKeepalived example_env ''n1'' ?lb example_ap [(''n1'', example_selector)]
        [(''n1'', example_status)] (iv_keepalived (fst s)) = (Inr (), k)" using keep by blast
    ultimately show ?thesis
      by (simp add: apply_update_def ex_binds ex_names sels on_world_def on_keepalived_def fields s seqE_def)
  qed
  note applied = this
  obtain tcp udp where ports: "GetExportedPorts ?lb None None = (tcp, udp)" by fastforce
  obtain s1 where "ipvsdr_OnUpdate (ex_env None) ?L 0 s = (Inr (), s1)"
    using applied [of "iv_cache_tcps (fst s) = Some (sort tcp) \<longrightarrow> iv_cache_udps (fst s) \<noteq> Some (sort udp)" "sort tcp" "sort udp"]
    by (auto simp: ipvsdr_OnUpdate_def ex_heap_obj s ex_validate ex_binds ex_selector reg
        cached_lb_def isLBChanged_def Let_def isListenPortChanged_def found_config_map_def ports
        ex_config_maps)
  moreover have "iv_updates (fst s1) = iv_updates (fst s)" if "ipvsdr_OnUpdate (ex_env None) ?L 0 s = (Inr (), s1)" for s1
    using OnUpdate_registered [of s 0 ?lb ?L "ex_env None"] that reg
    by (simp add: s ex_heap_obj ex_binds ex_selector)
  ultimately show ?thesis by blast
qed

lemma served_run:
  "ipvsdr_Run served_machine (iv_world ex_new) ex_options = Inr (NewLoadBalancerProvider
     (configuration ex_options example_lb) (ex_lister\<lparr>sl_LoadBalancer := (\<lambda>_ _. Found 0)\<rparr>)
     (ex_heap (Some [example_status])) (NewIpvsdrProvider ''n1'' (iv_world ex_new) ex_host))"
  by (simp add: ipvsdr_Run_def watched_resource_def NewClientSet_def served_machine_def ex_machine_def
      ex_options_def ex_binds loadIPVSModule_def GetNodeNameForPod_def missing_pod_def create_ipvsdr_def loadTemplate_def)

lemma served_process:
  assumes s0: "ipvsdr_Run served_machine (iv_world ex_new) ex_options = Inr s0"
  shows "\<exists>s1 T h orig d. process (ipvsdr_backend (\<lambda>_. ex_env None)) ipvsdr_own s0 s1
     \<and> running (\<lambda>p w. w p) T h orig d (ct_back s1, ct_heap s1)
     \<and> iv_nodeName (ct_back s1) = ''n1'' \<and> iv_cache_lb (ct_back s1) = None
     \<and> ct_heap s1 = ex_heap (Some [example_status]) \<and> ct_lister s1 = ex_lister\<lparr>sl_LoadBalancer := (\<lambda>_ _. Found 0)\<rparr>
     \<and> ct_queue s1 = newRateLimitingQueue \<and> ct_cfg s1 = configuration ex_options example_lb"
proof -
  let ?be = "ipvsdr_backend (\<lambda>_. ex_env None)"
  have host: "mc_host served_machine = ex_host" "iv_host ex_new = ex_host"
    by (simp_all add: served_machine_def ex_machine_def ex_new_def NewIpvsdrProvider_def)
  have ready: "\<forall>k \<in> fst ` set sysctlAdjustments. sysctl_ready (mc_host served_machine) (sysctlPath k)"
    using ex_ready host by simp
  have "\<forall>n::nat. ie_ipt (ex_env None) = newRunner reference_exec" by (simp add: ex_env_fields)
  from process_serving [OF ref_tool.iptables_tool_axioms, where w = "iv_world ex_new",
      OF ex_fresh ready this ex_env_fields(2,3) s0]
  obtain s1 orig h1 where st: "Start ?be s0 = (Inr (), s1)"
    and serve: "process ?be ipvsdr_own s0 s1 \<Longrightarrow> serving (\<lambda>p w. w p) (\<lambda>p. iv_world ex_new p) h1 orig (ct_back s1, ct_heap s1)"
    by blast
  have p: "process ?be ipvsdr_own s0 s1" using st by (rule proc_main)
  obtain d where d: "running (\<lambda>p w. w p) (\<lambda>p. iv_world ex_new p) h1 orig d (ct_back s1, ct_heap s1)"
    using serve [OF p] by (auto simp: serving_def)
  have s0': "s0 = NewLoadBalancerProvider
     (configuration ex_options example_lb) (ex_lister\<lparr>sl_LoadBalancer := (\<lambda>_ _. Found 0)\<rparr>)
     (ex_heap (Some [example_status])) (NewIpvsdrProvider ''n1'' (iv_world ex_new) ex_host)"
    using s0 served_run by simp
  have run1: "ipvsdr_Start (ex_env None) ((NewIpvsdrProvider ''n1'' (iv_world ex_new) ex_host)\<lparr>iv_calls := 1\<rparr>,
      ex_heap (Some [example_status])) = (Inr (), (ct_back s1, ct_heap s1))"
      "ct_lister s1 = ct_lister s0" "ct_queue s1 = ct_queue s0" "ct_cfg s1 = ct_cfg s0"
    using st by (auto simp: s0' Start_def seqE_def with_backend_def ipvsdr_backend_def with_call_def
        NewLoadBalancerProvider_def NewIpvsdrProvider_def split: prod.splits sum.splits if_splits)
  have "iv_nodeName (ct_back s1) = ''n1''" "iv_cache_lb (ct_back s1) = None" "ct_heap s1 = ex_heap (Some [example_status])"
    using Start_keeps [OF run1(1)] by (simp_all add: NewIpvsdrProvider_def cache_same_def)
  moreover have "ct_lister s1 = ex_lister\<lparr>sl_LoadBalancer := (\<lambda>_ _. Found 0)\<rparr>" "ct_queue s1 = newRateLimitingQueue"
      "ct_cfg s1 = configuration ex_options example_lb"
    using run1(2-4) by (simp_all add: s0' NewLoadBalancerProvider_def)
  ultimately show ?thesis using p d by blast
qed

section \<open>Properties\<close>





end
