(* ===== verification/WaitHeap.thy ===== *)
theory WaitHeap
  imports GoPrelude
begin

text \<open>
  The priority queue of the entries that wait for their time, \<open>waitForPriorityQueue\<close>, with the
  operations of \<open>container/heap\<close> that the delaying queue calls on it, and \<open>insert\<close> with the map of the
  known entries. The slice is a list; an entry knows its position in it (\<open>index\<close>), which \<open>Fix\<close> uses to find it
  again. What the delaying queue relies on is the locale \<open>waiting_entries\<close>; the heap is its interpretation.
\<close>

section \<open>The slice of entries\<close>

text \<open>Times are nanoseconds since some start.\<close>

record 'k waitFor =
  wf_data :: 'k
  wf_readyAt :: int
  wf_index :: int

definition pq_Less :: "'k waitFor list \<Rightarrow> nat \<Rightarrow> nat \<Rightarrow> bool" where
  "pq_Less pq i j \<longleftrightarrow> wf_readyAt (pq ! i) < wf_readyAt (pq ! j)"

definition pq_Swap :: "'k waitFor list \<Rightarrow> nat \<Rightarrow> nat \<Rightarrow> 'k waitFor list" where
  "pq_Swap pq i j =
     (let pq1 = pq[i := pq ! j, j := pq ! i];
          pq2 = pq1[i := (pq1 ! i)\<lparr>wf_index := int i\<rparr>]
      in pq2[j := (pq2 ! j)\<lparr>wf_index := int j\<rparr>])"

definition pq_Push :: "'k waitFor list \<Rightarrow> 'k waitFor \<Rightarrow> 'k waitFor list" where
  "pq_Push pq x = pq @ [x\<lparr>wf_index := int (length pq)\<rparr>]"

definition pq_Pop :: "'k waitFor list \<Rightarrow> 'k waitFor \<times> 'k waitFor list" where
  "pq_Pop pq = (let n = length pq in ((pq ! (n - 1))\<lparr>wf_index := -1\<rparr>, take (n - 1) pq))"

definition pq_Peek :: "'k waitFor list \<Rightarrow> 'k waitFor" where
  "pq_Peek pq = pq ! 0"

section \<open>container/heap\<close>

text \<open>Indices stay far below the bound of Go's integers, so the overflow test of \<open>down\<close> never holds.\<close>

function heap_up :: "'k waitFor list \<Rightarrow> nat \<Rightarrow> 'k waitFor list" where
  "heap_up pq j =
     (let i = (j - 1) div 2
      in if i = j \<or> \<not> pq_Less pq j i then pq else heap_up (pq_Swap pq i j) i)"
  by pat_completeness auto
termination by (relation "measure snd") auto

text \<open>The smaller of the two children, where both are in the first \<open>n\<close> elements.\<close>

definition least_child :: "'k waitFor list \<Rightarrow> nat \<Rightarrow> nat \<Rightarrow> nat" where
  "least_child pq i n =
     (let j1 = 2 * i + 1 in if j1 + 1 < n \<and> pq_Less pq (j1 + 1) j1 then j1 + 1 else j1)"

function down_loop :: "'k waitFor list \<Rightarrow> nat \<Rightarrow> nat \<Rightarrow> 'k waitFor list \<times> nat" where
  "down_loop pq i n =
     (if n \<le> 2 * i + 1 then (pq, i)
      else let j = least_child pq i n
           in if \<not> pq_Less pq j i then (pq, i) else down_loop (pq_Swap pq i j) j n)"
  by pat_completeness auto
termination
  by (relation "measure (\<lambda>(pq, i, n). n - i)") (auto simp: least_child_def Let_def split: if_splits)

declare heap_up.simps [simp del] down_loop.simps [simp del]

definition heap_down :: "'k waitFor list \<Rightarrow> nat \<Rightarrow> nat \<Rightarrow> 'k waitFor list \<times> bool" where
  "heap_down pq i0 n = (let (pq', i) = down_loop pq i0 n in (pq', i0 < i))"

definition heap_Push :: "'k waitFor list \<Rightarrow> 'k waitFor \<Rightarrow> 'k waitFor list" where
  "heap_Push pq x = (let pq1 = pq_Push pq x in heap_up pq1 (length pq1 - 1))"

definition heap_Pop :: "'k waitFor list \<Rightarrow> 'k waitFor \<times> 'k waitFor list" where
  "heap_Pop pq = (let n = length pq - 1; (pq1, _) = heap_down (pq_Swap pq 0 n) 0 n in pq_Pop pq1)"

definition heap_Fix :: "'k waitFor list \<Rightarrow> nat \<Rightarrow> 'k waitFor list" where
  "heap_Fix pq i = (let (pq1, moved) = heap_down pq i (length pq) in if moved then pq1 else heap_up pq1 i)"

section \<open>The heap order\<close>

definition pq_key :: "'k waitFor list \<Rightarrow> nat \<Rightarrow> int" where
  "pq_key pq i = wf_readyAt (pq ! i)"

definition pq_parent :: "nat \<Rightarrow> nat" where
  "pq_parent i = (i - 1) div 2"

definition heap_ok :: "'k waitFor list \<Rightarrow> nat \<Rightarrow> bool" where
  "heap_ok pq n \<longleftrightarrow> (\<forall>i < n. 0 < i \<longrightarrow> pq_key pq (pq_parent i) \<le> pq_key pq i)"

text \<open>In order but for the element \<open>j\<close>, which may be too small for its parent.\<close>

definition up_ok :: "'k waitFor list \<Rightarrow> nat \<Rightarrow> nat \<Rightarrow> bool" where
  "up_ok pq j n \<longleftrightarrow> (\<forall>i < n. 0 < i \<and> i \<noteq> j \<longrightarrow> pq_key pq (pq_parent i) \<le> pq_key pq i)
     \<and> (\<forall>i < n. 0 < i \<and> 0 < j \<and> pq_parent i = j \<longrightarrow> pq_key pq (pq_parent j) \<le> pq_key pq i)"

text \<open>In order but for the element \<open>j\<close>, which may be too great for its children.\<close>

definition down_ok :: "'k waitFor list \<Rightarrow> nat \<Rightarrow> nat \<Rightarrow> bool" where
  "down_ok pq j n \<longleftrightarrow> (\<forall>i < n. 0 < i \<and> pq_parent i \<noteq> j \<longrightarrow> pq_key pq (pq_parent i) \<le> pq_key pq i)
     \<and> (\<forall>i < n. 0 < i \<and> 0 < j \<and> pq_parent i = j \<longrightarrow> pq_key pq (pq_parent j) \<le> pq_key pq i)"

lemma parent_less: "0 < i \<Longrightarrow> pq_parent i < i"
  by (simp add: pq_parent_def)

lemma parent_child: "0 < i \<Longrightarrow> pq_parent i = j \<longleftrightarrow> i = 2 * j + 1 \<or> i = 2 * j + 2"
  by (auto simp: pq_parent_def)

lemma length_Swap [simp]: "length (pq_Swap pq i j) = length pq"
  by (simp add: pq_Swap_def Let_def)

lemma pq_key_Swap:
  "i < length pq \<Longrightarrow> j < length pq \<Longrightarrow>
     pq_key (pq_Swap pq i j) k = (if k = i then pq_key pq j else if k = j then pq_key pq i else pq_key pq k)"
  by (auto simp: pq_key_def pq_Swap_def Let_def nth_list_update)

lemma heap_min:
  assumes "heap_ok pq n" "i < n"
  shows "pq_key pq 0 \<le> pq_key pq i"
  using assms(2)
proof (induction i rule: less_induct)
  case (less i)
  show ?case
  proof (cases "i = 0")
    case False
    then have "pq_key pq 0 \<le> pq_key pq (pq_parent i)" using less parent_less [of i] by simp
    also have "\<dots> \<le> pq_key pq i" using assms(1) less.prems False by (simp add: heap_ok_def)
    finally show ?thesis .
  qed simp
qed

lemma heap_up_ok:
  "j < length pq \<Longrightarrow> up_ok pq j (length pq) \<Longrightarrow> heap_ok (heap_up pq j) (length pq)"
proof (induction pq j rule: heap_up.induct)
  case (1 pq j)
  let ?i = "pq_parent j"
  have less: "pq_Less pq j ?i \<longleftrightarrow> pq_key pq j < pq_key pq ?i" by (simp add: pq_Less_def pq_key_def)
  have stop: "?i = j \<longleftrightarrow> j = 0" using parent_less [of j] by (cases "j = 0") (auto simp: pq_parent_def)
  show ?case
  proof (cases "?i = j \<or> \<not> pq_Less pq j ?i")
    case True
    then have "heap_ok pq (length pq)" using "1.prems"(2) stop less
      by (fastforce simp: heap_ok_def up_ok_def)
    then show ?thesis using True by (subst heap_up.simps) (simp add: Let_def pq_parent_def)
  next
    case False
    then have j: "0 < j" "?i < j" "?i < length pq" using "1.prems"(1) parent_less [of j] stop by auto
    note k = pq_key_Swap [OF j(3) "1.prems"(1)]
    have c1: "\<And>i. i < length pq \<Longrightarrow> 0 < i \<Longrightarrow> i \<noteq> j \<Longrightarrow> pq_key pq (pq_parent i) \<le> pq_key pq i"
      and c2: "\<And>i. i < length pq \<Longrightarrow> 0 < i \<Longrightarrow> pq_parent i = j \<Longrightarrow> pq_key pq ?i \<le> pq_key pq i"
      using "1.prems"(2) j(1) by (auto simp: up_ok_def)
    have lt: "pq_key pq j < pq_key pq ?i" using False less by simp
    have "up_ok (pq_Swap pq ?i j) ?i (length pq)"
      unfolding up_ok_def
    proof (intro conjI allI impI; elim conjE)
      fix i assume i: "i < length pq" "0 < i" "i \<noteq> ?i"
      then show "pq_key (pq_Swap pq ?i j) (pq_parent i) \<le> pq_key (pq_Swap pq ?i j) i"
        using c1 [of i] c2 [of i] lt j unfolding k by (auto dest: parent_less)
    next
      fix i assume i: "i < length pq" "0 < i" "0 < ?i" "pq_parent i = ?i"
      have "pq_parent ?i < ?i" using parent_less [OF i(3)] .
      then show "pq_key (pq_Swap pq ?i j) (pq_parent ?i) \<le> pq_key (pq_Swap pq ?i j) i"
        using c1 [of i] c1 [OF j(3) i(3)] i j lt unfolding k by (auto intro: order_trans)
    qed
    then have "heap_ok (heap_up (pq_Swap pq ?i j) ?i) (length pq)"
      using "1.IH" [of "?i"] False j(3) by (simp add: pq_parent_def)
    then show ?thesis using False by (subst heap_up.simps) (simp add: Let_def pq_parent_def)
  qed
qed

lemma least_child:
  assumes "2 * i + 1 < n"
  shows "least_child pq i n < n" "pq_parent (least_child pq i n) = i" "i < least_child pq i n"
    and "\<And>c. c < n \<Longrightarrow> 0 < c \<Longrightarrow> pq_parent c = i \<Longrightarrow> pq_key pq (least_child pq i n) \<le> pq_key pq c"
proof -
  show "least_child pq i n < n" "pq_parent (least_child pq i n) = i" "i < least_child pq i n"
    using assms by (auto simp: least_child_def Let_def pq_parent_def)
  fix c assume "c < n" "0 < c" "pq_parent c = i"
  then have "c = 2 * i + 1 \<or> c = 2 * i + 2" "c < n" by (simp_all add: parent_child)
  then show "pq_key pq (least_child pq i n) \<le> pq_key pq c"
    by (auto simp: least_child_def Let_def pq_Less_def pq_key_def)
qed

lemma down_loop_ok:
  "n \<le> length pq \<Longrightarrow> down_ok pq i n \<Longrightarrow> heap_ok (fst (down_loop pq i n)) n"
proof (induction pq i n rule: down_loop.induct)
  case (1 pq i n)
  have c1: "\<And>c. c < n \<Longrightarrow> 0 < c \<Longrightarrow> pq_parent c \<noteq> i \<Longrightarrow> pq_key pq (pq_parent c) \<le> pq_key pq c"
    and c2: "\<And>c. c < n \<Longrightarrow> 0 < c \<Longrightarrow> 0 < i \<Longrightarrow> pq_parent c = i \<Longrightarrow> pq_key pq (pq_parent i) \<le> pq_key pq c"
    using "1.prems"(2) by (auto simp: down_ok_def)
  show ?case
  proof (cases "n \<le> 2 * i + 1")
    case True
    then have "pq_parent c \<noteq> i" if "c < n" "0 < c" for c using that by (auto simp: parent_child)
    then show ?thesis using c1 True by (subst down_loop.simps) (simp add: heap_ok_def)
  next
    case False
    let ?j = "least_child pq i n"
    have lim: "2 * i + 1 < n" using False by simp
    note j = least_child [OF lim]
    have jn: "?j < n" "pq_parent ?j = i" "i < ?j" using j(1-3) by auto
    have le: "pq_key pq ?j \<le> pq_key pq c" if "c < n" "0 < c" "pq_parent c = i" for c using j(4) [OF that] .
    show ?thesis
    proof (cases "pq_Less pq ?j i")
      case less: False
      then have "pq_key pq i \<le> pq_key pq ?j" by (simp add: pq_Less_def pq_key_def)
      then have "heap_ok pq n" using c1 le by (fastforce simp: heap_ok_def intro: order_trans)
      then show ?thesis using False less by (subst down_loop.simps) (simp add: Let_def)
    next
      case less: True
      then have lt: "pq_key pq ?j < pq_key pq i" by (simp add: pq_Less_def pq_key_def)
      have b: "i < length pq" "?j < length pq" using jn "1.prems"(1) by auto
      note k = pq_key_Swap [OF b]
      have "down_ok (pq_Swap pq i ?j) ?j n"
        unfolding down_ok_def
      proof (intro conjI allI impI; elim conjE)
        fix c assume c: "c < n" "0 < c" "pq_parent c \<noteq> ?j"
        show "pq_key (pq_Swap pq i ?j) (pq_parent c) \<le> pq_key (pq_Swap pq i ?j) c"
          using c1 [OF c(1,2)] c2 [OF jn(1)] le [OF c(1,2)] c lt jn parent_less [OF c(2)] unfolding k by auto
      next
        fix c assume c: "c < n" "0 < c" "pq_parent c = ?j"
        have "c \<noteq> i" "c \<noteq> ?j" using parent_less [OF c(2)] c(3) jn(3) by auto
        then show "pq_key (pq_Swap pq i ?j) (pq_parent ?j) \<le> pq_key (pq_Swap pq i ?j) c"
          using c1 [OF c(1,2)] c(3) jn unfolding k by auto
      qed
      then have "heap_ok (fst (down_loop (pq_Swap pq i ?j) ?j n)) n"
        using "1.IH" [OF False refl] less "1.prems"(1) by simp
      then show ?thesis using False less by (subst down_loop.simps) (simp add: Let_def)
    qed
  qed
qed

text \<open>The operations only move entries, and write their positions into them.\<close>

definition pq_pairs :: "'k waitFor list \<Rightarrow> ('k \<times> int) list" where
  "pq_pairs pq = map (\<lambda>e. (wf_data e, wf_readyAt e)) pq"

definition index_ok :: "'k waitFor list \<Rightarrow> nat \<Rightarrow> bool" where
  "index_ok pq n \<longleftrightarrow> (\<forall>i < n. wf_index (pq ! i) = int i)"

lemma length_pairs [simp]: "length (pq_pairs pq) = length pq"
  by (simp add: pq_pairs_def)

lemma pairs_Swap:
  "i < length pq \<Longrightarrow> j < length pq \<Longrightarrow>
     pq_pairs (pq_Swap pq i j) = (pq_pairs pq)[i := pq_pairs pq ! j, j := pq_pairs pq ! i]"
  by (rule nth_equalityI) (auto simp: pq_pairs_def pq_Swap_def Let_def nth_list_update)

lemma mset_Swap:
  "i < length pq \<Longrightarrow> j < length pq \<Longrightarrow> mset (pq_pairs (pq_Swap pq i j)) = mset (pq_pairs pq)"
  using mset_swap [of j "pq_pairs pq" i] by (simp add: pairs_Swap del: mset_map)

lemma index_Swap:
  "i < n \<Longrightarrow> j < n \<Longrightarrow> n \<le> length pq \<Longrightarrow> index_ok pq n \<Longrightarrow> index_ok (pq_Swap pq i j) n"
  by (auto simp: index_ok_def pq_Swap_def Let_def nth_list_update)

lemma nth_Swap: "k \<noteq> i \<Longrightarrow> k \<noteq> j \<Longrightarrow> pq_Swap pq i j ! k = pq ! k"
  by (simp add: pq_Swap_def Let_def)

lemma heap_up_frame:
  "j < length pq \<Longrightarrow> length (heap_up pq j) = length pq
     \<and> mset (pq_pairs (heap_up pq j)) = mset (pq_pairs pq)
     \<and> (index_ok pq (length pq) \<longrightarrow> index_ok (heap_up pq j) (length pq))"
proof (induction pq j rule: heap_up.induct)
  case (1 pq j)
  let ?i = "(j - 1) div 2"
  show ?case
  proof (cases "?i = j \<or> \<not> pq_Less pq j ?i")
    case True
    then show ?thesis by (subst heap_up.simps, subst heap_up.simps, subst heap_up.simps) (simp add: Let_def)
  next
    case False
    have i: "?i < length pq" using "1.prems" by linarith
    then have eq: "heap_up pq j = heap_up (pq_Swap pq ?i j) ?i"
      using False by (subst heap_up.simps) (simp add: Let_def)
    show ?thesis unfolding eq
      using "1.IH" [OF refl False] i "1.prems" mset_Swap [OF i "1.prems"] index_Swap [OF i "1.prems" order_refl]
      by simp
  qed
qed

lemma down_loop_frame:
  "n \<le> length pq \<Longrightarrow> down_loop pq i n = (pq', i') \<Longrightarrow> length pq' = length pq \<and> i \<le> i'
     \<and> mset (pq_pairs pq') = mset (pq_pairs pq) \<and> (index_ok pq n \<longrightarrow> index_ok pq' n)
     \<and> (\<forall>k \<ge> n. pq' ! k = pq ! k)"
proof (induction pq i n rule: down_loop.induct)
  case (1 pq i n)
  let ?j = "least_child pq i n"
  show ?case
  proof (cases "n \<le> 2 * i + 1 \<or> \<not> pq_Less pq ?j i")
    case True
    then have "pq' = pq" "i' = i" using "1.prems"(2) by (auto simp: down_loop.simps [of pq i n] Let_def split: if_splits)
    then show ?thesis by simp
  next
    case False
    then have j: "?j < n" "i < ?j" using least_child(1,3) [of i n pq] by auto
    then have b: "i < length pq" "?j < length pq" "i < n" using "1.prems"(1) by auto
    have "down_loop (pq_Swap pq i ?j) ?j n = (pq', i')"
      using "1.prems"(2) False by (simp add: down_loop.simps [of pq i n] Let_def)
    then have "length pq' = length pq \<and> ?j \<le> i' \<and> mset (pq_pairs pq') = mset (pq_pairs (pq_Swap pq i ?j))
        \<and> (index_ok (pq_Swap pq i ?j) n \<longrightarrow> index_ok pq' n) \<and> (\<forall>k \<ge> n. pq' ! k = pq_Swap pq i ?j ! k)"
      using "1.IH" [OF _ refl] False "1.prems"(1) by simp
    then show ?thesis
      using j b mset_Swap [OF b(1,2)] index_Swap [OF b(3) j(1) "1.prems"(1)] nth_Swap [of _ i ?j pq] by auto
  qed
qed

text \<open>An element that only became smaller does not go down.\<close>

lemma down_stops:
  assumes "\<And>c. c < n \<Longrightarrow> 0 < c \<Longrightarrow> pq_parent c = i \<Longrightarrow> pq_key pq i \<le> pq_key pq c"
  shows "down_loop pq i n = (pq, i)"
proof (cases "n \<le> 2 * i + 1")
  case False
  then have "pq_key pq i \<le> pq_key pq (least_child pq i n)"
    using least_child(1-3) [of i n pq] by (intro assms) auto
  then show ?thesis by (simp add: down_loop.simps [of pq i n] pq_Less_def pq_key_def)
qed (simp add: down_loop.simps [of pq i n])

text \<open>The heap the delaying queue keeps, and what it stands for.\<close>

definition pq_ok :: "'k waitFor list \<Rightarrow> bool" where
  "pq_ok pq \<longleftrightarrow> heap_ok pq (length pq) \<and> index_ok pq (length pq)"

lemma heap_Push_ok:
  assumes "pq_ok pq"
  shows "pq_ok (heap_Push pq x) \<and> mset (pq_pairs (heap_Push pq x)) = add_mset (wf_data x, wf_readyAt x) (mset (pq_pairs pq))"
proof -
  let ?q = "pq_Push pq x" and ?n = "length pq"
  have eq: "heap_Push pq x = heap_up ?q ?n" "length ?q = Suc ?n" by (simp_all add: heap_Push_def pq_Push_def Let_def)
  have "pq_key ?q i = pq_key pq i" if "i < ?n" for i using that by (simp add: pq_key_def pq_Push_def nth_append)
  moreover have p: "pq_parent i < ?n" if "i < Suc ?n" "0 < i" for i using that parent_less [of i] by simp
  moreover have "pq_key pq (pq_parent i) \<le> pq_key pq i" if "i < ?n" "0 < i" for i
    using assms that by (simp add: pq_ok_def heap_ok_def)
  ultimately have "pq_key ?q (pq_parent i) \<le> pq_key ?q i" if "i < ?n" "0 < i" for i
    using that by (metis less_SucI)
  moreover have "pq_parent i \<noteq> ?n" if "i < Suc ?n" "0 < i" for i using p [OF that] by simp
  ultimately have "up_ok ?q ?n (length ?q)"
    unfolding up_ok_def eq(2) by (metis less_Suc_eq)
  then have "heap_ok (heap_up ?q ?n) (length ?q)" using eq(2) by (intro heap_up_ok) simp_all
  moreover have "index_ok ?q (length ?q)"
    using assms eq(2) by (auto simp: pq_ok_def index_ok_def pq_Push_def nth_append less_Suc_eq)
  moreover have "mset (pq_pairs ?q) = add_mset (wf_data x, wf_readyAt x) (mset (pq_pairs pq))"
    by (simp add: pq_pairs_def pq_Push_def)
  ultimately show ?thesis using heap_up_frame [of ?n ?q] eq by (simp add: pq_ok_def)
qed

lemma heap_Pop_ok:
  assumes "pq_ok pq" "pq \<noteq> []" "heap_Pop pq = (e, pq')"
  shows "pq_ok pq' \<and> wf_data e = wf_data (pq_Peek pq) \<and> wf_readyAt e = wf_readyAt (pq_Peek pq)
    \<and> mset (pq_pairs pq) = add_mset (wf_data e, wf_readyAt e) (mset (pq_pairs pq')) \<and> length pq' < length pq"
proof -
  let ?n = "length pq - 1"
  let ?q = "pq_Swap pq 0 ?n"
  obtain q2 i where d: "down_loop ?q 0 ?n = (q2, i)" by fastforce
  have b: "0 < length pq" "?n < length pq" "?n \<le> length ?q" using assms(2) by simp_all
  note fr = down_loop_frame [OF b(3) d]
  have len: "length q2 = length pq" using fr by simp
  have res: "e = (q2 ! ?n)\<lparr>wf_index := -1\<rparr>" "pq' = take ?n q2"
    using assms(3) d len by (simp_all add: heap_Pop_def heap_down_def pq_Pop_def Let_def)
  have last: "wf_data (q2 ! ?n) = wf_data (pq ! 0)" "wf_readyAt (q2 ! ?n) = wf_readyAt (pq ! 0)"
    using fr b by (auto simp: pq_Swap_def Let_def nth_list_update)
  have "pq_key ?q i = pq_key pq i" if "i < ?n" "0 < i" for i
    using that pq_key_Swap [OF b(1,2), of i] by simp
  then have "down_ok ?q 0 ?n"
    using assms(1) by (auto simp: down_ok_def pq_ok_def heap_ok_def dest: parent_less)
  then have "heap_ok q2 ?n" using down_loop_ok [OF b(3)] d by fastforce
  moreover have "pq_key pq' i = pq_key q2 i" if "i < ?n" for i using that by (simp add: res(2) pq_key_def)
  moreover have "pq_parent i < ?n" if "i < ?n" "0 < i" for i using that parent_less [of i] by simp
  moreover have len': "length pq' = ?n" using len by (simp add: res(2))
  ultimately have h: "heap_ok pq' (length pq')" by (simp add: heap_ok_def)
  have "index_ok ?q ?n"
    using assms(1) b by (auto simp: pq_ok_def index_ok_def pq_Swap_def Let_def nth_list_update)
  then have x: "index_ok pq' (length pq')" using fr len' by (simp add: index_ok_def res(2))
  have "q2 = take ?n q2 @ [q2 ! ?n]"
    using len assms(2) by (metis One_nat_def Suc_pred b(1) lessI take_Suc_conv_app_nth take_all_iff order_refl)
  then have "pq_pairs q2 = pq_pairs (take ?n q2) @ pq_pairs [q2 ! ?n]" by (metis map_append pq_pairs_def)
  then have "mset (pq_pairs pq) = add_mset (wf_data e, wf_readyAt e) (mset (pq_pairs pq'))"
    using fr mset_Swap [OF b(1,2)] by (simp add: res pq_pairs_def)
  then show ?thesis using h x last len' b by (simp add: pq_ok_def res(1) pq_Peek_def)
qed

text \<open>An entry's time is set to an earlier one.\<close>

definition set_ready :: "'k \<Rightarrow> int \<Rightarrow> 'k waitFor list \<Rightarrow> 'k waitFor list" where
  "set_ready k t pq = map (\<lambda>x. if wf_data x = k then x\<lparr>wf_readyAt := t\<rparr> else x) pq"

lemma heap_Fix_ok:
  assumes "pq_ok pq" "i < length pq" "distinct (map wf_data pq)" "t < wf_readyAt (pq ! i)"
  shows "pq_ok (heap_Fix (set_ready (wf_data (pq ! i)) t pq) i)
    \<and> mset (pq_pairs (heap_Fix (set_ready (wf_data (pq ! i)) t pq) i)) = mset (pq_pairs (set_ready (wf_data (pq ! i)) t pq))"
proof -
  let ?q = "set_ready (wf_data (pq ! i)) t pq"
  have same: "wf_data (pq ! j) = wf_data (pq ! i) \<longleftrightarrow> j = i" if "j < length pq" for j
    using assms(2,3) that by (auto simp: distinct_conv_nth)
  have key: "pq_key ?q j = (if j = i then t else pq_key pq j)" if "j < length pq" for j
    using that same by (simp add: set_ready_def pq_key_def)
  have len: "length ?q = length pq" by (simp add: set_ready_def)
  have ord: "pq_key pq (pq_parent j) \<le> pq_key pq j" if "j < length pq" "0 < j" for j
    using assms(1) that by (simp add: pq_ok_def heap_ok_def)
  have lt: "t < pq_key pq i" using assms(4) by (simp add: pq_key_def)
  have "down_loop ?q i (length ?q) = (?q, i)"
  proof (rule down_stops)
    fix c assume c: "c < length ?q" "0 < c" "pq_parent c = i"
    then have "c < length pq" "c \<noteq> i" using parent_less [OF c(2)] c len by auto
    then show "pq_key ?q i \<le> pq_key ?q c"
      using key [OF assms(2)] key [of c] ord [of c] c(2) lt unfolding c(3) by simp
  qed
  then have eq: "heap_Fix ?q i = heap_up ?q i" by (simp add: heap_Fix_def heap_down_def)
  have p: "pq_parent j < length pq" if "j < length pq" "0 < j" for j using that parent_less [of j] by simp
  have "up_ok ?q i (length ?q)"
    unfolding up_ok_def len
  proof (intro conjI allI impI; elim conjE)
    fix j assume j: "j < length pq" "0 < j" "j \<noteq> i"
    then show "pq_key ?q (pq_parent j) \<le> pq_key ?q j" using key p ord [of j] lt by auto
  next
    fix j assume j: "j < length pq" "0 < j" "0 < i" "pq_parent j = i"
    have ne: "j \<noteq> i" "pq_parent i \<noteq> i" using parent_less [OF j(2)] parent_less [OF j(3)] j(4) by simp_all
    have "pq_key pq (pq_parent i) \<le> pq_key pq i" "pq_key pq i \<le> pq_key pq j"
      using ord [OF assms(2) j(3)] ord [OF j(1,2)] j(4) by simp_all
    then show "pq_key ?q (pq_parent i) \<le> pq_key ?q j"
      using ne key [OF p [OF assms(2) j(3)]] key [OF j(1)] by simp
  qed
  then have "heap_ok (heap_up ?q i) (length ?q)" using assms(2) len by (intro heap_up_ok) simp_all
  moreover have "index_ok ?q (length ?q)" using assms(1) by (auto simp: pq_ok_def index_ok_def set_ready_def)
  ultimately show ?thesis using heap_up_frame [of i ?q] assms(2) len eq by (simp add: pq_ok_def)
qed

section \<open>insert\<close>

text \<open>
  The queue with the map of the entries in it, here the set of their items: the pointer to an entry the
  map yields is the entry of the queue with that item.
\<close>

type_synonym 'k waiting = "'k waitFor list \<times> 'k set"

definition insert_entry :: "'k waitFor \<Rightarrow> 'k waiting \<Rightarrow> 'k waiting" where
  "insert_entry entry w = (case w of (q, known) \<Rightarrow>
     if wf_data entry \<in> known then
       (case find (\<lambda>x. wf_data x = wf_data entry) q of
          None \<Rightarrow> (q, known)
        | Some existing \<Rightarrow>
            if wf_readyAt entry < wf_readyAt existing then
              (heap_Fix (set_ready (wf_data entry) (wf_readyAt entry) q) (nat (wf_index existing)), known)
            else (q, known))
     else (heap_Push q entry, insert (wf_data entry) known))"

text \<open>The first statement of the loop that adds ready entries and the two around it.\<close>

definition pop_entry :: "'k waiting \<Rightarrow> 'k waitFor \<times> 'k waiting" where
  "pop_entry w = (case w of (q, known) \<Rightarrow>
     let (entry, q') = heap_Pop q in (entry, (q', known - {wf_data entry})))"

definition waiting_inv :: "'k waiting \<Rightarrow> bool" where
  "waiting_inv w \<longleftrightarrow> pq_ok (fst w) \<and> distinct (map wf_data (fst w)) \<and> snd w = wf_data ` set (fst w)"

definition due_times :: "'k waiting \<Rightarrow> 'k \<Rightarrow> int option" where
  "due_times w = map_of (pq_pairs (fst w))"

lemma map_fst_pairs: "map fst (pq_pairs pq) = map wf_data pq"
  by (simp add: pq_pairs_def)

lemma due_same_entries:
  assumes "mset (pq_pairs pq) = mset (pq_pairs pq')" "distinct (map wf_data pq)"
  shows "map_of (pq_pairs pq) = map_of (pq_pairs pq') \<and> distinct (map wf_data pq')
    \<and> wf_data ` set pq = wf_data ` set pq'"
proof -
  have d: "mset (map wf_data pq) = mset (map wf_data pq')"
    using arg_cong [OF assms(1), of "image_mset fst"] by (simp only: mset_map [symmetric] map_fst_pairs)
  have d': "distinct (map wf_data pq')" using assms(2) d mset_eq_imp_distinct_iff by blast
  have "map_of (pq_pairs pq) = map_of (pq_pairs pq')"
    using map_of_inject_set [of "pq_pairs pq" "pq_pairs pq'"] mset_eq_setD [OF assms(1)] assms(2) d'
    by (simp add: map_fst_pairs)
  then show ?thesis using d' mset_eq_setD [OF d] by simp
qed

text \<open>
  What the delaying queue relies on: entries with an item and a time, at most one of each item, of which
  the queue yields the earliest.
\<close>

locale waiting_entries =
  fixes item :: "'e \<Rightarrow> 'k" and ready :: "'e \<Rightarrow> int" and ins :: "'e \<Rightarrow> 'q \<Rightarrow> 'q" and peek :: "'q \<Rightarrow> 'e"
    and pop :: "'q \<Rightarrow> 'e \<times> 'q" and due :: "'q \<Rightarrow> 'k \<Rightarrow> int option" and inv :: "'q \<Rightarrow> bool"
  assumes ins_inv: "inv q \<Longrightarrow> inv (ins e q)"
    and ins_due: "inv q \<Longrightarrow> due (ins e q) =
          (due q)(item e \<mapsto> case due q (item e) of None \<Rightarrow> ready e | Some t \<Rightarrow> min (ready e) t)"
    and least: "inv q \<Longrightarrow> due q k = Some t \<Longrightarrow> ready (peek q) \<le> t"
    and pop_first: "inv q \<Longrightarrow> due q \<noteq> Map.empty \<Longrightarrow> pop q = (e, q') \<Longrightarrow>
          item e = item (peek q) \<and> ready e = ready (peek q) \<and> due q (item e) = Some (ready e)
          \<and> due q' = (due q)(item e := None) \<and> inv q'"
begin

text \<open>When the first entry's time has not come, no entry's has.\<close>

lemma first_late: "inv q \<Longrightarrow> now < ready (peek q) \<Longrightarrow> due q k = Some t \<Longrightarrow> now < t"
  using least by fastforce

text \<open>A bound on the times of an item is kept: by another entry that respects it, and when the first is popped.\<close>

lemma ins_bound:
  "inv q \<Longrightarrow> (\<And>t. due q k = Some t \<Longrightarrow> T \<le> t) \<Longrightarrow> (item e = k \<Longrightarrow> T \<le> ready e) \<Longrightarrow>
     due (ins e q) k = Some t \<Longrightarrow> T \<le> t"
  by (auto simp: ins_due split: if_splits option.splits)

lemma ins_late:
  assumes "inv q" "\<And>k t. due q k = Some t \<Longrightarrow> now < t" "now < ready e" "due (ins e q) k = Some t"
  shows "now < t"
  using ins_bound [of q k "now + 1" e t] assms by force

lemma pop_bound:
  "inv q \<Longrightarrow> due q \<noteq> Map.empty \<Longrightarrow> pop q = (e, q') \<Longrightarrow> due q' k = Some t \<Longrightarrow> due q k = Some t"
  by (drule (2) pop_first) (auto split: if_splits)

text \<open>Inserting again never makes an item wait longer.\<close>

lemma ins_earlier: "inv q \<Longrightarrow> due q k = Some t \<Longrightarrow> \<exists>t'. due (ins e q) k = Some t' \<and> t' \<le> t"
  by (auto simp: ins_due split: option.split)

end

lemma set_ready_due:
  "map_of (pq_pairs (set_ready k t pq)) k' = (if k' = k \<and> k \<in> wf_data ` set pq then Some t else map_of (pq_pairs pq) k')"
  by (induction pq) (auto simp: pq_pairs_def set_ready_def)

lemma insert_entry_ok:
  assumes "waiting_inv w"
  shows "waiting_inv (insert_entry e w) \<and> due_times (insert_entry e w) =
    (due_times w)(wf_data e \<mapsto> case due_times w (wf_data e) of None \<Rightarrow> wf_readyAt e | Some t' \<Rightarrow> min (wf_readyAt e) t')"
proof -
  obtain q known where w: "w = (q, known)" by fastforce
  have inv: "pq_ok q" "distinct (map wf_data q)" "known = wf_data ` set q"
    using assms by (simp_all add: waiting_inv_def w)
  let ?k = "wf_data e" and ?t = "wf_readyAt e"
  show ?thesis
  proof (cases "?k \<in> known")
    case False
    have m: "mset (pq_pairs (heap_Push q e)) = mset (pq_pairs (e # q))" and ok: "pq_ok (heap_Push q e)"
      using heap_Push_ok [OF inv(1), of e] by (simp_all add: pq_pairs_def)
    have d: "distinct (map wf_data (e # q))" using False inv by simp
    have "map_of (pq_pairs q) ?k = None" using False inv(3) by (auto simp: map_of_eq_None_iff pq_pairs_def)
    then show ?thesis using due_same_entries [OF m [symmetric] d] ok False inv(3)
      by (simp add: w insert_entry_def waiting_inv_def due_times_def pq_pairs_def)
  next
    case True
    then obtain x where x: "find (\<lambda>x. wf_data x = ?k) q = Some x"
      using inv(3) by (cases "find (\<lambda>x. wf_data x = ?k) q") (auto simp: find_None_iff)
    then obtain i where i: "i < length q" "q ! i = x" "wf_data (q ! i) = ?k" by (auto simp: find_Some_iff)
    then have idx: "nat (wf_index x) = i" using inv(1) by (auto simp: pq_ok_def index_ok_def)
    have "(wf_data (q ! i), wf_readyAt (q ! i)) \<in> set (pq_pairs q)" using i(1) by (auto simp: pq_pairs_def)
    then have "(?k, wf_readyAt x) \<in> set (pq_pairs q)" using i(2,3) by simp
    then have old: "map_of (pq_pairs q) ?k = Some (wf_readyAt x)" using inv(2) by (simp add: map_fst_pairs)
    show ?thesis
    proof (cases "?t < wf_readyAt x")
      case lt: True
      let ?q = "set_ready ?k ?t q"
      have fixed: "pq_ok (heap_Fix ?q i)" "mset (pq_pairs (heap_Fix ?q i)) = mset (pq_pairs ?q)"
        using heap_Fix_ok [OF inv(1) i(1) inv(2), of ?t] lt i(2,3) by simp_all
      have data: "map wf_data ?q = map wf_data q" by (simp add: set_ready_def)
      have "map_of (pq_pairs ?q) = (map_of (pq_pairs q))(?k \<mapsto> ?t)"
        using True inv(3) by (simp add: fun_eq_iff set_ready_due)
      moreover have "wf_data ` set ?q = known" using arg_cong [OF data, of set] inv(3) by simp
      ultimately show ?thesis
        using due_same_entries [OF fixed(2) [symmetric]] fixed(1) inv(2) data lt True x idx old
        by (simp add: w insert_entry_def waiting_inv_def due_times_def min_def)
    next
      case False
      then have "insert_entry e w = w" using True x by (simp add: w insert_entry_def)
      then show ?thesis using False old assms by (auto simp: w due_times_def min_def fun_eq_iff)
    qed
  qed
qed

lemma pop_entry_ok:
  assumes "waiting_inv w" "pop_entry w = (e, w')" "fst w \<noteq> []"
  shows "due_times w (wf_data e) = Some (wf_readyAt e) \<and> due_times w' = (due_times w)(wf_data e := None)
    \<and> waiting_inv w' \<and> wf_data e = wf_data (pq_Peek (fst w)) \<and> wf_readyAt e = wf_readyAt (pq_Peek (fst w))
    \<and> length (fst w') < length (fst w)"
proof -
  obtain q q' where q: "fst w = q" "heap_Pop q = (e, q')" "w' = (q', snd w - {wf_data e})"
    using assms(2) by (auto simp: pop_entry_def split: prod.splits)
  have inv: "pq_ok q" "distinct (map wf_data q)" "snd w = wf_data ` set q"
    using assms(1) by (simp_all add: waiting_inv_def q(1))
  note ok = heap_Pop_ok [OF inv(1) assms(3) [unfolded q(1)] q(2)]
  then have "mset (pq_pairs q) = mset (pq_pairs (e # q'))" by (simp add: pq_pairs_def)
  note same = due_same_entries [OF this inv(2)]
  then have d: "wf_data e \<notin> wf_data ` set q'" "distinct (map wf_data q')" by auto
  then have "map_of (pq_pairs q') (wf_data e) = None" by (auto simp: map_of_eq_None_iff pq_pairs_def)
  then show ?thesis using same ok d inv(3) q
    by (auto simp: due_times_def waiting_inv_def pq_pairs_def fun_eq_iff)
qed

lemma due_times_Nil: "due_times w = Map.empty \<longleftrightarrow> fst w = []"
  by (auto simp: due_times_def pq_pairs_def)

lemma peek_least:
  assumes "waiting_inv w" "due_times w k = Some t"
  shows "wf_readyAt (pq_Peek (fst w)) \<le> t"
proof -
  obtain i where "i < length (fst w)" "wf_readyAt (fst w ! i) = t"
    using map_of_SomeD [OF assms(2) [unfolded due_times_def]] by (auto simp: pq_pairs_def in_set_conv_nth)
  then show ?thesis using heap_min [of "fst w" "length (fst w)" i] assms(1)
    by (simp add: waiting_inv_def pq_ok_def pq_key_def pq_Peek_def)
qed

interpretation wait_heap: waiting_entries wf_data wf_readyAt insert_entry "\<lambda>w. pq_Peek (fst w)" pop_entry
  due_times waiting_inv
proof unfold_locales
  fix w w' :: "'a waiting" and e :: "'a waitFor" and k :: 'a and t :: int
  show "waiting_inv w \<Longrightarrow> waiting_inv (insert_entry e w)" by (simp add: insert_entry_ok)
  show "waiting_inv w \<Longrightarrow> due_times (insert_entry e w) = (due_times w)(wf_data e \<mapsto>
      case due_times w (wf_data e) of None \<Rightarrow> wf_readyAt e | Some t \<Rightarrow> min (wf_readyAt e) t)"
    by (simp add: insert_entry_ok)
  show "waiting_inv w \<Longrightarrow> due_times w k = Some t \<Longrightarrow> wf_readyAt (pq_Peek (fst w)) \<le> t" by (rule peek_least)
  assume w: "waiting_inv w" "due_times w \<noteq> Map.empty" "pop_entry w = (e, w')"
  then show "wf_data e = wf_data (pq_Peek (fst w)) \<and> wf_readyAt e = wf_readyAt (pq_Peek (fst w))
      \<and> due_times w (wf_data e) = Some (wf_readyAt e) \<and> due_times w' = (due_times w)(wf_data e := None)
      \<and> waiting_inv w'"
    using pop_entry_ok [OF w(1,3)] w(2) unfolding due_times_Nil by blast
qed

end
