(* ===== verification/DelayingQueue.thy ===== *)
theory DelayingQueue
  imports WorkQueue WaitHeap
begin

text \<open>
  The rate limited queue with its clock: the rate limiter that decides how long a failed item waits, the
  channel and the goroutine \<open>waitingLoop\<close> that keep an item until its time has come, and what the worker
  and the users of the queue do meanwhile. Every statement of the loop is a step, so the steps of the
  other goroutines come between any two of them. The queue of \<open>WorkQueue\<close>, in which the time is an
  environment, is what this one refines.
\<close>

section \<open>Rate limiters\<close>

text \<open>Durations are nanoseconds.\<close>

definition millisecond :: int where "millisecond = 1000000"
definition maxDuration :: int where "maxDuration = 2 ^ 63 - 1"

text \<open>
  \<open>ItemExponentialFailureRateLimiter\<close>. The product is computed in \<open>float64\<close>, where it is exact: the
  mantissa is the one of the base delay, and what is not finite is greater than the bound.
\<close>

definition exponential_When :: "int \<Rightarrow> int \<Rightarrow> 'k \<Rightarrow> ('k \<Rightarrow> nat) \<Rightarrow> int \<times> ('k \<Rightarrow> nat)" where
  "exponential_When baseDelay maxDelay k failures =
     (let exp = failures k;
          failures' = failures(k := failures k + 1);
          backoff = baseDelay * 2 ^ exp
      in if maxDuration < backoff then (maxDelay, failures')
         else if maxDelay < backoff then (maxDelay, failures')
         else (backoff, failures'))"

text \<open>
  \<open>DefaultControllerRateLimiter\<close>: the greater of the exponential delay and the one of the token bucket,
  whose answer is an argument.
\<close>

definition default_When :: "int \<Rightarrow> 'k \<Rightarrow> ('k \<Rightarrow> nat) \<Rightarrow> int \<times> ('k \<Rightarrow> nat)" where
  "default_When bucket k failures =
     (let (curr, failures') = exponential_When (5 * millisecond) (1000000 * millisecond) k failures;
          ret1 = (if 0 < curr then curr else 0);
          ret2 = (if ret1 < bucket then bucket else ret1)
      in (ret2, failures'))"

lemma default_When_delay:
  "failures k < maxRetries \<Longrightarrow>
     default_When b k failures = (max (5 * millisecond * 2 ^ failures k) b, failures(k := Suc (failures k)))"
  by (auto simp: default_When_def exponential_When_def Let_def maxRetries_def millisecond_def maxDuration_def max_def
      less_Suc_eq numeral_3_eq_3)

lemma default_When_counts: "snd (default_When b k failures) = failures(k := Suc (failures k))"
  by (simp add: default_When_def exponential_When_def Let_def split: prod.split)

section \<open>The delaying queue\<close>

text \<open>Where \<open>waitingLoop\<close> is: at its top, adding ready entries, in the select, draining the channel, or done.\<close>

datatype loop_pc = LoopTop | AddReady | Select | Drain | Returned

text \<open>\<open>dq_now\<close> and \<open>dq_timer\<close> are the loop's variables; \<open>dq_timer\<close> is when \<open>nextReadyAt\<close> fires, if it does.\<close>

record 'k dqueue =
  dq_q :: "'k wqueue"
  dq_ch :: "'k waitFor list"
  dq_stopped :: bool
  dq_failures :: "'k \<Rightarrow> nat"
  dq_pc :: loop_pc
  dq_wait :: "'k waiting"
  dq_now :: int
  dq_timer :: "int option"
  dq_clock :: int

definition NewDelayingQueue :: "int \<Rightarrow> 'k dqueue" where
  "NewDelayingQueue t =
     \<lparr> dq_q = newQueue, dq_ch = [], dq_stopped = False, dq_failures = (\<lambda>_. 0), dq_pc = LoopTop,
       dq_wait = ([], {}), dq_now = t, dq_timer = None, dq_clock = t \<rparr>"

definition dq_Add :: "'k \<Rightarrow> 'k dqueue \<Rightarrow> 'k dqueue" where
  "dq_Add k d = d\<lparr>dq_q := wq_Add k (dq_q d)\<rparr>"

definition chanCapacity :: nat where "chanCapacity = 1000"

text \<open>\<open>None\<close>: the caller waits until the channel has room or is told to stop.\<close>

definition dq_AddAfter :: "'k \<Rightarrow> int \<Rightarrow> 'k dqueue \<Rightarrow> 'k dqueue option" where
  "dq_AddAfter k duration d =
     (if wq_shuttingDown (dq_q d) then Some d
      else if duration \<le> 0 then Some (dq_Add k d)
      else if dq_stopped d then Some d
      else if length (dq_ch d) < chanCapacity then
        Some (d\<lparr>dq_ch := dq_ch d @ [\<lparr> wf_data = k, wf_readyAt = dq_clock d + duration, wf_index = 0 \<rparr>]\<rparr>)
      else None)"

definition dq_AddRateLimited :: "int \<Rightarrow> 'k \<Rightarrow> 'k dqueue \<Rightarrow> 'k dqueue option" where
  "dq_AddRateLimited bucket k d =
     (let (duration, failures') = default_When bucket k (dq_failures d)
      in dq_AddAfter k duration (d\<lparr>dq_failures := failures'\<rparr>))"

definition dq_ShutDown :: "'k dqueue \<Rightarrow> 'k dqueue" where
  "dq_ShutDown d = (if dq_stopped d then d else d\<lparr>dq_q := wq_ShutDown (dq_q d), dq_stopped := True\<rparr>)"

section \<open>waitingLoop\<close>

text \<open>An entry that came through the channel.\<close>

definition receive :: "'k waitFor \<Rightarrow> 'k dqueue \<Rightarrow> 'k dqueue" where
  "receive waitEntry d =
     (if dq_clock d < wf_readyAt waitEntry then d\<lparr>dq_wait := insert_entry waitEntry (dq_wait d)\<rparr>
      else dq_Add (wf_data waitEntry) d)"

text \<open>No entry is ready at the time the loop has read.\<close>

definition none_ready :: "'k dqueue \<Rightarrow> bool" where
  "none_ready d \<longleftrightarrow> fst (dq_wait d) = [] \<or> dq_now d < wf_readyAt (pq_Peek (fst (dq_wait d)))"

definition armed_timer :: "'k dqueue \<Rightarrow> int option" where
  "armed_timer d =
     (if fst (dq_wait d) = [] then None
      else Some (dq_clock d + (wf_readyAt (pq_Peek (fst (dq_wait d))) - dq_now d)))"

inductive loop_step :: "'k dqueue \<Rightarrow> 'k dqueue \<Rightarrow> bool" where
  loop_quit: "dq_pc d = LoopTop \<Longrightarrow> wq_shuttingDown (dq_q d) \<Longrightarrow> loop_step d (d\<lparr>dq_pc := Returned\<rparr>)"
| loop_now: "dq_pc d = LoopTop \<Longrightarrow> \<not> wq_shuttingDown (dq_q d) \<Longrightarrow>
     loop_step d (d\<lparr>dq_now := dq_clock d, dq_pc := AddReady\<rparr>)"
| loop_add: "dq_pc d = AddReady \<Longrightarrow> \<not> none_ready d \<Longrightarrow> pop_entry (dq_wait d) = (entry, w) \<Longrightarrow>
     loop_step d (dq_Add (wf_data entry) (d\<lparr>dq_wait := w\<rparr>))"
| loop_arm: "dq_pc d = AddReady \<Longrightarrow> none_ready d \<Longrightarrow> loop_step d (d\<lparr>dq_timer := armed_timer d, dq_pc := Select\<rparr>)"
| loop_stop: "dq_pc d = Select \<Longrightarrow> dq_stopped d \<Longrightarrow> loop_step d (d\<lparr>dq_pc := Returned\<rparr>)"
| loop_heartbeat: "dq_pc d = Select \<Longrightarrow> loop_step d (d\<lparr>dq_pc := LoopTop\<rparr>)"
| loop_timer: "dq_pc d = Select \<Longrightarrow> dq_timer d = Some t \<Longrightarrow> t \<le> dq_clock d \<Longrightarrow> loop_step d (d\<lparr>dq_pc := LoopTop\<rparr>)"
| loop_receive: "dq_pc d = Select \<Longrightarrow> dq_ch d = e # es \<Longrightarrow>
     loop_step d (receive e (d\<lparr>dq_ch := es, dq_pc := Drain\<rparr>))"
| loop_drain: "dq_pc d = Drain \<Longrightarrow> dq_ch d = e # es \<Longrightarrow> 
     loop_step d (receive e (d\<lparr>dq_ch := es, dq_pc := Drain\<rparr>))"
| loop_drained: "dq_pc d = Drain \<Longrightarrow> dq_ch d = [] \<Longrightarrow> loop_step d (d\<lparr>dq_pc := LoopTop\<rparr>)"

section \<open>The queue in use\<close>

definition dq_Enqueue :: "'k \<Rightarrow> 'k dqueue \<Rightarrow> 'k dqueue" where
  "dq_Enqueue k d = (if wq_shuttingDown (dq_q d) then d else dq_Add k d)"

definition dq_Forget :: "'k \<Rightarrow> 'k dqueue \<Rightarrow> 'k dqueue" where
  "dq_Forget k d = d\<lparr>dq_failures := (dq_failures d)(k := 0)\<rparr>"

definition dq_handleSyncError :: "'e option \<Rightarrow> int \<Rightarrow> 'k \<Rightarrow> 'k dqueue \<Rightarrow> 'k dqueue option" where
  "dq_handleSyncError err bucket k d =
     (case err of
        None \<Rightarrow> Some (dq_Forget k d)
      | Some e \<Rightarrow> if dq_failures d k < maxRetries then dq_AddRateLimited bucket k d else Some (dq_Forget k d))"

definition dq_finish :: "'e option \<Rightarrow> int \<Rightarrow> 'k \<Rightarrow> 'k dqueue \<Rightarrow> 'k dqueue option" where
  "dq_finish err bucket k d = map_option (\<lambda>d. d\<lparr>dq_q := wq_Done k (dq_q d)\<rparr>) (dq_handleSyncError err bucket k d)"

text \<open>Operations of the queue that the controller does not call.\<close>

definition dq_EnqueueRateLimited :: "int \<Rightarrow> 'k \<Rightarrow> 'k dqueue \<Rightarrow> 'k dqueue option" where
  "dq_EnqueueRateLimited bucket k d = (if wq_shuttingDown (dq_q d) then Some d else dq_AddRateLimited bucket k d)"

definition dq_EnqueueAfter :: "'k \<Rightarrow> int \<Rightarrow> 'k dqueue \<Rightarrow> 'k dqueue option" where
  "dq_EnqueueAfter k after d = (if wq_shuttingDown (dq_q d) then Some d else dq_AddAfter k after d)"

definition dq_Dequeue :: "'k \<Rightarrow> 'k dqueue \<Rightarrow> 'k dqueue" where
  "dq_Dequeue k d =
     (if wq_shuttingDown (dq_q d) then d else let d1 = dq_Forget k d in d1\<lparr>dq_q := wq_Done k (dq_q d1)\<rparr>)"

definition SetMaxRetries :: "int \<Rightarrow> int \<Rightarrow> int" where
  "SetMaxRetries n old = (if 0 < n then n else old)"

text \<open>What happens without a call: the loop goes on and time passes.\<close>

inductive quiet_step :: "'k dqueue \<Rightarrow> 'k dqueue \<Rightarrow> bool" where
  quiet_loop: "loop_step d d' \<Longrightarrow> quiet_step d d'"
| quiet_time: "0 \<le> t \<Longrightarrow> quiet_step d (d\<lparr>dq_clock := dq_clock d + t\<rparr>)"

inductive dq_step :: "'k dqueue \<Rightarrow> 'k dqueue \<Rightarrow> bool" where
  step_enqueue: "dq_step d (dq_Enqueue k d)"
| step_take: "wq_Get (dq_q d) = Item k q \<Longrightarrow> dq_step d (d\<lparr>dq_q := q\<rparr>)"
| step_finish: "k \<in> wq_processing (dq_q d) \<Longrightarrow> dq_finish (e :: string option) b k d = Some d' \<Longrightarrow> dq_step d d'"
| step_shutdown: "dq_step d (dq_ShutDown d)"
| step_quiet: "quiet_step d d' \<Longrightarrow> dq_step d d'"

inductive_cases dq_step_cases: "dq_step d d'"
inductive_cases quiet_step_cases: "quiet_step d d'"
inductive_cases loop_step_cases: "loop_step d d'"

section \<open>Refinement of the queue without a clock\<close>

definition dq_items :: "'k dqueue \<Rightarrow> 'k set" where
  "dq_items d = wf_data ` set (dq_ch d) \<union> snd (dq_wait d)"

definition refines :: "'k dqueue \<Rightarrow> 'k rlqueue \<Rightarrow> bool" where
  "refines d r \<longleftrightarrow> rl_q r = dq_q d \<and> rl_failures r = dq_failures d \<and> waiting_inv (dq_wait d)
     \<and> dq_stopped d = wq_shuttingDown (dq_q d) \<and> distinct (rl_waiting r)
     \<and> (if wq_shuttingDown (dq_q d) then dq_items d \<subseteq> set (rl_waiting r) else dq_items d = set (rl_waiting r))"

lemma dq_items_simps [simp]:
  "dq_items (d\<lparr>dq_q := q\<rparr>) = dq_items d" "dq_items (d\<lparr>dq_failures := f\<rparr>) = dq_items d"
  "dq_items (d\<lparr>dq_pc := pc\<rparr>) = dq_items d" "dq_items (d\<lparr>dq_now := t\<rparr>) = dq_items d"
  "dq_items (d\<lparr>dq_timer := tm\<rparr>) = dq_items d" "dq_items (d\<lparr>dq_clock := t\<rparr>) = dq_items d"
  "dq_items (d\<lparr>dq_stopped := b\<rparr>) = dq_items d" "dq_items (dq_Add k d) = dq_items d"
  "dq_items (d\<lparr>dq_ch := dq_ch d @ [e]\<rparr>) = insert (wf_data e) (dq_items d)"
  by (auto simp: dq_items_def dq_Add_def)

lemma refines_new: "refines (NewDelayingQueue t) newRateLimitingQueue"
  by (simp add: refines_def NewDelayingQueue_def newRateLimitingQueue_def newQueue_def waiting_inv_def pq_ok_def
      heap_ok_def index_ok_def dq_items_def)

lemma insert_entry_known: "snd (insert_entry e w) = insert (wf_data e) (snd w)"
  by (auto simp: insert_entry_def split: prod.split option.split)

text \<open>An entry leaves the channel or the heap and its item is added.\<close>

lemma refines_add:
  assumes "refines d r" "dq_q d0 = dq_q d" "dq_failures d0 = dq_failures d" "dq_stopped d0 = dq_stopped d"
    and "waiting_inv (dq_wait d0)" "dq_items d = insert k (dq_items d0)"
  shows "\<exists>r'. rl_op\<^sup>=\<^sup>= r r' \<and> refines (dq_Add k d0) r'"
proof -
  have items: "dq_items (dq_Add k d0) = dq_items d0" by (simp add: dq_Add_def dq_items_def)
  consider (shut) "wq_shuttingDown (dq_q d)" | (again) "\<not> wq_shuttingDown (dq_q d)" "k \<in> dq_items d0"
    | (last) "\<not> wq_shuttingDown (dq_q d)" "k \<notin> dq_items d0" by blast
  then show ?thesis
  proof cases
    case shut
    then have "refines (dq_Add k d0) r" using assms items by (simp add: refines_def dq_Add_def wq_Add_def)
    then show ?thesis by blast
  next
    case again
    then have "k \<in> set (rl_waiting r)" "refines (dq_Add k d0) (rl_Add k r)"
      using assms items by (auto simp: refines_def rl_Add_def dq_Add_def wq.add_closed)
    then show ?thesis by (blast intro: op_timer fires_early)
  next
    case last
    then have "refines (dq_Add k d0) (rl_Fire k r)"
      using assms items by (auto simp: refines_def rl_Fire_def rl_Add_def dq_Add_def wq.add_closed distinct_removeAll)
    then show ?thesis by (blast intro: op_timer fires)
  qed
qed

lemma refines_receive:
  assumes "refines d r" "dq_ch d = e # es"
  shows "\<exists>r'. rl_op\<^sup>=\<^sup>= r r' \<and> refines (receive e (d\<lparr>dq_ch := es, dq_pc := pc\<rparr>)) r'"
proof (cases "dq_clock d < wf_readyAt e")
  case True
  let ?d = "receive e (d\<lparr>dq_ch := es, dq_pc := pc\<rparr>)"
  have "dq_items ?d = dq_items d" using True assms(2) by (auto simp: receive_def dq_items_def insert_entry_known)
  then have "refines ?d r" using True assms(1) by (auto simp: refines_def receive_def insert_entry_ok)
  then show ?thesis by blast
next
  case False
  have "dq_items d = insert (wf_data e) (dq_items (d\<lparr>dq_ch := es, dq_pc := pc\<rparr>))"
    using assms(2) by (simp add: dq_items_def)
  from refines_add [OF assms(1) _ _ _ _ this] show ?thesis using False assms(1) by (simp add: receive_def refines_def)
qed

lemma refines_loop:
  assumes step: "loop_step d d'" and ref: "refines d r"
  shows "\<exists>r'. rl_op\<^sup>=\<^sup>= r r' \<and> refines d' r'"
  using step
proof cases
  case (loop_add entry w)
  then have ne: "fst (dq_wait d) \<noteq> []" by (simp add: none_ready_def)
  have inv: "waiting_inv (dq_wait d)" using ref by (simp add: refines_def)
  note p = pop_entry_ok [OF inv loop_add(4) ne]
  have "wf_data entry \<in> snd (dq_wait d)"
    using p inv ne by (auto simp: waiting_inv_def pq_Peek_def)
  moreover have "snd w = snd (dq_wait d) - {wf_data entry}"
    using loop_add(4) by (auto simp: pop_entry_def split: prod.splits)
  ultimately have "dq_items d = insert (wf_data entry) (dq_items (d\<lparr>dq_wait := w\<rparr>))" by (auto simp: dq_items_def)
  from refines_add [OF ref _ _ _ _ this] p show ?thesis using loop_add(1) by simp
next
  case (loop_receive e es)
  then show ?thesis using refines_receive [OF ref loop_receive(3), of Drain] by simp
next
  case (loop_drain e es)
  then show ?thesis using refines_receive [OF ref loop_drain(3), of Drain] by simp
qed (use ref in \<open>auto simp: refines_def\<close>)

lemma refines_AddAfter:
  assumes "refines d r" "dq_AddAfter k t d = Some d'" "0 < t"
  shows "refines d' (rl_AddAfter k r)"
proof (cases "wq_shuttingDown (dq_q d)")
  case True
  then show ?thesis using assms by (auto simp: dq_AddAfter_def rl_AddAfter_def refines_def)
next
  case False
  then have "d' = d\<lparr>dq_ch := dq_ch d @ [\<lparr> wf_data = k, wf_readyAt = dq_clock d + t, wf_index = 0 \<rparr>]\<rparr>"
    using assms by (auto simp: dq_AddAfter_def refines_def split: if_splits)
  then show ?thesis using False assms(1) by (auto simp: rl_AddAfter_def refines_def)
qed

lemma refines_Done: "refines d r \<Longrightarrow> refines (d\<lparr>dq_q := wq_Done k (dq_q d)\<rparr>) (rl_Done k r)"
  by (simp add: refines_def rl_Done_def wq.done_closed)

lemma refines_finish:
  assumes ref: "refines d r" and fin: "dq_finish (e :: string option) b k d = Some d'"
  shows "refines d' (sq_finish e k r)"
proof (cases "e = None \<or> \<not> dq_failures d k < maxRetries")
  case True
  then have "d' = (dq_Forget k d)\<lparr>dq_q := wq_Done k (dq_q d)\<rparr>"
    using fin by (auto simp: dq_finish_def dq_handleSyncError_def dq_Forget_def split: option.splits)
  moreover have "sq_finish e k r = rl_Done k (rl_Forget k r)"
    using True ref by (auto simp: sq_finish_def sq_handleSyncError_def rl_NumRequeues_def refines_def split: option.split)
  ultimately show ?thesis
    using ref by (simp add: refines_def dq_Forget_def rl_Forget_def rl_Done_def wq.done_closed)
next
  case False
  then obtain x where e: "e = Some x" and lt: "dq_failures d k < maxRetries" by auto
  let ?f = "(dq_failures d)(k := Suc (dq_failures d k))"
  let ?t = "max (5 * millisecond * 2 ^ dq_failures d k) b"
  have pos: "0 < ?t" by (simp add: millisecond_def less_max_iff_disj)
  have "dq_handleSyncError e b k d = dq_AddAfter k ?t (d\<lparr>dq_failures := ?f\<rparr>)"
    using lt by (simp add: e dq_handleSyncError_def dq_AddRateLimited_def default_When_delay [where failures = "dq_failures d", OF lt])
  moreover have "sq_finish e k r = rl_Done k (rl_AddAfter k (r\<lparr>rl_failures := ?f\<rparr>))"
    using lt ref by (simp add: e sq_finish_def sq_handleSyncError_def rl_NumRequeues_def rl_AddRateLimited_def refines_def)
  moreover have "dq_AddAfter k ?t (d\<lparr>dq_failures := ?f\<rparr>) \<noteq> None"
    using fin calculation(1) by (auto simp: dq_finish_def)
  moreover have "refines (d\<lparr>dq_failures := ?f\<rparr>) (r\<lparr>rl_failures := ?f\<rparr>)" using ref by (simp add: refines_def)
  ultimately show ?thesis
    using fin refines_AddAfter [OF _ _ pos, of "d\<lparr>dq_failures := ?f\<rparr>" "r\<lparr>rl_failures := ?f\<rparr>" k] refines_Done
    by (auto simp: dq_finish_def)
qed

lemma refines_step:
  assumes "dq_step d d'" "refines d r"
  shows "\<exists>r'. rl_op\<^sup>=\<^sup>= r r' \<and> refines d' r'"
  using assms(1)
proof cases
  case (step_enqueue k)
  then have "refines d' (sq_Enqueue k r)"
    using assms(2) by (simp add: refines_def dq_Enqueue_def sq_Enqueue_def dq_Add_def rl_Add_def wq.add_closed)
  then show ?thesis by (blast intro: op_enqueue)
next
  case (step_take k q)
  then have "wq_Get (rl_q r) = Item k q" "wq_shuttingDown q = wq_shuttingDown (dq_q d)"
    using assms(2) by (auto simp: refines_def wq_Get_def split: list.splits if_splits)
  moreover have "refines d' (r\<lparr>rl_q := q\<rparr>)"
    using assms(2) step_take(1) calculation(2) by (simp add: refines_def)
  ultimately show ?thesis by (blast intro: op_take)
next
  case (step_finish k e b)
  then have "k \<in> wq_processing (rl_q r)" using assms(2) by (simp add: refines_def)
  then show ?thesis using refines_finish [OF assms(2) step_finish(2)] by (blast intro: op_finish)
next
  case step_shutdown
  then have "refines d' (rl_ShutDown r)"
    using assms(2) by (auto simp: refines_def dq_ShutDown_def rl_ShutDown_def wq_ShutDown_def)
  then show ?thesis by (blast intro: op_shutdown)
next
  case step_quiet
  then show ?thesis
  proof cases
    case quiet_loop
    then show ?thesis using refines_loop assms(2) by blast
  next
    case (quiet_time t)
    then have "refines d' r" using assms(2) by (simp add: refines_def)
    then show ?thesis by blast
  qed
qed

lemma refines_run:
  assumes "dq_step\<^sup>*\<^sup>* (NewDelayingQueue t) d"
  shows "\<exists>r. rl_op\<^sup>*\<^sup>* newRateLimitingQueue r \<and> refines d r"
  using assms
proof (induction rule: rtranclp_induct)
  case base
  then show ?case using refines_new by blast
next
  case (step d d')
  then obtain r where r: "rl_op\<^sup>*\<^sup>* newRateLimitingQueue r" "refines d r" by blast
  from refines_step [OF step(2) r(2)] obtain r' where r': "rl_op r r' \<or> r = r'" "refines d' r'" by auto
  have "rl_op\<^sup>*\<^sup>* newRateLimitingQueue r'" using r(1) r'(1) by (auto intro: rtranclp.rtrancl_into_rtrancl)
  then show ?case using r'(2) by blast
qed

section \<open>Time\<close>

text \<open>
  What holds whenever the queue is in use: the heap is one, the loop's time is in the past, the loop has
  only returned when the queue is shutting down, and while it selects or drains the channel nothing in
  the heap is due at the time it has read.
\<close>

definition timely :: "'k dqueue \<Rightarrow> bool" where
  "timely d \<longleftrightarrow> waiting_inv (dq_wait d) \<and> dq_now d \<le> dq_clock d
     \<and> (dq_pc d = Returned \<longrightarrow> wq_shuttingDown (dq_q d)) \<and> dq_stopped d = wq_shuttingDown (dq_q d)
     \<and> (dq_pc d \<in> {Select, Drain} \<longrightarrow> (\<forall>k t. due_times (dq_wait d) k = Some t \<longrightarrow> dq_now d < t))
     \<and> (dq_pc d = Select \<and> fst (dq_wait d) \<noteq> [] \<longrightarrow> dq_timer d \<noteq> None)"

lemma timely_new: "timely (NewDelayingQueue t)"
  by (simp add: timely_def NewDelayingQueue_def newQueue_def waiting_inv_def pq_ok_def heap_ok_def index_ok_def)

lemma timely_Add [simp]: "timely (dq_Add k d) = timely d"
  by (simp add: timely_def dq_Add_def wq.add_closed)

lemma timely_update [simp]:
  "timely (d\<lparr>dq_failures := f\<rparr>) = timely d" "timely (d\<lparr>dq_ch := es\<rparr>) = timely d"
  "timely (d\<lparr>dq_q := wq_Done k (dq_q d)\<rparr>) = timely d"
  by (simp_all add: timely_def wq.done_closed)

lemma timely_receive:
  assumes "timely d" "dq_pc d \<in> {Select, Drain}"
  shows "timely (receive e (d\<lparr>dq_ch := es, dq_pc := Drain\<rparr>))"
proof (cases "dq_clock d < wf_readyAt e")
  case True
  have inv: "waiting_inv (dq_wait d)" "\<And>k t. due_times (dq_wait d) k = Some t \<Longrightarrow> dq_now d < t"
    and late: "dq_now d < wf_readyAt e" using assms True by (auto simp: timely_def)
  then have "\<forall>k t. due_times (insert_entry e (dq_wait d)) k = Some t \<longrightarrow> dq_now d < t"
    using wait_heap.ins_late [OF inv(1) _ late] inv(2) by metis
  then show ?thesis using True assms wait_heap.ins_inv [OF inv(1)] by (simp add: timely_def receive_def)
next
  case False
  then show ?thesis using assms by (auto simp: timely_def receive_def dq_Add_def wq.add_closed)
qed

lemma none_ready_late:
  "none_ready d \<Longrightarrow> waiting_inv (dq_wait d) \<Longrightarrow> due_times (dq_wait d) k = Some t \<Longrightarrow> dq_now d < t"
  using wait_heap.first_late [of "dq_wait d" "dq_now d" k t] due_times_Nil [of "dq_wait d"] by (auto simp: none_ready_def)

lemma timely_loop:
  assumes step: "loop_step d d'" and inv: "timely d"
  shows "timely d'"
  using step
proof cases
  case (loop_add entry w)
  then have "waiting_inv w" using pop_entry_ok inv by (fastforce simp: none_ready_def timely_def)
  then have "timely (d\<lparr>dq_wait := w\<rparr>)" using loop_add(2) inv by (auto simp: timely_def)
  then show ?thesis using loop_add(1) by simp
next
  case loop_arm
  then show ?thesis using inv none_ready_late by (auto simp: timely_def armed_timer_def)
next
  case (loop_receive e es)
  then show ?thesis using timely_receive [OF inv] by simp
next
  case (loop_drain e es)
  then show ?thesis using timely_receive [OF inv, of e es] by simp
qed (use inv in \<open>auto simp: timely_def\<close>)

lemma timely_finish:
  assumes "dq_finish e b k d = Some d'" "timely d"
  shows "timely d'"
proof -
  obtain d1 where d1: "dq_handleSyncError e b k d = Some d1" "d' = d1\<lparr>dq_q := wq_Done k (dq_q d1)\<rparr>"
    using assms(1) by (auto simp: dq_finish_def)
  have "timely d1"
    using d1(1) assms(2)
    by (auto simp: dq_handleSyncError_def dq_Forget_def dq_AddRateLimited_def dq_AddAfter_def split: option.splits if_splits prod.splits)
  then show ?thesis using d1(2) by simp
qed

lemma timely_other_calls:
  assumes "timely d"
  shows "dq_EnqueueRateLimited b k d = Some d' \<Longrightarrow> timely d'" "dq_EnqueueAfter k t d = Some d' \<Longrightarrow> timely d'"
    "timely (dq_Dequeue k d)"
  using assms
  by (auto simp: dq_EnqueueRateLimited_def dq_EnqueueAfter_def dq_Dequeue_def dq_AddRateLimited_def dq_AddAfter_def
      dq_Forget_def Let_def split: if_splits prod.splits)
     (metis dqueue.surjective dqueue.update_convs(1,4) timely_update(1,3))

lemma timely_step:
  assumes "dq_step d d'" "timely d"
  shows "timely d'"
  using assms(1)
proof cases
  case (step_enqueue k)
  then show ?thesis using assms(2) by (simp add: dq_Enqueue_def)
next
  case (step_take k q)
  then show ?thesis using assms(2) by (auto simp: timely_def wq_Get_def split: list.splits if_splits)
next
  case (step_finish k e b)
  from timely_finish [OF step_finish(2) assms(2)] show ?thesis .
next
  case step_shutdown
  then show ?thesis using assms(2) by (auto simp: timely_def dq_ShutDown_def wq_ShutDown_def)
next
  case step_quiet
  then show ?thesis
  proof cases
    case quiet_loop
    then show ?thesis using timely_loop assms(2) by blast
  next
    case (quiet_time t)
    then show ?thesis using assms(2) by (auto simp: timely_def)
  qed
qed

lemma timely_run: "dq_step\<^sup>*\<^sup>* (NewDelayingQueue t) d \<Longrightarrow> timely d"
  by (induction rule: rtranclp_induct) (auto intro: timely_new timely_step)

subsection \<open>Not before its time\<close>

text \<open>No entry of the item is due before \<open>T\<close>, and the item is not pending before.\<close>

definition not_before :: "int \<Rightarrow> 'k \<Rightarrow> 'k dqueue \<Rightarrow> bool" where
  "not_before T k d \<longleftrightarrow> (\<forall>e \<in> set (dq_ch d). wf_data e = k \<longrightarrow> T \<le> wf_readyAt e)
     \<and> (\<forall>t. due_times (dq_wait d) k = Some t \<longrightarrow> T \<le> t) \<and> (k \<in> wq_dirty (dq_q d) \<longrightarrow> T \<le> dq_clock d)"

lemma not_before_Add: "not_before T k d \<Longrightarrow> (k' = k \<Longrightarrow> T \<le> dq_clock d) \<Longrightarrow> not_before T k (dq_Add k' d)"
  by (auto simp: not_before_def dq_Add_def wq.add_pend split: if_splits)

lemma not_before_receive:
  assumes "not_before T k d" "waiting_inv (dq_wait d)" "dq_ch d = e # es"
  shows "not_before T k (receive e (d\<lparr>dq_ch := es, dq_pc := pc\<rparr>))"
proof (cases "dq_clock d < wf_readyAt e")
  case True
  have "T \<le> t" if "due_times (insert_entry e (dq_wait d)) k = Some t" for t
    using wait_heap.ins_bound [OF assms(2) _ _ that] assms(1,3) by (simp add: not_before_def)
  then show ?thesis using True assms(1,3) by (simp add: not_before_def receive_def)
next
  case False
  have "not_before T k (d\<lparr>dq_ch := es, dq_pc := pc\<rparr>)" "wf_data e = k \<Longrightarrow> T \<le> wf_readyAt e"
    using assms(1,3) by (auto simp: not_before_def)
  then have "not_before T k (dq_Add (wf_data e) (d\<lparr>dq_ch := es, dq_pc := pc\<rparr>))"
    using False by (intro not_before_Add) auto
  then show ?thesis using False by (simp add: receive_def)
qed

lemma not_before_loop:
  assumes step: "loop_step d d'" and inv: "timely d" and nb: "not_before T k d"
  shows "not_before T k d'"
  using step
proof cases
  case (loop_add entry w)
  have wi: "waiting_inv (dq_wait d)" "dq_now d \<le> dq_clock d" using inv by (simp_all add: timely_def)
  have ne: "due_times (dq_wait d) \<noteq> Map.empty" using loop_add(3) by (simp add: none_ready_def due_times_Nil)
  note p = wait_heap.pop_first [OF wi(1) ne loop_add(4)]
  have "not_before T k (d\<lparr>dq_wait := w\<rparr>)"
    using nb wait_heap.pop_bound [OF wi(1) ne loop_add(4)] by (simp add: not_before_def)
  moreover have "T \<le> dq_clock d" if "wf_data entry = k"
  proof -
    have "T \<le> wf_readyAt entry" using nb p that by (auto simp: not_before_def)
    then show ?thesis using loop_add(3) wi(2) p by (auto simp: none_ready_def)
  qed
  ultimately show ?thesis unfolding loop_add(1) by (intro not_before_Add) simp_all
next
  case (loop_receive e es)
  then show ?thesis using not_before_receive [OF nb _ loop_receive(3)] inv by (simp add: timely_def)
next
  case (loop_drain e es)
  then show ?thesis using not_before_receive [OF nb _ loop_drain(3)] inv by (simp add: timely_def)
qed (use nb in \<open>auto simp: not_before_def\<close>)

lemma not_before_quiet:
  "quiet_step\<^sup>*\<^sup>* d d' \<Longrightarrow> timely d \<Longrightarrow> not_before T k d \<Longrightarrow> timely d' \<and> not_before T k d'"
proof (induction rule: rtranclp_induct)
  case (step d1 d2)
  then have 1: "timely d1" "not_before T k d1" by auto
  from step(2) show ?case
  proof cases
    case quiet_loop
    then show ?thesis using timely_loop [OF _ 1(1)] not_before_loop [OF _ 1] by blast
  next
    case (quiet_time t)
    then show ?thesis using 1 by (auto simp: not_before_def timely_def)
  qed
qed simp

subsection \<open>At its time\<close>

lemma loop_to_select:
  assumes "\<not> wq_shuttingDown (dq_q d)" "dq_pc d = AddReady" "waiting_inv (dq_wait d)"
  shows "\<exists>d'. loop_step\<^sup>*\<^sup>* d d' \<and> dq_pc d' = Select \<and> dq_ch d' = dq_ch d \<and> dq_clock d' = dq_clock d
    \<and> dq_now d' = dq_now d \<and> \<not> wq_shuttingDown (dq_q d')"
  using assms
proof (induction "length (fst (dq_wait d))" arbitrary: d rule: less_induct)
  case less
  show ?case
  proof (cases "none_ready d")
    case True
    then have "loop_step d (d\<lparr>dq_timer := armed_timer d, dq_pc := Select\<rparr>)" using less.prems by (simp add: loop_arm)
    then show ?thesis using less.prems
      by (intro exI [of _ "d\<lparr>dq_timer := armed_timer d, dq_pc := Select\<rparr>"]) auto
  next
    case False
    then have ne: "fst (dq_wait d) \<noteq> []" by (simp add: none_ready_def)
    obtain e w where pop: "pop_entry (dq_wait d) = (e, w)" by (cases "pop_entry (dq_wait d)") simp
    let ?d = "dq_Add (wf_data e) (d\<lparr>dq_wait := w\<rparr>)"
    have st: "loop_step d ?d" using less.prems False pop by (simp add: loop_add)
    note p = pop_entry_ok [OF less.prems(3) pop ne]
    have "length (fst (dq_wait ?d)) < length (fst (dq_wait d))" "\<not> wq_shuttingDown (dq_q ?d)" "dq_pc ?d = AddReady"
        "waiting_inv (dq_wait ?d)"
      using p less.prems by (simp_all add: dq_Add_def wq.add_closed)
    from less.hyps [OF this] obtain d' where "loop_step\<^sup>*\<^sup>* ?d d'" "dq_pc d' = Select" "dq_ch d' = dq_ch ?d"
        "dq_clock d' = dq_clock ?d" "dq_now d' = dq_now ?d" "\<not> wq_shuttingDown (dq_q d')" by blast
    then show ?thesis using converse_rtranclp_into_rtranclp [of loop_step, OF st]
      by (intro exI [of _ d']) (simp add: dq_Add_def)
  qed
qed

lemma loop_to_channel:
  assumes "timely d" "\<not> wq_shuttingDown (dq_q d)"
  shows "\<exists>d'. loop_step\<^sup>*\<^sup>* d d' \<and> dq_pc d' \<in> {Select, Drain} \<and> dq_ch d' = dq_ch d \<and> dq_clock d' = dq_clock d
    \<and> \<not> wq_shuttingDown (dq_q d')"
proof (cases "dq_pc d")
  case LoopTop
  let ?d = "d\<lparr>dq_now := dq_clock d, dq_pc := AddReady\<rparr>"
  have "loop_step d ?d" using LoopTop assms(2) by (simp add: loop_now)
  moreover obtain d' where "loop_step\<^sup>*\<^sup>* ?d d'" "dq_pc d' = Select" "dq_ch d' = dq_ch d" "dq_clock d' = dq_clock d"
      "\<not> wq_shuttingDown (dq_q d')"
    using loop_to_select [of ?d] assms by (auto simp: timely_def)
  ultimately show ?thesis by (intro exI [of _ d']) (auto intro: converse_rtranclp_into_rtranclp)
next
  case AddReady
  then show ?thesis using loop_to_select [OF assms(2)] assms(1) by (auto simp: timely_def)
qed (use assms in \<open>auto simp: timely_def\<close>)

lemma receive_frame:
  "dq_ch (receive e d) = dq_ch d" "dq_pc (receive e d) = dq_pc d" "dq_clock (receive e d) = dq_clock d"
  "wq_shuttingDown (dq_q (receive e d)) = wq_shuttingDown (dq_q d)"
  by (simp_all add: receive_def dq_Add_def wq.add_closed)

lemma loop_drains:
  "dq_pc d \<in> {Select, Drain} \<Longrightarrow>
     \<exists>d'. loop_step\<^sup>*\<^sup>* d d' \<and> dq_pc d' = LoopTop \<and> dq_ch d' = [] \<and> dq_clock d' = dq_clock d"
proof (induction "dq_ch d" arbitrary: d)
  case Nil
  then have "loop_step d (d\<lparr>dq_pc := LoopTop\<rparr>)" using loop_heartbeat [of d] loop_drained [of d] by auto
  then show ?case using Nil(1) by (intro exI [of _ "d\<lparr>dq_pc := LoopTop\<rparr>"]) auto
next
  case (Cons e es)
  let ?d = "receive e (d\<lparr>dq_ch := es, dq_pc := Drain\<rparr>)"
  have st: "loop_step d ?d" using Cons(2,3) loop_receive [of d e es] loop_drain [of d e es] by auto
  obtain d' where "loop_step\<^sup>*\<^sup>* ?d d'" "dq_pc d' = LoopTop" "dq_ch d' = []" "dq_clock d' = dq_clock ?d"
    using Cons(1) [of ?d] by (auto simp: receive_frame)
  then show ?case using st by (intro exI [of _ d']) (auto simp: receive_frame intro: converse_rtranclp_into_rtranclp)
qed

text \<open>The item is pending, or has an entry that is due at \<open>T\<close> at the latest.\<close>

definition on_its_way :: "int \<Rightarrow> 'k \<Rightarrow> 'k dqueue \<Rightarrow> bool" where
  "on_its_way T k d \<longleftrightarrow> k \<in> wq_dirty (dq_q d) \<or> (\<exists>e \<in> set (dq_ch d). wf_data e = k \<and> wf_readyAt e \<le> T)
     \<or> (\<exists>t \<le> T. due_times (dq_wait d) k = Some t)"

lemma on_its_way_Add:
  "\<not> wq_shuttingDown (dq_q d) \<Longrightarrow> k' = k \<or> on_its_way T k d \<Longrightarrow> on_its_way T k (dq_Add k' d)"
  by (auto simp: on_its_way_def dq_Add_def wq.add_pend)

lemma on_its_way_receive:
  assumes "on_its_way T k d" "waiting_inv (dq_wait d)" "dq_ch d = e # es" "\<not> wq_shuttingDown (dq_q d)"
  shows "on_its_way T k (receive e (d\<lparr>dq_ch := es, dq_pc := pc\<rparr>))"
proof (cases "dq_clock d < wf_readyAt e")
  case True
  have "\<exists>t \<le> T. due_times (insert_entry e (dq_wait d)) k = Some t"
    if "(wf_data e = k \<and> wf_readyAt e \<le> T) \<or> (\<exists>t \<le> T. due_times (dq_wait d) k = Some t)"
    using that wait_heap.ins_due [OF assms(2), of e] wait_heap.ins_earlier [OF assms(2), of k _ e]
    by (auto split: option.split intro: order_trans)
  then show ?thesis using True assms(1,3) by (auto simp: on_its_way_def receive_def)
next
  case False
  have "wf_data e = k \<or> on_its_way T k (d\<lparr>dq_ch := es, dq_pc := pc\<rparr>)"
    using assms(1,3) by (auto simp: on_its_way_def)
  then show ?thesis using False assms(4) by (simp add: receive_def on_its_way_Add)
qed

lemma on_its_way_loop:
  assumes step: "loop_step d d'" and inv: "timely d" "\<not> wq_shuttingDown (dq_q d)" and way: "on_its_way T k d"
  shows "on_its_way T k d' \<and> \<not> wq_shuttingDown (dq_q d')"
  using step
proof cases
  case (loop_add entry w)
  have ne: "due_times (dq_wait d) \<noteq> Map.empty" using loop_add(3) by (simp add: none_ready_def due_times_Nil)
  have "waiting_inv (dq_wait d)" using inv(1) by (simp add: timely_def)
  note p = wait_heap.pop_first [OF this ne loop_add(4)]
  have "wf_data entry = k \<or> on_its_way T k (d\<lparr>dq_wait := w\<rparr>)" using way p by (auto simp: on_its_way_def)
  then show ?thesis unfolding loop_add(1) using inv(2) by (simp add: on_its_way_Add) (simp add: dq_Add_def wq.add_closed)
next
  case (loop_receive e es)
  then show ?thesis using on_its_way_receive [OF way _ loop_receive(3) inv(2)] inv by (simp add: timely_def receive_frame)
next
  case (loop_drain e es)
  then show ?thesis using on_its_way_receive [OF way _ loop_drain(3) inv(2)] inv by (simp add: timely_def receive_frame)
qed (use way inv(2) in \<open>auto simp: on_its_way_def\<close>)

definition coming :: "int \<Rightarrow> 'k \<Rightarrow> 'k dqueue \<Rightarrow> bool" where
  "coming T k d \<longleftrightarrow> timely d \<and> \<not> wq_shuttingDown (dq_q d) \<and> on_its_way T k d"

lemma coming_loop: "loop_step\<^sup>*\<^sup>* d d' \<Longrightarrow> coming T k d \<Longrightarrow> coming T k d'"
  by (induction rule: rtranclp_induct) (auto simp: coming_def dest: timely_loop on_its_way_loop)

lemma coming_time: "0 \<le> t \<Longrightarrow> coming T k d \<Longrightarrow> coming T k (d\<lparr>dq_clock := dq_clock d + t\<rparr>)"
  by (auto simp: coming_def on_its_way_def timely_def)

lemma coming_quiet: "quiet_step\<^sup>*\<^sup>* d d' \<Longrightarrow> coming T k d \<Longrightarrow> coming T k d'"
proof (induction rule: rtranclp_induct)
  case (step d1 d2)
  from step(2) show ?case
  proof cases
    case quiet_loop
    then have "loop_step\<^sup>*\<^sup>* d1 d2" by (rule r_into_rtranclp)
    from coming_loop [OF this] step show ?thesis by simp
  next
    case (quiet_time t)
    then show ?thesis using coming_time [of t T k d1] step by simp
  qed
qed simp

lemma loop_quiet: "loop_step\<^sup>*\<^sup>* d d' \<Longrightarrow> quiet_step\<^sup>*\<^sup>* d d'"
  by (induction rule: rtranclp_induct) (auto intro: quiet_loop rtranclp.rtrancl_into_rtrancl)

text \<open>The loop drains the channel, reads the time, and adds what is due: then the item is pending.\<close>

lemma comes_at_time:
  assumes "coming T k d"
  shows "\<exists>d'. quiet_step\<^sup>*\<^sup>* d d' \<and> dq_clock d' = max T (dq_clock d) \<and> k \<in> wq_dirty (dq_q d')"
proof -
  define t where "t = max T (dq_clock d)"
  let ?d = "d\<lparr>dq_clock := t\<rparr>"
  have "0 \<le> t - dq_clock d" by (simp add: t_def)
  from quiet_time [OF this, of d] coming_time [OF this assms] have 0: "quiet_step d ?d" "coming T k ?d" by simp_all
  obtain d1 where 1: "loop_step\<^sup>*\<^sup>* ?d d1" "dq_pc d1 \<in> {Select, Drain}" "dq_clock d1 = dq_clock ?d"
    using loop_to_channel [of ?d] 0(2) by (auto simp: coming_def)
  obtain d2 where 2: "loop_step\<^sup>*\<^sup>* d1 d2" "dq_pc d2 = LoopTop" "dq_ch d2 = []" "dq_clock d2 = dq_clock d1"
    using loop_drains [OF 1(2)] by blast
  have c2: "coming T k d2" using coming_loop [OF 2(1) coming_loop [OF 1(1) 0(2)]] .
  let ?d3 = "d2\<lparr>dq_now := dq_clock d2, dq_pc := AddReady\<rparr>"
  have 3: "loop_step d2 ?d3" using c2 by (intro loop_now 2(2)) (simp add: coming_def)
  have c3: "coming T k ?d3" using coming_loop [OF r_into_rtranclp [of loop_step, OF 3] c2] .
  then obtain d4 where 4: "loop_step\<^sup>*\<^sup>* ?d3 d4" "dq_pc d4 = Select" "dq_ch d4 = []" "dq_clock d4 = dq_clock d2"
      "dq_now d4 = dq_clock d2"
    using loop_to_select [of ?d3] 2(3) by (auto simp: coming_def timely_def)
  have "coming T k d4" using coming_loop [OF 4(1) c3] .
  moreover have "T \<le> dq_now d4" using 1(3) 2(4) 4(5) by (simp add: t_def)
  ultimately have "k \<in> wq_dirty (dq_q d4)" using 4(2,3) by (fastforce simp: coming_def timely_def on_its_way_def)
  moreover have "loop_step\<^sup>*\<^sup>* ?d d4" using 1(1) 2(1) 3 4(1) by (meson converse_rtranclp_into_rtranclp rtranclp_trans)
  then have "quiet_step\<^sup>*\<^sup>* d d4" using 0(1) by (meson converse_rtranclp_into_rtranclp loop_quiet)
  moreover have "dq_clock d4 = t" using 1(3) 2(4) 4(4) by simp
  ultimately show ?thesis by (auto simp: t_def)
qed

section \<open>Properties\<close>

text \<open>
  C10: the queue with its clock refines the one without. Whatever is enqueued, taken, finished and shut down,
  in whatever order with the steps of \<open>waitingLoop\<close> and the time, a run of the abstract queue leads to
  the same items queued, dirty and in processing, the same failure counts and, until the queue is shut
  down, the same items waiting.
\<close>

theorem delaying_queue_refines:
  assumes "dq_step\<^sup>*\<^sup>* (NewDelayingQueue t) d"
  shows "\<exists>r. rl_op\<^sup>*\<^sup>* newRateLimitingQueue r \<and> rl_q r = dq_q d \<and> rl_failures r = dq_failures d
    \<and> (\<not> wq_shuttingDown (dq_q d) \<longrightarrow> set (rl_waiting r) = dq_items d)"
  using refines_run [OF assms] by (fastforce simp: refines_def)

text \<open>An item is enqueued, taken, and its sync fails.\<close>

definition in_processing :: "'k \<Rightarrow> 'k dqueue" where
  "in_processing k = (NewDelayingQueue 0)\<lparr>dq_q := newQueue\<lparr>wq_processing := {k}\<rparr>\<rparr>"

definition failed_once :: "'k \<Rightarrow> 'k dqueue" where
  "failed_once k =
     (NewDelayingQueue 0)\<lparr>dq_failures := (\<lambda>_. 0)(k := 1),
        dq_ch := [\<lparr> wf_data = k, wf_readyAt = 5000000, wf_index = 0 \<rparr>]\<rparr>"

lemma new_queue_simps:
  "dq_q (NewDelayingQueue t) = newQueue" "dq_ch (NewDelayingQueue t) = []" "dq_failures (NewDelayingQueue t) = (\<lambda>_. 0)"
  "dq_wait (NewDelayingQueue t) = ([], {})" "\<not> dq_stopped (NewDelayingQueue t)" "dq_clock (NewDelayingQueue t) = t"
  "wq_queue newQueue = []" "wq_dirty newQueue = {}" "wq_processing newQueue = {}" "\<not> wq_shuttingDown newQueue"
  by (simp_all add: NewDelayingQueue_def newQueue_def)

lemma in_processing_run: "dq_step\<^sup>*\<^sup>* (NewDelayingQueue 0) (in_processing k)"
proof -
  let ?d = "dq_Enqueue k (NewDelayingQueue 0)"
  have q: "?d = (NewDelayingQueue 0)\<lparr>dq_q := newQueue\<lparr>wq_dirty := {k}, wq_queue := [k]\<rparr>\<rparr>"
    by (simp add: dq_Enqueue_def dq_Add_def new_queue_simps wq_Add_def Let_def)
  have "wq_Get (dq_q ?d) = Item k (newQueue\<lparr>wq_processing := {k}\<rparr>)"
    unfolding q by (simp add: wq_Get_def newQueue_def)
  from step_take [OF this] have "dq_step ?d (in_processing k)" unfolding q by (simp add: in_processing_def)
  from rtranclp.rtrancl_into_rtrancl [OF r_into_rtranclp [of dq_step, OF step_enqueue] this] show ?thesis .
qed

lemma failed_once_run: "dq_finish (Some e) 0 k (in_processing k) = Some (failed_once k)"
proof -
  let ?q = "newQueue\<lparr>wq_processing := {k}\<rparr>"
  have w: "default_When 0 k (\<lambda>_. 0) = (5000000, (\<lambda>_. 0)(k := 1))"
    using default_When_delay [of "\<lambda>_. 0" k 0] by (simp add: maxRetries_def millisecond_def)
  have "wq_Done k ?q = newQueue" by (simp add: wq_Done_def newQueue_def)
  moreover have "dq_handleSyncError (Some e) 0 k (in_processing k) = Some ((failed_once k)\<lparr>dq_q := ?q\<rparr>)"
    by (simp add: dq_handleSyncError_def dq_AddRateLimited_def w in_processing_def new_queue_simps maxRetries_def
        dq_AddAfter_def chanCapacity_def failed_once_def)
  ultimately show ?thesis by (simp add: dq_finish_def failed_once_def NewDelayingQueue_def)
qed

lemma delaying_queue_refines_witness:
  "\<exists>r. rl_op\<^sup>*\<^sup>* newRateLimitingQueue r \<and> rl_failures r ''ns/lb'' = 1 \<and> set (rl_waiting r) = {''ns/lb''}"
proof -
  let ?k = "''ns/lb''"
  have "?k \<in> wq_processing (dq_q (in_processing ?k))" by (simp add: in_processing_def)
  from step_finish [OF this failed_once_run] have "dq_step (in_processing ?k) (failed_once ?k)" .
  with in_processing_run have "dq_step\<^sup>*\<^sup>* (NewDelayingQueue 0) (failed_once ?k)" by (rule rtranclp.rtrancl_into_rtrancl)
  from delaying_queue_refines [OF this] obtain r where "rl_op\<^sup>*\<^sup>* newRateLimitingQueue r"
      "rl_failures r = dq_failures (failed_once ?k)" "set (rl_waiting r) = dq_items (failed_once ?k)"
    by (auto simp: failed_once_def new_queue_simps)
  then show ?thesis by (intro exI [of _ r]) (simp add: failed_once_def new_queue_simps dq_items_def)
qed



text \<open>
  C12: while \<open>waitingLoop\<close> waits it has missed nothing. In every state of a queue in use the waiting entries form a
  heap by their times, each knows its position and no item is in it twice; and when the loop is at its
  select, or drains the channel, no entry in the heap was due at the time it read, and if there is an entry
  a timer is set.
\<close>

theorem waiting_loop_misses_nothing:
  assumes "dq_step\<^sup>*\<^sup>* (NewDelayingQueue t) d"
  shows "(\<forall>i < length (fst (dq_wait d)). 0 < i \<longrightarrow>
            wf_readyAt (fst (dq_wait d) ! ((i - 1) div 2)) \<le> wf_readyAt (fst (dq_wait d) ! i))
    \<and> (\<forall>i < length (fst (dq_wait d)). wf_index (fst (dq_wait d) ! i) = int i)
    \<and> distinct (map wf_data (fst (dq_wait d))) \<and> snd (dq_wait d) = wf_data ` set (fst (dq_wait d))
    \<and> (dq_pc d \<in> {Select, Drain} \<longrightarrow> (\<forall>x \<in> set (fst (dq_wait d)). dq_now d < wf_readyAt x))
    \<and> (dq_pc d = Select \<and> fst (dq_wait d) \<noteq> [] \<longrightarrow> dq_timer d \<noteq> None)"
proof -
  have inv: "timely d" using timely_run [OF assms] .
  then have w: "pq_ok (fst (dq_wait d))" "distinct (map wf_data (fst (dq_wait d)))"
      "snd (dq_wait d) = wf_data ` set (fst (dq_wait d))"
    by (simp_all add: timely_def waiting_inv_def)
  have "due_times (dq_wait d) (wf_data x) = Some (wf_readyAt x)" if "x \<in> set (fst (dq_wait d))" for x
  proof -
    have "(wf_data x, wf_readyAt x) \<in> set (pq_pairs (fst (dq_wait d)))" using that by (auto simp: pq_pairs_def)
    then show ?thesis using w(2) by (simp add: due_times_def map_fst_pairs)
  qed
  then have "dq_pc d \<in> {Select, Drain} \<longrightarrow> (\<forall>x \<in> set (fst (dq_wait d)). dq_now d < wf_readyAt x)"
      and "dq_pc d = Select \<and> fst (dq_wait d) \<noteq> [] \<longrightarrow> dq_timer d \<noteq> None"
    using inv by (auto simp: timely_def)
  then show ?thesis using w by (simp add: pq_ok_def heap_ok_def index_ok_def pq_key_def pq_parent_def)
qed

lemma waiting_loop_misses_nothing_witness:
  "\<exists>d :: string dqueue. dq_step\<^sup>*\<^sup>* (NewDelayingQueue 0) d \<and> dq_pc d = Drain
     \<and> map wf_readyAt (fst (dq_wait d)) = [5000000] \<and> dq_now d < 5000000"
proof -
  let ?k = "''ns/lb''"
  let ?e = "\<lparr> wf_data = ?k, wf_readyAt = 5000000, wf_index = 0 \<rparr>"
  let ?d1 = "(failed_once ?k)\<lparr>dq_now := 0, dq_pc := AddReady\<rparr>"
  let ?d2 = "?d1\<lparr>dq_timer := None, dq_pc := Select\<rparr>"
  let ?d3 = "receive ?e (?d2\<lparr>dq_ch := [], dq_pc := Drain\<rparr>)"
  have s: "\<not> wq_shuttingDown (dq_q (failed_once ?k))" "dq_ch (failed_once ?k) = [?e]" "dq_pc (failed_once ?k) = LoopTop"
      "dq_clock (failed_once ?k) = 0" "dq_wait (failed_once ?k) = ([], {})"
    by (simp_all add: failed_once_def NewDelayingQueue_def newQueue_def)
  have "?k \<in> wq_processing (dq_q (in_processing ?k))" by (simp add: in_processing_def)
  from step_finish [OF this failed_once_run] have 0: "dq_step (in_processing ?k) (failed_once ?k)" .
  have 1: "loop_step (failed_once ?k) ?d1" using loop_now [OF s(3,1)] s(4) by simp
  have 2: "loop_step ?d1 ?d2" using loop_arm [of ?d1] s(5) by (simp add: none_ready_def armed_timer_def)
  have 3: "loop_step ?d2 ?d3" using loop_receive [of ?d2 ?e "[]"] s(2) by simp
  have "heap_up [x] 0 = [x]" for x :: "string waitFor" by (subst heap_up.simps) simp
  then have w: "fst (dq_wait ?d3) = [?e]" "dq_pc ?d3 = Drain"
    using s(4,5) by (simp_all add: receive_def insert_entry_def heap_Push_def pq_Push_def Let_def)
  have run: "dq_step\<^sup>*\<^sup>* (NewDelayingQueue 0) ?d3"
    using in_processing_run 0 1 2 3 by (meson quiet_loop rtranclp.rtrancl_into_rtrancl step_quiet)
  have times: "map wf_readyAt (fst (dq_wait ?d3)) = [5000000]" by (simp only: w list.map waitFor.select_convs)
  from waiting_loop_misses_nothing [OF run] have "dq_now ?d3 < 5000000" using w by simp
  with run w(2) times show ?thesis by (intro exI [of _ ?d3] conjI)
qed

end
