(* ===== verification/IptablesRunner.thy ===== *)
theory IptablesRunner
  imports Iptables GoStrings
begin

text \<open>
  How \<open>iptables.New\<close> makes a runner: it asks the command for its version and chooses the flags and the
  way rules are checked by it, with \<open>-C\<close> where the command has it and by reading \<open>iptables-save\<close> where it
  does not. With \<open>-C\<close> the runner is the one of \<open>Iptables\<close>, so it keeps the interface's contract.
\<close>

section \<open>Commands\<close>

text \<open>\<open>exec.Command(name, args...).CombinedOutput()\<close>: how the command ended, and what it printed.\<close>

type_synonym 'w command = "string \<Rightarrow> string list \<Rightarrow> 'w \<Rightarrow> (cmd_out \<times> string) \<times> 'w"

definition iptablesCommand :: "protocol \<Rightarrow> string" where
  "iptablesCommand p = (if p = ProtocolIpv6 then ''ip6tables'' else ''iptables'')"

definition iptablesSaveCommand :: "protocol \<Rightarrow> string" where
  "iptablesSaveCommand p = (if p = ProtocolIpv6 then ''ip6tables-save'' else ''iptables-save'')"

definition iptablesRestoreCommand :: "protocol \<Rightarrow> string" where
  "iptablesRestoreCommand p = (if p = ProtocolIpv6 then ''ip6tables-restore'' else ''iptables-restore'')"

text \<open>The operations look at how the command ended; what it printed only goes into their errors.\<close>

definition runContext :: "'w command \<Rightarrow> string list \<Rightarrow> 'w exec" where
  "runContext cmd waitFlag p op args w =
     (case cmd (iptablesCommand p) (waitFlag @ [op] @ args) w of ((out, _), w') \<Rightarrow> (out, w'))"

section \<open>Versions\<close>

definition is_digit :: "char \<Rightarrow> bool" where
  "is_digit c = (digit_val c \<noteq> None)"

text \<open>The longest match of \<open>(\.[0-9]+)*\<close> at the start of a text.\<close>

function dot_groups :: "string \<Rightarrow> string" where
  "dot_groups s =
     (case s of
        [] \<Rightarrow> []
      | c # r \<Rightarrow>
          if c = CHR ''.'' \<and> takeWhile is_digit r \<noteq> []
          then c # takeWhile is_digit r @ dot_groups (dropWhile is_digit r) else [])"
  by pat_completeness auto
termination by (relation "measure length") (auto simp: less_Suc_eq_le length_dropWhile_le)

text \<open>\<open>v([0-9]+(\.[0-9]+)+)\<close> at the start of a text, its first group; and the first match in a text.\<close>

definition version_at :: "string \<Rightarrow> string option" where
  "version_at s =
     (case s of
        [] \<Rightarrow> None
      | c # r \<Rightarrow>
          let ds = takeWhile is_digit r; gs = dot_groups (dropWhile is_digit r)
          in if c = CHR ''v'' \<and> ds \<noteq> [] \<and> gs \<noteq> [] then Some (ds @ gs) else None)"

fun find_version :: "string \<Rightarrow> string option" where
  "find_version [] = None"
| "find_version (c # s) = (case version_at (c # s) of Some v \<Rightarrow> Some v | None \<Rightarrow> find_version s)"

text \<open>\<open>strconv.ParseUint(comp, 10, 0)\<close> of digits.\<close>

definition parse_uint :: "string \<Rightarrow> nat option" where
  "parse_uint s =
     (if s = [] then None
      else case digits_val s 0 of None \<Rightarrow> None | Some n \<Rightarrow> if n < 2 ^ 64 then Some n else None)"

fun parse_all :: "string list \<Rightarrow> nat list option" where
  "parse_all [] = Some []"
| "parse_all (x # xs) =
     (case parse_uint x of None \<Rightarrow> None
      | Some n \<Rightarrow> (case parse_all xs of None \<Rightarrow> None | Some ns \<Rightarrow> Some (n # ns)))"

text \<open>
  \<open>ParseGeneric\<close> of a text that is two or more numbers with dots between them, which is what the pattern
  above finds. The first number has no leading zero.
\<close>

definition ParseGeneric :: "string \<Rightarrow> nat list option" where
  "ParseGeneric str =
     (let components = split_on (CHR ''.'') str
      in if length components < 2 then None
         else if has_prefix (hd components) ''0'' \<and> hd components \<noteq> ''0'' then None
         else parse_all components)"

definition onlyZeros :: "nat list \<Rightarrow> bool" where
  "onlyZeros xs = list_all (\<lambda>n. n = 0) xs"

fun compareInternal :: "nat list \<Rightarrow> nat list \<Rightarrow> int" where
  "compareInternal (v # vs) (ot # os) = (if ot < v then 1 else if v < ot then -1 else compareInternal vs os)"
| "compareInternal vs [] = (if onlyZeros vs then 0 else 1)"
| "compareInternal [] os = (if onlyZeros os then 0 else -1)"

definition AtLeast :: "nat list \<Rightarrow> nat list \<Rightarrow> bool" where
  "AtLeast v m = (compareInternal v m \<noteq> -1)"

definition MinCheckVersion :: "nat list" where "MinCheckVersion = [1, 4, 11]"
definition RandomFullyMinVersion :: "nat list" where "RandomFullyMinVersion = [1, 6, 2]"
definition WaitMinVersion :: "nat list" where "WaitMinVersion = [1, 4, 20]"
definition WaitSecondsMinVersion :: "nat list" where "WaitSecondsMinVersion = [1, 4, 22]"
definition WaitRestoreMinVersion :: "nat list" where "WaitRestoreMinVersion = [1, 6, 2]"

definition getIPTablesVersion :: "'w command \<Rightarrow> protocol \<Rightarrow> 'w \<Rightarrow> nat list option \<times> 'w" where
  "getIPTablesVersion cmd p w =
     (case cmd (iptablesCommand p) [''--version''] w of ((out, bytes), w') \<Rightarrow>
        (if out \<noteq> CmdOk then None
         else case find_version bytes of None \<Rightarrow> None | Some m \<Rightarrow> ParseGeneric m, w'))"

definition getIPTablesWaitFlag :: "nat list \<Rightarrow> string list" where
  "getIPTablesWaitFlag version =
     (if AtLeast version WaitSecondsMinVersion then [''-w'', ''5'']
      else if AtLeast version WaitMinVersion then [''-w''] else [])"

text \<open>\<open>getIPTablesRestoreVersionString\<close> is the first lines of the last branch.\<close>

definition getIPTablesRestoreWaitFlag :: "nat list \<Rightarrow> 'w command \<Rightarrow> protocol \<Rightarrow> 'w \<Rightarrow> string list \<times> 'w" where
  "getIPTablesRestoreWaitFlag version cmd p w =
     (if AtLeast version WaitRestoreMinVersion then ([''-w'', ''5''], w)
      else case cmd (iptablesRestoreCommand p) [''--version''] w of ((out, bytes), w') \<Rightarrow>
        (if out \<noteq> CmdOk then []
         else case find_version bytes of
             None \<Rightarrow> []
           | Some vstring \<Rightarrow> (case ParseGeneric vstring of None \<Rightarrow> [] | Some _ \<Rightarrow> [''-w'']), w'))"

section \<open>Checking a rule in the output of iptables-save\<close>

text \<open>\<open>strings.Fields\<close>, and \<open>strings.Trim\<close> of quotes.\<close>

lemma fields_shorter:
  assumes "dropWhile is_space s \<noteq> []"
  shows "length (dropWhile (\<lambda>c. \<not> is_space c) (dropWhile is_space s)) < length s"
proof -
  have "\<not> is_space (hd (dropWhile is_space s))" using assms by (rule hd_dropWhile)
  then have "length (dropWhile (\<lambda>c. \<not> is_space c) (dropWhile is_space s)) < length (dropWhile is_space s)"
    using assms by (cases "dropWhile is_space s") (auto simp: less_Suc_eq_le length_dropWhile_le)
  then show ?thesis using length_dropWhile_le [of is_space s] by linarith
qed

function str_fields :: "string \<Rightarrow> string list" where
  "str_fields s =
     (let r = dropWhile is_space s
      in if r = [] then [] else takeWhile (\<lambda>c. \<not> is_space c) r # str_fields (dropWhile (\<lambda>c. \<not> is_space c) r))"
  by pat_completeness auto
termination by (relation "measure length") (auto intro: fields_shorter)

definition trim_quotes :: "string \<Rightarrow> string" where
  "trim_quotes s = (let q = (\<lambda>c. c = CHR 0x22) in rev (dropWhile q (rev (dropWhile q s))))"

text \<open>
  \<open>trimhex\<close> replaces \<open>0x0+([0-9])\<close> by \<open>0x$1\<close>: the zeros after \<open>0x\<close> are dropped before a digit, which is the
  last of them where no other digit follows.
\<close>

lemma length_zeros:
  "length (dropWhile P (drop n s)) \<le> length s" "length (dropWhile P (drop n s)) - Suc 0 \<le> length s"
  using length_dropWhile_le [of P "drop n s"] by simp_all

function trimhex :: "string \<Rightarrow> string" where
  "trimhex s =
     (case s of
        [] \<Rightarrow> []
      | c # t \<Rightarrow>
          if has_prefix s ''0x0'' then
            let zeros = takeWhile (\<lambda>c. c = CHR ''0'') (drop 2 s); r = dropWhile (\<lambda>c. c = CHR ''0'') (drop 2 s)
            in if r \<noteq> [] \<and> is_digit (hd r) then ''0x'' @ [hd r] @ trimhex (tl r)
               else if 2 \<le> length zeros then ''0x0'' @ trimhex r
               else c # trimhex t
          else c # trimhex t)"
  by pat_completeness auto
termination by (relation "measure length") (auto simp: less_Suc_eq_le length_zeros)

declare dot_groups.simps [simp del] str_fields.simps [simp del] trimhex.simps [simp del]

definition checkRuleWithoutCheck ::
  "'w command \<Rightarrow> protocol \<Rightarrow> string \<Rightarrow> string \<Rightarrow> rule \<Rightarrow> ('w, go_error, bool) prog" where
  "checkRuleWithoutCheck cmd p t c args w =
     (case cmd (iptablesSaveCommand p) [''-t'', t] w of ((out, text), w') \<Rightarrow>
        if out \<noteq> CmdOk then (Inl (Errorf ''error checking rule''), w')
        else
          let argsCopy = concat (map (\<lambda>a. str_fields (trimhex (trim_quotes a))) args)
          in (Inr (list_ex (\<lambda>line.
                 let fields = str_fields line
                 in has_prefix line (''-A '' @ c) \<and> length fields = length argsCopy + 2
                    \<and> set argsCopy \<subseteq> set (map (\<lambda>f. trimhex (trim_quotes f)) fields))
               (split_on (CHR 0x0A) text)), w'))"

section \<open>The runner\<close>

record runner =
  rn_protocol :: protocol
  rn_hasCheck :: bool
  rn_hasRandomFully :: bool
  rn_waitFlag :: "string list"
  rn_restoreWaitFlag :: "string list"

definition newInternal :: "'w command \<Rightarrow> protocol \<Rightarrow> 'w \<Rightarrow> runner \<times> 'w" where
  "newInternal cmd p w =
     (case getIPTablesVersion cmd p w of (v, w1) \<Rightarrow>
        let version = (case v of None \<Rightarrow> MinCheckVersion | Some v \<Rightarrow> v)
        in case getIPTablesRestoreWaitFlag version cmd p w1 of (restoreWaitFlag, w2) \<Rightarrow>
          (\<lparr> rn_protocol = p, rn_hasCheck = AtLeast version MinCheckVersion,
             rn_hasRandomFully = AtLeast version RandomFullyMinVersion, rn_waitFlag = getIPTablesWaitFlag version,
             rn_restoreWaitFlag = restoreWaitFlag \<rparr>, w2))"

definition checkRule :: "'w command \<Rightarrow> runner \<Rightarrow> 'w check" where
  "checkRule cmd r t c args =
     (if rn_hasCheck r
      then checkRuleUsingCheck (runContext cmd (rn_waitFlag r)) (rn_protocol r) (makeFullArgs t c args)
      else checkRuleWithoutCheck cmd (rn_protocol r) t c args)"

definition New :: "'w command \<Rightarrow> protocol \<Rightarrow> 'w \<Rightarrow> 'w ipt_iface \<times> 'w" where
  "New cmd p w =
     (case newInternal cmd p w of (r, w') \<Rightarrow>
        (runner_with (checkRule cmd r) (runContext cmd (rn_waitFlag r)) (rn_protocol r), w'))"

section \<open>With --check\<close>

text \<open>A version that is at least the one that brought \<open>-C\<close>, or that could not be read, makes the runner of \<open>Iptables\<close>.\<close>

definition has_check_version :: "nat list option \<Rightarrow> bool" where
  "has_check_version v = (case v of None \<Rightarrow> True | Some v \<Rightarrow> AtLeast v MinCheckVersion)"

definition wait_flag_of :: "nat list option \<Rightarrow> string list" where
  "wait_flag_of v = getIPTablesWaitFlag (case v of None \<Rightarrow> MinCheckVersion | Some v \<Rightarrow> v)"

lemma AtLeast_refl: "AtLeast v v"
proof -
  have "compareInternal v v = 0" by (induction v) (simp_all add: onlyZeros_def)
  then show ?thesis by (simp add: AtLeast_def)
qed

lemma New_with_check:
  assumes "fst (getIPTablesVersion cmd p w) = v" "has_check_version v"
  shows "fst (New cmd p w) = newRunner (runContext cmd (wait_flag_of v)) p"
  using assms AtLeast_refl [of MinCheckVersion]
  by (auto simp: New_def newInternal_def Let_def newRunner_def checkRule_def [abs_def] has_check_version_def
      wait_flag_of_def split: prod.splits option.splits)

lemma New_api:
  assumes "\<And>p w. fst (getIPTablesVersion cmd p w) = v" "has_check_version v"
    and "iptables_tool (runContext cmd (wait_flag_of v)) view same"
  shows "iptables_api (\<lambda>p. fst (New cmd p w)) view same"
proof -
  have "(\<lambda>p. fst (New cmd p w)) = newRunner (runContext cmd (wait_flag_of v))"
    using New_with_check [OF assms(1,2)] by (simp add: fun_eq_iff)
  then show ?thesis using iptables_tool.runner_api [OF assms(3)] by simp
qed

text \<open>
  The documented command of \<open>Iptables\<close> as a command that prints its version and takes the wait flag that goes
  with it.
\<close>

definition reference_command :: "table_pair command" where
  "reference_command name args w =
     (let p = (if name = ''ip6tables'' then ProtocolIpv6 else ProtocolIpv4)
      in case args of
           [x] \<Rightarrow> ((CmdOk, ''iptables v1.8.7 (legacy)''), w)
         | _ # _ # op # rest \<Rightarrow> (case reference_exec p op rest w of (out, w') \<Rightarrow> ((out, []), w'))
         | _ \<Rightarrow> ((CmdExit 2, []), w))"

lemma reference_version: "fst (getIPTablesVersion reference_command p w) = Some [1, 8, 7]"
proof -
  have "find_version ''iptables v1.8.7 (legacy)'' = Some ''1.8.7''"
    by (simp add: version_at_def is_digit_def digit_val_def dot_groups.simps Let_def)
  moreover have "ParseGeneric ''1.8.7'' = Some [1, 8, 7]"
    by (simp add: ParseGeneric_def Let_def parse_uint_def digit_val_def has_prefix_def)
  ultimately show ?thesis by (simp add: getIPTablesVersion_def reference_command_def Let_def)
qed

lemma reference_flags: "has_check_version (Some [1, 8, 7])" "wait_flag_of (Some [1, 8, 7]) = [''-w'', ''5'']"
  by (simp_all add: has_check_version_def wait_flag_of_def getIPTablesWaitFlag_def AtLeast_def MinCheckVersion_def
      WaitSecondsMinVersion_def)

lemma reference_run: "runContext reference_command [''-w'', ''5''] = reference_exec"
proof (intro ext)
  fix p op args w
  have "iptablesCommand p = ''ip6tables'' \<longleftrightarrow> p = ProtocolIpv6" by (simp add: iptablesCommand_def)
  moreover have "p = ProtocolIpv4" if "p \<noteq> ProtocolIpv6" using that by (cases p) simp_all
  ultimately show "runContext reference_command [''-w'', ''5''] p op args w = reference_exec p op args w"
    by (auto simp: runContext_def reference_command_def split: prod.split)
qed

interpretation ref_new: iptables_api "\<lambda>p. fst (New reference_command p w)" "\<lambda>p w. w p" "(=)" for w
proof -
  have "iptables_tool (runContext reference_command (wait_flag_of (Some [1, 8, 7]))) (\<lambda>p w. w p) (=)"
    unfolding reference_flags reference_run by (rule ref_tool.iptables_tool_axioms)
  then show "iptables_api (\<lambda>p. fst (New reference_command p w)) (\<lambda>p w. w p) (=)"
    by (rule New_api [OF reference_version reference_flags(1)])
qed

section \<open>Without --check\<close>

text \<open>A field of a printed rule that the comparison takes as it is.\<close>

definition plain_field :: "string \<Rightarrow> bool" where
  "plain_field f \<longleftrightarrow> f \<noteq> [] \<and> list_all (\<lambda>c. \<not> is_space c) f \<and> trim_quotes f = f \<and> trimhex f = f"

lemma fields_space: "is_space c \<Longrightarrow> str_fields (c # s) = str_fields s"
  by (subst (1 2) str_fields.simps) simp

lemma fields_word:
  assumes "f \<noteq> []" "list_all (\<lambda>c. \<not> is_space c) f" "s = [] \<or> is_space (hd s)"
  shows "str_fields (f @ s) = f # str_fields s"
proof -
  have d: "dropWhile is_space (f @ s) = f @ s" using assms(1,2) by (cases f) simp_all
  have "takeWhile (\<lambda>c. \<not> is_space c) (f @ s) = f" "dropWhile (\<lambda>c. \<not> is_space c) (f @ s) = s"
    using assms(2,3) by (cases s; force simp: list_all_iff takeWhile_append dropWhile_append)+
  then show ?thesis using d assms(1) by (subst str_fields.simps) (simp add: Let_def)
qed

lemma fields_join:
  "list_all plain_field fs \<Longrightarrow> str_fields (str_join '' '' fs) = fs"
proof (induction fs)
  case Nil
  then show ?case by (simp add: str_fields.simps)
next
  case (Cons f fs)
  have sp: "is_space (CHR '' '')" by (simp add: is_space_def)
  have f: "f \<noteq> []" "list_all (\<lambda>c. \<not> is_space c) f" using Cons.prems by (simp_all add: plain_field_def)
  show ?case
  proof (cases fs)
    case Nil
    then show ?thesis using fields_word [OF f, of "[]"] by (simp add: str_fields.simps)
  next
    case (Cons g gs)
    have "str_fields (f @ '' '' @ str_join '' '' fs) = f # str_fields ('' '' @ str_join '' '' fs)"
      using fields_word [OF f] sp by simp
    then show ?thesis using Cons.IH Cons.prems sp by (simp add: Cons fields_space)
  qed
qed

lemma plain_args: "list_all plain_field args \<Longrightarrow> concat (map (\<lambda>a. str_fields (trimhex (trim_quotes a))) args) = args"
proof (induction args)
  case (Cons a args)
  then show ?case using fields_join [of "[a]"] by (simp add: plain_field_def)
qed simp

text \<open>A rule that \<open>iptables-save\<close> prints as it was given is found.\<close>

lemma without_check_finds:
  assumes "cmd (iptablesSaveCommand p) [''-t'', t] w = ((CmdOk, text), w')"
    and "str_join '' '' (''-A'' # c # args) \<in> set (split_on (CHR 0x0A) text)"
    and "plain_field c" "list_all plain_field args"
  shows "checkRuleWithoutCheck cmd p t c args w = (Inr True, w')"
proof -
  let ?line = "str_join '' '' (''-A'' # c # args)"
  have A: "plain_field ''-A''"
    by (simp add: plain_field_def is_space_def trim_quotes_def trimhex.simps has_prefix_def)
  have f: "str_fields ?line = ''-A'' # c # args" using fields_join [of "''-A'' # c # args"] A assms(3,4) by simp
  have "set args \<subseteq> set (map (\<lambda>f. trimhex (trim_quotes f)) (''-A'' # c # args))"
    using assms(4) by (force simp: list_all_iff plain_field_def image_iff)
  moreover have "has_prefix ?line (''-A '' @ c)"
    by (cases args) (auto simp: has_prefix_iff)
  ultimately have "\<exists>line \<in> set (split_on (CHR 0x0A) text). has_prefix line (''-A '' @ c)
      \<and> length (str_fields line) = length args + 2 \<and> set args \<subseteq> set (map (\<lambda>f. trimhex (trim_quotes f)) (str_fields line))"
    using f by (intro bexI [OF _ assms(2)]) simp
  then show ?thesis
    unfolding checkRuleWithoutCheck_def Let_def list_ex_iff plain_args [OF assms(4)] assms(1) by simp
qed

text \<open>
  What is found is a line for a chain whose name begins with the one asked for, with all the fields of the rule
  and no more.
\<close>

lemma without_check_found:
  assumes "cmd (iptablesSaveCommand p) [''-t'', t] w = ((CmdOk, text), w')" "list_all plain_field args"
    and "checkRuleWithoutCheck cmd p t c args w = (Inr True, w')"
  shows "\<exists>line \<in> set (split_on (CHR 0x0A) text). has_prefix line (''-A '' @ c)
    \<and> length (str_fields line) = length args + 2 \<and> set args \<subseteq> (\<lambda>f. trimhex (trim_quotes f)) ` set (str_fields line)"
  using assms(1,3) plain_args [OF assms(2)] by (auto simp: checkRuleWithoutCheck_def Let_def list_ex_iff)

end
