(* ===== verification/IptablesMonitor.thy ===== *)
theory IptablesMonitor
  imports IptablesRunner
begin

text \<open>
  The methods of the iptables runner that the providers do not call: saving and restoring tables, the
  latter under the lock files of older versions of iptables, and the monitor that waits for a flush of
  the tables by someone else.
\<close>

definition IsIpv6 :: "runner \<Rightarrow> bool" where
  "IsIpv6 r = (rn_protocol r = ProtocolIpv6)"

definition HasRandomFully :: "runner \<Rightarrow> bool" where
  "HasRandomFully r = rn_hasRandomFully r"

text \<open>\<open>strings.Contains\<close>, and the texts that say that something was not found.\<close>

fun str_contains :: "string \<Rightarrow> string \<Rightarrow> bool" where
  "str_contains [] t = (t = [])"
| "str_contains (c # s) t = (has_prefix (c # s) t \<or> str_contains s t)"

definition iptablesNotFoundStrings :: "string list" where
  "iptablesNotFoundStrings =
     [''No chain/target/match by that name'', ''No such file or directory'', ''does a matching rule exist'', ''does not exist'']"

definition IsNotFoundError :: "string \<Rightarrow> bool" where
  "IsNotFoundError es = list_ex (str_contains es) iptablesNotFoundStrings"

section \<open>Saving and restoring\<close>

text \<open>A command with its standard input, and what it wrote to its two outputs.\<close>

type_synonym 'w piped = "string \<Rightarrow> string list \<Rightarrow> string \<Rightarrow> 'w \<Rightarrow> (cmd_out \<times> string \<times> string) \<times> 'w"

text \<open>The buffer gets the output, and the error output too when the command failed.\<close>

definition SaveInto :: "'w piped \<Rightarrow> runner \<Rightarrow> string \<Rightarrow> string \<Rightarrow> 'w \<Rightarrow> (cmd_out \<times> string) \<times> 'w" where
  "SaveInto cmd r t buffer w =
     (case cmd (iptablesSaveCommand (rn_protocol r)) [''-t'', t] [] w of ((out, text, err), w') \<Rightarrow>
        ((out, buffer @ text @ (if out = CmdOk then [] else err)), w'))"

text \<open>
  The two locks this process holds: that of 1.6.x, a lock on a file, and that of 1.4.x, an abstract socket.
  \<open>le_tries\<close> is how often \<open>wait.PollImmediate\<close> tries in two seconds, \<open>le_flock i\<close> whether try \<open>i\<close> gets the lock.
\<close>

record locks =
  lk_16 :: bool
  lk_14 :: bool

record lock_env =
  le_open :: "go_error option"
  le_tries :: nat
  le_flock :: "nat \<Rightarrow> bool"
  le_listen :: "nat \<Rightarrow> bool"

definition locks_Close :: "locks \<Rightarrow> locks" where
  "locks_Close l = \<lparr> lk_16 = False, lk_14 = False \<rparr>"

definition poll_immediate :: "nat \<Rightarrow> (nat \<Rightarrow> bool) \<Rightarrow> bool" where
  "poll_immediate tries f = list_ex f [0..<tries]"

definition grabIptablesLocks :: "lock_env \<Rightarrow> (locks, go_error, unit) prog" where
  "grabIptablesLocks env l =
     (case le_open env of
        Some e \<Rightarrow> (Inl (Errorf ''failed to open iptables lock''), locks_Close l)
      | None \<Rightarrow>
          if \<not> poll_immediate (le_tries env) (le_flock env)
          then (Inl (Errorf ''failed to acquire new iptables lock''), locks_Close l)
          else if \<not> poll_immediate (le_tries env) (le_listen env)
          then (Inl (Errorf ''failed to acquire old iptables lock''), locks_Close (l\<lparr>lk_16 := True\<rparr>))
          else (Inr (), l\<lparr>lk_16 := True, lk_14 := True\<rparr>))"

definition restore_args :: "string list \<Rightarrow> bool \<Rightarrow> bool \<Rightarrow> string list" where
  "restore_args args flush counters =
     args @ (if \<not> flush then [''--noflush''] else []) @ (if counters then [''--counters''] else [])"

text \<open>The command is told which locks are held while it runs.\<close>

definition run_restore ::
  "(locks \<Rightarrow> 'w piped) \<Rightarrow> runner \<Rightarrow> string list \<Rightarrow> string \<Rightarrow> ('w \<times> locks, go_error, unit) prog" where
  "run_restore cmd r args data s =
     (case cmd (snd s) (iptablesRestoreCommand (rn_protocol r)) (rn_restoreWaitFlag r @ args) data (fst s) of
        ((out, _), w') \<Rightarrow> (if out = CmdOk then Inr () else Inl (Errorf ''exit status''), (w', snd s)))"

definition restoreInternal ::
  "lock_env \<Rightarrow> (locks \<Rightarrow> 'w piped) \<Rightarrow> runner \<Rightarrow> string list \<Rightarrow> string \<Rightarrow> bool \<Rightarrow> bool
   \<Rightarrow> ('w \<times> locks, go_error, unit) prog" where
  "restoreInternal env cmd r args data flush counters s =
     (let fullArgs = restore_args args flush counters
      in if rn_restoreWaitFlag r = [] then
           (case grabIptablesLocks env (snd s) of
              (Inl e, l) \<Rightarrow> (Inl e, (fst s, l))
            | (Inr _, l) \<Rightarrow>
                (case run_restore cmd r fullArgs data (fst s, l) of (res, (w', l')) \<Rightarrow> (res, (w', locks_Close l'))))
         else run_restore cmd r fullArgs data s)"

definition Restore ::
  "lock_env \<Rightarrow> (locks \<Rightarrow> 'w piped) \<Rightarrow> runner \<Rightarrow> string \<Rightarrow> string \<Rightarrow> bool \<Rightarrow> bool \<Rightarrow> ('w \<times> locks, go_error, unit) prog" where
  "Restore env cmd r t = restoreInternal env cmd r [''-T'', t]"

definition RestoreAll ::
  "lock_env \<Rightarrow> (locks \<Rightarrow> 'w piped) \<Rightarrow> runner \<Rightarrow> string \<Rightarrow> bool \<Rightarrow> bool \<Rightarrow> ('w \<times> locks, go_error, unit) prog" where
  "RestoreAll env cmd r = restoreInternal env cmd r []"

definition no_locks :: locks where
  "no_locks = \<lparr> lk_16 = False, lk_14 = False \<rparr>"

text \<open>No lock is kept, however a restore ends.\<close>

lemma restore_closes: "snd (snd (restoreInternal env cmd r args data flush counters (w, no_locks))) = no_locks"
  by (auto simp: restoreInternal_def Let_def grabIptablesLocks_def run_restore_def locks_Close_def no_locks_def
      split: option.split prod.split)

text \<open>The command only runs with both locks held, or with its own wait flag.\<close>

lemma restore_locked:
  assumes "cmd \<lparr> lk_16 = True, lk_14 = True \<rparr> = cmd' \<lparr> lk_16 = True, lk_14 = True \<rparr>" "rn_restoreWaitFlag r = []"
  shows "restoreInternal env cmd r args data flush counters (w, no_locks) =
    restoreInternal env cmd' r args data flush counters (w, no_locks)"
  using assms by (simp add: restoreInternal_def Let_def grabIptablesLocks_def run_restore_def no_locks_def
      split: option.split)

text \<open>What is saved and restored without the flush flag comes after the arguments of the wait flag.\<close>

lemma restore_ok:
  assumes "le_open env = None" "le_flock env 0" "le_listen env 0" "0 < le_tries env" "rn_restoreWaitFlag r = []"
    and "cmd \<lparr> lk_16 = True, lk_14 = True \<rparr> (iptablesRestoreCommand (rn_protocol r)) (restore_args args flush counters) data w
      = ((CmdOk, out), w')"
  shows "restoreInternal env cmd r args data flush counters (w, no_locks) = (Inr (), (w', no_locks))"
proof -
  have "poll_immediate (le_tries env) f" if "f 0" for f
    using that assms(4) by (auto simp: poll_immediate_def list_ex_iff)
  then show ?thesis using assms
    by (simp add: restoreInternal_def Let_def grabIptablesLocks_def run_restore_def no_locks_def locks_Close_def)
qed

section \<open>The monitor\<close>

definition iptablesStatusResourceProblem :: int where "iptablesStatusResourceProblem = 4"

definition isResourceError :: "cmd_out \<Rightarrow> bool" where
  "isResourceError out = (out = CmdExit iptablesStatusResourceProblem)"

text \<open>Whether the chain is there, and how the command ended otherwise.\<close>

definition chainExists :: "'w exec \<Rightarrow> protocol \<Rightarrow> string \<Rightarrow> string \<Rightarrow> 'w \<Rightarrow> (bool \<times> cmd_out) \<times> 'w" where
  "chainExists exec p t c w =
     (case exec p ''-L'' (makeFullArgs t c []) w of (out, w') \<Rightarrow> ((out = CmdOk, out), w'))"

fun set_canaries :: "'w exec \<Rightarrow> protocol \<Rightarrow> string \<Rightarrow> string list \<Rightarrow> 'w \<Rightarrow> bool \<times> 'w" where
  "set_canaries exec p canary [] w = (True, w)"
| "set_canaries exec p canary (t # ts) w =
     (case runner_EnsureChain exec p t canary w of
        (Inl e, w') \<Rightarrow> (False, w')
      | (Inr _, w') \<Rightarrow> set_canaries exec p canary ts w')"

definition canary_there :: "'w exec \<Rightarrow> protocol \<Rightarrow> string \<Rightarrow> string \<Rightarrow> 'w \<Rightarrow> bool \<times> 'w" where
  "canary_there exec p canary t w =
     (case chainExists exec p t canary w of ((exists, out), w') \<Rightarrow> (exists \<or> isResourceError out, w'))"

fun canaries_gone :: "'w exec \<Rightarrow> protocol \<Rightarrow> string \<Rightarrow> string list \<Rightarrow> 'w \<Rightarrow> bool \<times> 'w" where
  "canaries_gone exec p canary [] w = (True, w)"
| "canaries_gone exec p canary (t # ts) w =
     (case canary_there exec p canary t w of (b, w') \<Rightarrow> if b then (False, w') else canaries_gone exec p canary ts w')"

definition drop_canaries :: "'w exec \<Rightarrow> protocol \<Rightarrow> string \<Rightarrow> string list \<Rightarrow> ('w, go_error, unit) prog" where
  "drop_canaries exec p canary tabs = forE tabs (\<lambda>t. ignoreE (runner_DeleteChain exec p t canary))"

text \<open>
  Where the loop is: setting up the canaries (which was tried already, or not), polling the one of the first table, waiting for the others to
  go, reloading, or returned. Every evaluation of a polled condition is a step; between two of them the
  tables may change (\<open>world\<close>), the channel may be closed, and the five seconds of the wait may be over.
\<close>

datatype monitor_pc = SettingUp bool | Watching | Settling | Reloading | MonitorDone

inductive monitor_step ::
  "'w exec \<Rightarrow> protocol \<Rightarrow> string \<Rightarrow> string \<Rightarrow> string list \<Rightarrow> ('w \<Rightarrow> 'w) \<Rightarrow> ('w \<Rightarrow> 'w \<Rightarrow> bool)
   \<Rightarrow> monitor_pc \<times> bool \<times> 'w \<Rightarrow> monitor_pc \<times> bool \<times> 'w \<Rightarrow> bool"
  for exec p canary t0 ts reloadFunc world where
  mon_world: "world w w' \<Longrightarrow> monitor_step exec p canary t0 ts reloadFunc world (pc, b, w) (pc, b, w')"
| mon_stop: "monitor_step exec p canary t0 ts reloadFunc world (pc, False, w) (pc, True, w)"
| mon_set: "set_canaries exec p canary (t0 # ts) w = (True, w') \<Longrightarrow>
    monitor_step exec p canary t0 ts reloadFunc world (SettingUp tried, b, w) (Watching, b, w')"
| mon_set_again: "set_canaries exec p canary (t0 # ts) w = (False, w') \<Longrightarrow>
    monitor_step exec p canary t0 ts reloadFunc world (SettingUp tried, b, w) (SettingUp True, b, w')"
| mon_set_stopped: "monitor_step exec p canary t0 ts reloadFunc world (SettingUp True, True, w) (Watching, True, w)"
| mon_there: "canary_there exec p canary t0 w = (True, w') \<Longrightarrow>
    monitor_step exec p canary t0 ts reloadFunc world (Watching, b, w) (Watching, b, w')"
| mon_gone: "canary_there exec p canary t0 w = (False, w') \<Longrightarrow>
    monitor_step exec p canary t0 ts reloadFunc world (Watching, b, w) (Settling, b, w')"
| mon_settled: "canaries_gone exec p canary ts w = (True, w') \<Longrightarrow>
    monitor_step exec p canary t0 ts reloadFunc world (Settling, b, w) (Reloading, b, w')"
| mon_settling: "canaries_gone exec p canary ts w = (False, w') \<Longrightarrow>
    monitor_step exec p canary t0 ts reloadFunc world (Settling, b, w) (Settling, b, w')"
| mon_timeout: "monitor_step exec p canary t0 ts reloadFunc world (Settling, b, w) (Reloading, b, w)"
| mon_reload: "monitor_step exec p canary t0 ts reloadFunc world (Reloading, b, w) (SettingUp False, b, reloadFunc w)"
| mon_return: "monitor_step exec p canary t0 ts reloadFunc world (Watching, True, w)
    (MonitorDone, True, snd (drop_canaries exec p canary (t0 # ts) w))"

inductive_cases watching_settlingE: "monitor_step exec p canary t0 ts reloadFunc world (Watching, b, w) (Settling, b', w')"
inductive_cases setting_watchingE: "monitor_step exec p canary t0 ts reloadFunc world (SettingUp tried, b, w) (Watching, b', w')"

context iptables_tool
begin

lemma chainExists_view:
  "\<exists>out w'. chainExists exec p t c w = ((view p w (t, c) \<noteq> None, out), w') \<and> view p w' = view p w
     \<and> (view p w (t, c) = None \<longrightarrow> \<not> isResourceError out)"
proof (cases "view p w (t, c)")
  case None
  then have "tool_spec same ''-L'' t c [] (view p w) = None" by (simp add: tool_spec_def)
  from exec_no [OF this] None show ?thesis
    by (auto simp: chainExists_def isResourceError_def iptablesStatusResourceProblem_def)
next
  case (Some rs)
  then have "tool_spec same ''-L'' t c [] (view p w) = Some (view p w)" by (simp add: tool_spec_def)
  from exec_ok [OF this] Some show ?thesis by (auto simp: chainExists_def)
qed

lemma canary_there_view:
  "\<exists>w'. canary_there exec p canary t w = (view p w (t, canary) \<noteq> None, w') \<and> view p w' = view p w"
  using chainExists_view [of p t canary w] by (auto simp: canary_there_def)

text \<open>Setting up the canaries succeeds; they are there then, and all other chains are as before.\<close>

lemma set_canaries_view:
  "\<exists>w'. set_canaries exec p canary tabs w = (True, w')
     \<and> (\<forall>t \<in> set tabs. view p w' (t, canary) \<noteq> None)
     \<and> (\<forall>t c. view p w (t, c) \<noteq> None \<or> c \<noteq> canary \<or> t \<notin> set tabs \<longrightarrow> view p w' (t, c) = view p w (t, c))"
proof (induction tabs arbitrary: w)
  case (Cons t ts)
  obtain w1 where w1: "runner_EnsureChain exec p t canary w = (Inr (view p w (t, canary) \<noteq> None), w1)"
      "view p w1 = (if view p w (t, canary) = None then (view p w)((t, canary) \<mapsto> []) else view p w)"
    using runner_ensure_chain [of p t canary w] by blast
  obtain w2 where w2: "set_canaries exec p canary ts w1 = (True, w2)" "\<forall>t \<in> set ts. view p w2 (t, canary) \<noteq> None"
      "\<forall>t c. view p w1 (t, c) \<noteq> None \<or> c \<noteq> canary \<or> t \<notin> set ts \<longrightarrow> view p w2 (t, c) = view p w1 (t, c)"
    using Cons.IH [of w1] by blast
  have t: "view p w1 (t, canary) \<noteq> None" using w1(2) by (auto split: if_splits)
  have "view p w2 (u, canary) \<noteq> None" if "u \<in> set (t # ts)" for u
    using that w2(2,3) t by (cases "u = t") auto
  moreover have "view p w2 (u, c) = view p w (u, c)"
    if "view p w (u, c) \<noteq> None \<or> c \<noteq> canary \<or> u \<notin> set (t # ts)" for u c
  proof -
    have same: "view p w1 (u, c) = view p w (u, c)" using that w1(2) by auto
    then have "view p w1 (u, c) \<noteq> None \<or> c \<noteq> canary \<or> u \<notin> set ts" using that by auto
    with w2(3) same show ?thesis by metis
  qed
  ultimately show ?case using w1(1) w2(1) by (intro exI [of _ w2]) simp
qed auto

text \<open>The monitor reloads only after it saw the first table without its canary.\<close>

lemma reload_after_flush:
  assumes "monitor_step exec p canary t0 ts reloadFunc world (Watching, b, w) (Settling, b', w')"
  shows "view p w (t0, canary) = None \<and> view p w' = view p w"
  using assms canary_there_view [of p canary t0 w] by (elim watching_settlingE) auto

lemma canaries_when_watching:
  assumes "monitor_step exec p canary t0 ts reloadFunc world (SettingUp tried, False, w) (Watching, b', w')"
  shows "\<forall>t \<in> set (t0 # ts). view p w' (t, canary) \<noteq> None"
  using assms set_canaries_view [of p canary "t0 # ts" w] by (elim setting_watchingE) auto

end

end
