(* ===== verification/ChainRaces.thy ===== *)
theory ChainRaces
  imports IpvsdrTables
begin

text \<open>
  \<open>Stop\<close> runs in the goroutine of the signal handler and does not wait for the worker, so an update of
  the chains may go on while they are deleted. The runner holds a mutex in each of its methods, hence
  what interleaves are whole method calls. A program over \<open>iptables.Interface\<close> is polymorphic in the
  world its calls act on: run on a tape of answers, it yields the calls it makes; the effects of an
  interleaving are those of a shuffle of the calls of the two goroutines.
\<close>

section \<open>Calls\<close>

datatype ipt_call =
    EnsureChainCall string string
  | FlushChainCall string string
  | DeleteChainCall string string
  | EnsureRuleCall rule_position string string rule
  | DeleteRuleCall string string rule

text \<open>What a call returned; the methods that return only an error answer \<open>True\<close> when there is none.\<close>

type_synonym answer = "go_error + bool"

definition answered :: "(go_error + unit) \<times> 'w \<Rightarrow> answer \<times> 'w" where
  "answered = map_prod (map_sum id (\<lambda>_. True)) id"

lemma answered_snd [simp]: "snd (answered x) = snd x"
  by (cases x) (simp add: answered_def)

fun ipt_do :: "'w ipt_iface \<Rightarrow> ipt_call \<Rightarrow> 'w \<Rightarrow> answer \<times> 'w" where
  "ipt_do it (EnsureChainCall t c) w = ipt_EnsureChain it t c w"
| "ipt_do it (FlushChainCall t c) w = answered (ipt_FlushChain it t c w)"
| "ipt_do it (DeleteChainCall t c) w = answered (ipt_DeleteChain it t c w)"
| "ipt_do it (EnsureRuleCall ps t c r) w = ipt_EnsureRule it ps t c r w"
| "ipt_do it (DeleteRuleCall t c r) w = answered (ipt_DeleteRule it t c r w)"

fun run_calls ::
  "(protocol \<Rightarrow> 'w ipt_iface) \<Rightarrow> (protocol \<times> ipt_call) list \<Rightarrow> 'w \<Rightarrow> answer list \<times> 'w" where
  "run_calls ipt [] w = ([], w)"
| "run_calls ipt ((p, c) # cs) w =
     (case ipt_do (ipt p) c w of (a, w1) \<Rightarrow> (case run_calls ipt cs w1 of (as, w2) \<Rightarrow> (a # as, w2)))"

lemma run_calls_append:
  "run_calls ipt (cs @ ds) w =
     (case run_calls ipt cs w of (as, w1) \<Rightarrow> (case run_calls ipt ds w1 of (bs, w2) \<Rightarrow> (as @ bs, w2)))"
  by (induction cs arbitrary: w) (auto split: prod.split)

section \<open>The calls of a program\<close>

text \<open>A tape of answers, consumed one by one, and the calls made so far; past its end a call fails.\<close>

record tape =
  tp_answers :: "answer list"
  tp_calls :: "(protocol \<times> ipt_call) list"

definition record_call :: "protocol \<Rightarrow> ipt_call \<Rightarrow> (tape, go_error, bool) prog" where
  "record_call p c s =
     (case tp_answers s of
        [] \<Rightarrow> (Inl (Errorf ''no answer''), s\<lparr>tp_calls := tp_calls s @ [(p, c)]\<rparr>)
      | a # as \<Rightarrow> (a, \<lparr>tp_answers = as, tp_calls = tp_calls s @ [(p, c)]\<rparr>))"

definition recorder :: "protocol \<Rightarrow> tape ipt_iface" where
  "recorder p =
     \<lparr> ipt_EnsureChain = (\<lambda>t c. record_call p (EnsureChainCall t c)),
       ipt_FlushChain = (\<lambda>t c. seqE (record_call p (FlushChainCall t c)) (\<lambda>_. retE ())),
       ipt_DeleteChain = (\<lambda>t c. seqE (record_call p (DeleteChainCall t c)) (\<lambda>_. retE ())),
       ipt_EnsureRule = (\<lambda>ps t c r. record_call p (EnsureRuleCall ps t c r)),
       ipt_DeleteRule = (\<lambda>t c r. seqE (record_call p (DeleteRuleCall t c r)) (\<lambda>_. retE ())) \<rparr>"

definition calls_of :: "(tape, go_error, 'a) prog \<Rightarrow> answer list \<Rightarrow> (protocol \<times> ipt_call) list" where
  "calls_of m as = tp_calls (snd (m \<lparr>tp_answers = as, tp_calls = []\<rparr>))"

text \<open>
  \<open>m'\<close> on the tape makes the calls that \<open>m\<close> makes on the objects, when it is given their answers, and
  returns the same.
\<close>

definition follows ::
  "(protocol \<Rightarrow> 'w ipt_iface) \<Rightarrow> ('w, go_error, 'a) prog \<Rightarrow> (tape, go_error, 'a) prog \<Rightarrow> bool" where
  "follows ipt m m' \<longleftrightarrow> (\<forall>w. \<exists>cs as r w'. run_calls ipt cs w = (as, w') \<and> m w = (r, w')
     \<and> (\<forall>rest before. m' \<lparr>tp_answers = as @ rest, tp_calls = before\<rparr> =
          (r, \<lparr>tp_answers = rest, tp_calls = before @ cs\<rparr>)))"

named_theorems follows_intros \<open>programs that follow a program on the tape\<close>

lemma follows_basic [follows_intros]: "follows ipt (retE x) (retE x)" "follows ipt (throwE e) (throwE e)"
  unfolding follows_def by (rule allI, rule exI [of _ "[]"], simp)+

lemma follows_seqE [follows_intros]:
  assumes m: "follows ipt m m'" and k: "\<And>x. follows ipt (k x) (k' x)"
  shows "follows ipt (seqE m k) (seqE m' k')"
  unfolding follows_def
proof
  fix w
  obtain cs as r w1 where 1: "run_calls ipt cs w = (as, w1)" "m w = (r, w1)"
      "\<And>rest before. m' \<lparr>tp_answers = as @ rest, tp_calls = before\<rparr> = (r, \<lparr>tp_answers = rest, tp_calls = before @ cs\<rparr>)"
    using m unfolding follows_def by blast
  show "\<exists>cs as r w'. run_calls ipt cs w = (as, w') \<and> seqE m k w = (r, w')
      \<and> (\<forall>rest before. seqE m' k' \<lparr>tp_answers = as @ rest, tp_calls = before\<rparr> =
          (r, \<lparr>tp_answers = rest, tp_calls = before @ cs\<rparr>))"
  proof (cases r)
    case (Inl e)
    with 1 show ?thesis
      by (intro exI [of _ cs] exI [of _ as] exI [of _ "Inl e"] exI [of _ w1]) (simp add: seqE_def)
  next
    case (Inr x)
    obtain ds bs r2 w2 where 2: "run_calls ipt ds w1 = (bs, w2)" "k x w1 = (r2, w2)"
        "\<And>rest before. k' x \<lparr>tp_answers = bs @ rest, tp_calls = before\<rparr> = (r2, \<lparr>tp_answers = rest, tp_calls = before @ ds\<rparr>)"
      using k [of x] unfolding follows_def by blast
    from 1 2 Inr show ?thesis
      by (intro exI [of _ "cs @ ds"] exI [of _ "as @ bs"] exI [of _ r2] exI [of _ w2])
         (simp add: seqE_def run_calls_append)
  qed
qed

lemma follows_forE [follows_intros]:
  "(\<And>x. follows ipt (body x) (body' x)) \<Longrightarrow> follows ipt (forE xs body) (forE xs body')"
  by (induction xs) (auto intro: follows_intros)

lemma follows_ignoreE [follows_intros]: "follows ipt m m' \<Longrightarrow> follows ipt (ignoreE m) (ignoreE m')"
  unfolding follows_def
proof
  fix w
  assume "\<forall>w. \<exists>cs as r w'. run_calls ipt cs w = (as, w') \<and> m w = (r, w')
     \<and> (\<forall>rest before. m' \<lparr>tp_answers = as @ rest, tp_calls = before\<rparr> =
          (r, \<lparr>tp_answers = rest, tp_calls = before @ cs\<rparr>))"
  then obtain cs as r w1 where 1: "run_calls ipt cs w = (as, w1)" "m w = (r, w1)"
      "\<And>rest before. m' \<lparr>tp_answers = as @ rest, tp_calls = before\<rparr> = (r, \<lparr>tp_answers = rest, tp_calls = before @ cs\<rparr>)"
    by blast
  show "\<exists>cs as r w'. run_calls ipt cs w = (as, w') \<and> ignoreE m w = (r, w')
      \<and> (\<forall>rest before. ignoreE m' \<lparr>tp_answers = as @ rest, tp_calls = before\<rparr> =
          (r, \<lparr>tp_answers = rest, tp_calls = before @ cs\<rparr>))"
    using 1 by (intro exI [of _ cs] exI [of _ as] exI [of _ "fst (ignoreE m w)"] exI [of _ w1])
      (simp add: ignoreE_def split: sum.split)
qed

lemma follows_if [follows_intros]:
  "follows ipt m m' \<Longrightarrow> follows ipt k k' \<Longrightarrow> follows ipt (if b then m else k) (if b then m' else k')"
  by simp

lemma follows_option [follows_intros]:
  "follows ipt m m' \<Longrightarrow> (\<And>x. follows ipt (k x) (k' x)) \<Longrightarrow>
     follows ipt (case z of None \<Rightarrow> m | Some x \<Rightarrow> k x) (case z of None \<Rightarrow> m' | Some x \<Rightarrow> k' x)"
  by (cases z) simp_all

lemma follows_sum [follows_intros]:
  "(\<And>e. follows ipt (h e) (h' e)) \<Longrightarrow> (\<And>x. follows ipt (k x) (k' x)) \<Longrightarrow>
     follows ipt (case z of Inl e \<Rightarrow> h e | Inr x \<Rightarrow> k x) (case z of Inl e \<Rightarrow> h' e | Inr x \<Rightarrow> k' x)"
  by (cases z) simp_all

lemma follows_pair [follows_intros]:
  "(\<And>x y. follows ipt (k x y) (k' x y)) \<Longrightarrow> follows ipt (case z of (x, y) \<Rightarrow> k x y) (case z of (x, y) \<Rightarrow> k' x y)"
  by (cases z) simp

lemma follows_calls [follows_intros]:
  "follows ipt (ipt_EnsureChain (ipt p) t c) (ipt_EnsureChain (recorder p) t c)"
  "follows ipt (ipt_FlushChain (ipt p) t c) (ipt_FlushChain (recorder p) t c)"
  "follows ipt (ipt_DeleteChain (ipt p) t c) (ipt_DeleteChain (recorder p) t c)"
  "follows ipt (ipt_EnsureRule (ipt p) ps t c r) (ipt_EnsureRule (recorder p) ps t c r)"
  "follows ipt (ipt_DeleteRule (ipt p) t c r) (ipt_DeleteRule (recorder p) t c r)"
proof -
  have direct: "follows ipt m (record_call p c)" if "\<And>w. ipt_do (ipt p) c w = m w" for m c
    unfolding follows_def
    by (rule allI, rule exI [of _ "[(p, c)]"])
       (simp add: that record_call_def split: prod.split)
  have void: "follows ipt m (seqE (record_call p c) (\<lambda>_. retE ()))"
    if c: "\<And>w. ipt_do (ipt p) c w = answered (m w)" for m c
    unfolding follows_def
  proof
    fix w
    obtain r w1 where m: "m w = (r, w1)" by fastforce
    have r: "r = map_sum id (\<lambda>_. ()) (map_sum id (\<lambda>_. True) r)" by (cases r) simp_all
    show "\<exists>cs as r w'. run_calls ipt cs w = (as, w') \<and> m w = (r, w')
      \<and> (\<forall>rest before. seqE (record_call p c) (\<lambda>_. retE ()) \<lparr>tp_answers = as @ rest, tp_calls = before\<rparr> =
          (r, \<lparr>tp_answers = rest, tp_calls = before @ cs\<rparr>))"
      by (rule exI [of _ "[(p, c)]"], rule exI [of _ "[map_sum id (\<lambda>_. True) r]"], rule exI [of _ r], rule exI [of _ w1])
         (cases r; simp add: c m answered_def record_call_def seqE_def)
  qed
  show "follows ipt (ipt_EnsureChain (ipt p) t c) (ipt_EnsureChain (recorder p) t c)"
    "follows ipt (ipt_FlushChain (ipt p) t c) (ipt_FlushChain (recorder p) t c)"
    "follows ipt (ipt_DeleteChain (ipt p) t c) (ipt_DeleteChain (recorder p) t c)"
    "follows ipt (ipt_EnsureRule (ipt p) ps t c r) (ipt_EnsureRule (recorder p) ps t c r)"
    "follows ipt (ipt_DeleteRule (ipt p) t c r) (ipt_DeleteRule (recorder p) t c r)"
    by (simp_all add: recorder_def direct void)
qed

section \<open>The calls of an update and of Stop\<close>

definition update_calls ::
  "string \<Rightarrow> string list \<Rightarrow> ipvsdr_provider \<Rightarrow> all_selectors \<Rightarrow> (string \<times> node_status) list \<Rightarrow> string list
   \<Rightarrow> string list \<Rightarrow> answer list \<Rightarrow> (protocol \<times> ipt_call) list" where
  "update_calls me nodes ipvs sels allNodeIPs tcps udps =
     calls_of (onUpdateIPtables recorder me nodes ipvs sels allNodeIPs tcps udps)"

definition flush_calls :: "(protocol \<times> ipt_call) list" where
  "flush_calls =
     [(ProtocolIpv4, FlushChainCall tableMangle iptablesChain), (ProtocolIpv6, FlushChainCall tableMangle iptablesChain),
      (ProtocolIpv4, FlushChainCall tableFilter iptablesOutputChain), (ProtocolIpv6, FlushChainCall tableFilter iptablesOutputChain)]"

definition removal_calls :: "protocol \<Rightarrow> (protocol \<times> ipt_call) list" where
  "removal_calls p =
     [(p, DeleteRuleCall tableMangle ChainPrerouting (jump_to iptablesChain)), (p, DeleteChainCall tableMangle iptablesChain),
      (p, DeleteRuleCall tableFilter ChainOutput (jump_to iptablesOutputChain)), (p, DeleteChainCall tableFilter iptablesOutputChain)]"

definition stop_calls :: "(protocol \<times> ipt_call) list" where
  "stop_calls = flush_calls @ removal_calls ProtocolIpv4 @ removal_calls ProtocolIpv6"

lemma follows_setMark [follows_intros]:
  "follows ipt (setIptablesMark ipt ps ip protocol iface mark mac ports)
     (setIptablesMark recorder ps ip protocol iface mark mac ports)"
  unfolding setIptablesMark_def Let_def by (intro follows_intros)

lemma follows_ensureMark [follows_intros]:
  "follows ipt (ensureIptablesMark ipt vip iface nodeIPs tcps udps)
     (ensureIptablesMark recorder vip iface nodeIPs tcps udps)"
  unfolding ensureIptablesMark_def Let_def by (intro follows_intros)

lemma follows_outputDrop [follows_intros]:
  "follows ipt (ensureIptablesOutputDrop ipt vip iface) (ensureIptablesOutputDrop recorder vip iface)"
  unfolding ensureIptablesOutputDrop_def by (intro follows_intros)

lemma follows_flushChain [follows_intros]: "follows ipt (flushChain ipt) (flushChain recorder)"
  unfolding flushChain_def by (intro follows_intros)

lemma follows_update:
  "follows ipt (onUpdateIPtables ipt me nodes ipvs sels allNodeIPs tcps udps)
     (onUpdateIPtables recorder me nodes ipvs sels allNodeIPs tcps udps)"
  unfolding onUpdateIPtables_def by (intro follows_intros)

text \<open>An update that is run alone is the run of its calls, with the answers it got.\<close>

lemma update_is_its_calls:
  assumes "onUpdateIPtables ipt me nodes ipvs sels allNodeIPs tcps udps w = (r, w')"
  shows "\<exists>as. run_calls ipt (update_calls me nodes ipvs sels allNodeIPs tcps udps as) w = (as, w')"
proof -
  obtain cs as where 1: "run_calls ipt cs w = (as, w')"
      "\<And>rest before. onUpdateIPtables recorder me nodes ipvs sels allNodeIPs tcps udps
         \<lparr>tp_answers = as @ rest, tp_calls = before\<rparr> = (r, \<lparr>tp_answers = rest, tp_calls = before @ cs\<rparr>)"
    using follows_update [of ipt me nodes ipvs sels allNodeIPs tcps udps] assms unfolding follows_def
    by (metis prod.inject)
  have "update_calls me nodes ipvs sels allNodeIPs tcps udps as = cs"
    using 1(2) [of "[]" "[]"] by (simp add: update_calls_def calls_of_def)
  with 1(1) show ?thesis by blast
qed

text \<open>All calls of an update go to the provider's chains; their rules mark and drop packets.\<close>

fun own_call :: "ipt_call \<Rightarrow> bool" where
  "own_call (FlushChainCall t c) = own_chain (t, c)"
| "own_call (EnsureRuleCall ps t c r) = (own_chain (t, c) \<and> rule_target r \<in> {Some ''MARK'', Some ''DROP''})"
| "own_call _ = False"

definition own_tape :: "tape \<Rightarrow> bool" where
  "own_tape s = list_all (\<lambda>(p, c). own_call c) (tp_calls s)"

lemma ignoring_maintains [maintains_intros]: "maintains P m \<Longrightarrow> maintains P (ignoreE m)"
  by (simp add: maintains_def)

lemma own_record [maintains_intros]: "own_call c \<Longrightarrow> maintains own_tape (record_call p c)"
  by (simp add: maintains_def own_tape_def record_call_def split: list.split)

lemma own_flush [maintains_intros]:
  "own_chain (t, c) \<Longrightarrow> maintains own_tape (ipt_FlushChain (recorder p) t c)"
  by (simp add: recorder_def) (intro maintains_intros, simp)

lemma own_rule [maintains_intros]:
  "own_call (EnsureRuleCall ps t c r) \<Longrightarrow> maintains own_tape (ipt_EnsureRule (recorder p) ps t c r)"
  by (simp add: recorder_def own_record)

lemma own_chain_names [simp]:
  "own_chain (tableMangle, iptablesChain)" "own_chain (tableFilter, iptablesOutputChain)"
  "\<not> own_chain (tableMangle, ChainPrerouting)" "\<not> own_chain (tableFilter, ChainOutput)"
  by (simp_all add: own_chain_def)

lemma own_setMark [maintains_intros]:
  "maintains own_tape (setIptablesMark recorder ps ip protocol iface mark mac ports)"
  unfolding setIptablesMark_def Let_def by (intro maintains_intros) simp_all

lemma update_calls_own:
  "list_all (\<lambda>(p, c). own_call c) (update_calls me nodes ipvs sels allNodeIPs tcps udps as)"
proof -
  have "maintains own_tape (onUpdateIPtables recorder me nodes ipvs sels allNodeIPs tcps udps)"
    unfolding onUpdateIPtables_def flushChain_def ensureIptablesMark_def ensureIptablesOutputDrop_def Let_def
    by (intro maintains_intros) simp_all
  from maintains_snd [OF this, of "\<lparr>tp_answers = as, tp_calls = []\<rparr>"] show ?thesis
    by (simp add: update_calls_def calls_of_def own_tape_def)
qed

text \<open>The calls of \<open>Stop\<close> do not depend on the answers, for a runner does not panic.\<close>

lemma runner_answers:
  "ignoreE (ipt_FlushChain (newRunner exec p) t c) w = (Inr (), snd (ipt_do (newRunner exec p) (FlushChainCall t c) w))"
  "ignoreE (ipt_DeleteChain (newRunner exec p) t c) w = (Inr (), snd (ipt_do (newRunner exec p) (DeleteChainCall t c) w))"
  "ignoreE (ipt_DeleteRule (newRunner exec p) t c r) w = (Inr (), snd (ipt_do (newRunner exec p) (DeleteRuleCall t c r) w))"
  by (auto simp: runner_FlushChain_def runner_DeleteChain_def runner_DeleteRule_def checkRuleUsingCheck_def seqE_def
      ignoreE_def answered_def split: prod.splits sum.splits cmd_out.splits if_splits)

lemma stop_parts:
  "flushChain (newRunner exec) w = (Inr (), snd (run_calls (newRunner exec) flush_calls w))"
  "forE [ProtocolIpv4, ProtocolIpv6] (\<lambda>p. deleteChain_on (newRunner exec p)) w =
     (Inr (), snd (run_calls (newRunner exec) (removal_calls ProtocolIpv4 @ removal_calls ProtocolIpv6) w))"
  by (simp_all add: flushChain_def deleteChain_on_def flush_calls_def removal_calls_def jump_to_def seqE_def runner_answers
      split: prod.split del: newRunner_simps ipt_do.simps)

lemma stop_is_its_calls: "deleteChain (newRunner exec) w = (Inr (), snd (run_calls (newRunner exec) stop_calls w))"
  unfolding deleteChain_def stop_calls_def
  by (simp add: seqE_def stop_parts run_calls_append [of _ flush_calls] split: prod.split del: forE.simps)

section \<open>What calls do to the tables\<close>

fun call_effect :: "(rule \<Rightarrow> rule \<Rightarrow> bool) \<Rightarrow> ipt_call \<Rightarrow> tables \<Rightarrow> tables" where
  "call_effect same (EnsureChainCall t c) T = (if T (t, c) = None then T((t, c) \<mapsto> []) else T)"
| "call_effect same (FlushChainCall t c) T = (if T (t, c) = None then T else T((t, c) \<mapsto> []))"
| "call_effect same (DeleteChainCall t c) T =
     (if T (t, c) = Some [] \<and> c \<notin> set builtin_chains \<and> \<not> referenced T t c then T((t, c) := None) else T)"
| "call_effect same (EnsureRuleCall ps t c r) T =
     (case T (t, c) of None \<Rightarrow> T
      | Some rs \<Rightarrow> if target_ok T t r then T((t, c) \<mapsto> add_rule same ps r rs) else T)"
| "call_effect same (DeleteRuleCall t c r) T =
     (case T (t, c) of None \<Rightarrow> T | Some rs \<Rightarrow> T((t, c) \<mapsto> drop_first same r rs))"

fun calls_effect :: "(rule \<Rightarrow> rule \<Rightarrow> bool) \<Rightarrow> protocol \<Rightarrow> (protocol \<times> ipt_call) list \<Rightarrow> tables \<Rightarrow> tables" where
  "calls_effect same p [] T = T"
| "calls_effect same p ((q, c) # cs) T = calls_effect same p cs (if q = p then call_effect same c T else T)"

lemma calls_effect_append: "calls_effect same p (cs @ ds) T = calls_effect same p ds (calls_effect same p cs T)"
  by (induction cs arbitrary: T) auto

context iptables_tool
begin

lemma check_view: "view p (snd (checkRuleUsingCheck exec p (makeFullArgs t c r) w)) = view p w"
proof (cases "tool_spec same ''-C'' t c r (view p w)")
  case None
  from exec_no [OF this] show ?thesis by (auto simp: checkRuleUsingCheck_def)
next
  case (Some T)
  then have "T = view p w" by (auto simp: tool_spec_def split: option.splits if_splits)
  with exec_ok [OF Some] show ?thesis by (auto simp: checkRuleUsingCheck_def)
qed

lemma check_missing:
  assumes "view p w (t, c) = None"
  shows "\<exists>w'. checkRuleUsingCheck exec p (makeFullArgs t c r) w = (Inr False, w') \<and> view p w' = view p w"
proof -
  have "tool_spec same ''-C'' t c r (view p w) = None" using assms by (simp add: tool_spec_def)
  from exec_no [OF this] show ?thesis by (auto simp: checkRuleUsingCheck_def)
qed

lemma effect_delete_chain:
  "view p (snd (runner_DeleteChain exec p t c w)) = call_effect same (DeleteChainCall t c) (view p w)"
proof (cases "view p w (t, c) = Some [] \<and> c \<notin> set builtin_chains \<and> \<not> referenced (view p w) t c")
  case True
  with runner_delete_chain [of p w t c] show ?thesis by fastforce
next
  case False
  then have "tool_spec same ''-X'' t c [] (view p w) = None" by (auto simp: tool_spec_def split: option.split)
  from exec_no [OF this] False show ?thesis by (auto simp: runner_DeleteChain_def)
qed

lemma effect_ensure_rule:
  "view p (snd (runner_EnsureRule (check_with exec p) exec p ps t c r w)) =
     call_effect same (EnsureRuleCall ps t c r) (view p w)"
proof (cases "\<exists>rs. view p w (t, c) = Some rs \<and> target_ok (view p w) t r")
  case True
  with runner_ensure_rule [of p w t c _ r ps] show ?thesis by fastforce
next
  case False
  then have no: "call_effect same (EnsureRuleCall ps t c r) (view p w) = view p w" by (auto split: option.split)
  obtain q w1 where w1: "checkRuleUsingCheck exec p (makeFullArgs t c r) w = (q, w1)" by fastforce
  have v1: "view p w1 = view p w" using check_view [of p t c r w] w1 by simp
  have "tool_spec same (position_flag ps) t c r (view p w1) = None"
    using False v1 by (auto simp: tool_spec_def position_flag_def split: option.split rule_position.split)
  from exec_no [OF this] v1 w1 no show ?thesis
    by (auto simp: runner_EnsureRule_def seqE_def split: sum.split)
qed

lemma effect_delete_rule:
  "view p (snd (runner_DeleteRule (check_with exec p) exec p t c r w)) =
     call_effect same (DeleteRuleCall t c r) (view p w)"
proof (cases "view p w (t, c)")
  case None
  with check_missing [OF None, of r] show ?thesis by (auto simp: runner_DeleteRule_def seqE_def)
next
  case (Some rs)
  with runner_delete_rule [OF Some, of r] show ?thesis by fastforce
qed

lemma effect_call:
  "view p (snd (ipt_do (newRunner exec q) c w)) = (if q = p then call_effect same c (view p w) else view p w)"
proof (cases "q = p")
  case True
  have flush: "snd (runner_FlushChain exec p t c w) = snd (ignoreE (runner_FlushChain exec p t c) w)" for t c
    by simp
  show ?thesis
  proof (cases c)
    case (EnsureChainCall t d)
    then show ?thesis using runner_ensure_chain [of p t d w] True by auto
  next
    case (FlushChainCall t d)
    obtain w' where "ignoreE (runner_FlushChain exec p t d) w = (Inr (), w')"
        "view p w' = (if view p w (t, d) = None then view p w else (view p w)((t, d) \<mapsto> []))"
      using runner_flush_chain [of p t d w] by blast
    moreover from this(1) have "snd (runner_FlushChain exec p t d w) = w'" unfolding flush by simp
    ultimately show ?thesis using FlushChainCall True by simp
  next
    case (DeleteChainCall t d)
    then show ?thesis using effect_delete_chain [of p t d w] True by simp
  next
    case (EnsureRuleCall ps t d r)
    then show ?thesis using effect_ensure_rule [of p ps t d r w] True by simp
  next
    case (DeleteRuleCall t d r)
    then show ?thesis using effect_delete_rule [of p t d r w] True by simp
  qed
next
  case False
  then have "p \<noteq> q" by simp
  from chain_other [OF this] rule_other [OF this] False show ?thesis by (cases c) simp_all
qed

lemma effect_calls:
  "run_calls (newRunner exec) cs w = (as, w') \<Longrightarrow> view p w' = calls_effect same p cs (view p w)"
proof (induction cs arbitrary: w as)
  case (Cons a cs)
  obtain q c where a: "a = (q, c)" by (cases a)
  obtain b w1 where 1: "ipt_do (newRunner exec q) c w = (b, w1)" by fastforce
  obtain bs where "run_calls (newRunner exec) cs w1 = (bs, w')"
    using Cons.prems 1 by (auto simp: a split: prod.splits)
  from Cons.IH [OF this] effect_call [of p q c w] show ?case by (simp add: a 1)
qed simp

end

section \<open>Tables while Stop and an update interleave\<close>

definition mark_rules :: "rule list \<Rightarrow> bool" where
  "mark_rules = list_all (\<lambda>r. rule_target r \<in> {Some ''MARK'', Some ''DROP''})"

lemma mark_rules_simps [simp]:
  "mark_rules []"
  "mark_rules rs \<Longrightarrow> rule_target r \<in> {Some ''MARK'', Some ''DROP''} \<Longrightarrow> mark_rules (add_rule same ps r rs)"
  by (auto simp: mark_rules_def add_rule_def split: rule_position.split)

lemma own_target_ok: "rule_target r \<in> {Some ''MARK'', Some ''DROP''} \<Longrightarrow> target_ok T t r"
  by (auto simp: target_ok_def builtin_targets_def)

text \<open>The tables of a running provider, on tables that were \<open>T\<close> before it started.\<close>

definition serving_tables :: "tables \<Rightarrow> tables \<Rightarrow> bool" where
  "serving_tables T U \<longleftrightarrow> (\<exists>ms os. mark_rules ms \<and> mark_rules os \<and> U = with_chains T ms os)"

lemma with_chains_upd [simp]:
  "(with_chains T ms os)((tableMangle, iptablesChain) \<mapsto> ms') = with_chains T ms' os"
  "(with_chains T ms os)((tableFilter, iptablesOutputChain) \<mapsto> os') = with_chains T ms os'"
  "with_chains T ms os (tableMangle, iptablesChain) = Some ms"
  "with_chains T ms os (tableFilter, iptablesOutputChain) = Some os"
  by (auto simp: with_chains_def fun_eq_iff)

lemma own_chain_cases:
  assumes "own_chain (t, c)"
  obtains "t = tableMangle" "c = iptablesChain" | "t = tableFilter" "c = iptablesOutputChain"
  using assms by (auto simp: own_chain_def)

lemma serving_own_call:
  assumes "serving_tables T U" "own_call c"
  shows "serving_tables T (call_effect same c U)"
proof -
  obtain ms os where U: "mark_rules ms" "mark_rules os" "U = with_chains T ms os"
    using assms(1) unfolding serving_tables_def by blast
  have put: "serving_tables T (U((t, d) \<mapsto> rs))" if "own_chain (t, d)" "mark_rules rs" for t d rs
    using that U by (elim own_chain_cases) (auto simp: serving_tables_def)
  have marks: "\<exists>rs. U (t, d) = Some rs \<and> mark_rules rs" if "own_chain (t, d)" for t d
    using that U by (elim own_chain_cases) simp_all
  show ?thesis
  proof (cases c)
    case (EnsureRuleCall ps t d r)
    with assms(2) have r: "own_chain (t, d)" "rule_target r \<in> {Some ''MARK'', Some ''DROP''}" by simp_all
    obtain rs where "U (t, d) = Some rs" "mark_rules rs" using marks [OF r(1)] by blast
    with put [OF r(1)] r(2) own_target_ok [OF r(2)] EnsureRuleCall show ?thesis by simp
  qed (use assms put in auto)
qed

lemma serving_own_calls:
  "serving_tables T U \<Longrightarrow> list_all (\<lambda>(p, c). own_call c) cs \<Longrightarrow> serving_tables T (calls_effect same p cs U)"
proof (induction cs arbitrary: U)
  case (Cons a cs)
  then show ?case by (cases a) (simp add: serving_own_call)
qed simp

text \<open>
  In between, the jumps to the provider's chains are there or not, and so are the chains; whatever is in
  them marks or drops packets. Everything else is as before the start.
\<close>

definition torn_tables :: "tables \<Rightarrow> tables \<Rightarrow> bool" where
  "torn_tables T U \<longleftrightarrow>
     (\<forall>k. \<not> own_chain k \<longrightarrow> U k = T k
        \<or> (k = (tableMangle, ChainPrerouting) \<and> U k = Some (the (T k) @ [jump_to iptablesChain]))
        \<or> (k = (tableFilter, ChainOutput) \<and> U k = Some (the (T k) @ [jump_to iptablesOutputChain])))
     \<and> (\<forall>k rs. own_chain k \<longrightarrow> U k = Some rs \<longrightarrow> mark_rules rs)"

lemma with_chains_at:
  "\<not> own_chain k \<Longrightarrow> with_chains T ms os k =
     (if k = (tableMangle, ChainPrerouting) then Some (the (T k) @ [jump_to iptablesChain])
      else if k = (tableFilter, ChainOutput) then Some (the (T k) @ [jump_to iptablesOutputChain]) else T k)"
  "own_chain k \<Longrightarrow> with_chains T ms os k = Some (if k = (tableMangle, iptablesChain) then ms else os)"
  by (auto simp: with_chains_def own_chain_def)

lemma serving_torn: "serving_tables T U \<Longrightarrow> torn_tables T U"
  unfolding serving_tables_def torn_tables_def by (elim exE conjE) (simp add: with_chains_at)

text \<open>The calls of the two goroutines, by the kinds of \<open>Stop\<close>'s.\<close>

definition race_call :: "ipt_call \<Rightarrow> bool" where
  "race_call c \<longleftrightarrow> own_call c \<or> (\<exists>t d. own_chain (t, d) \<and> c = DeleteChainCall t d)
     \<or> c = DeleteRuleCall tableMangle ChainPrerouting (jump_to iptablesChain)
     \<or> c = DeleteRuleCall tableFilter ChainOutput (jump_to iptablesOutputChain)"

lemma stop_race_calls: "list_all (\<lambda>(p, c). race_call c) stop_calls"
  by (auto simp: stop_calls_def flush_calls_def removal_calls_def race_call_def)

lemma own_effect:
  assumes "own_call c \<or> (\<exists>t d. own_chain (t, d) \<and> c = DeleteChainCall t d)" "\<not> own_chain k"
  shows "call_effect same c U k = U k"
  using assms by (cases c) (auto split: option.split)

lemma own_effect_marks:
  assumes "own_call c \<or> (\<exists>t d. own_chain (t, d) \<and> c = DeleteChainCall t d)"
    and "\<forall>k rs. own_chain k \<longrightarrow> U k = Some rs \<longrightarrow> mark_rules rs"
  shows "\<forall>k rs. own_chain k \<longrightarrow> call_effect same c U k = Some rs \<longrightarrow> mark_rules rs"
  using assms by (cases c) (auto split: option.splits if_splits)

lemma jump_removed:
  assumes "fresh_tables same T" "same (jump_to c0) (jump_to c0)" "torn_tables T U"
    and "(t, c, c0) = (tableMangle, ChainPrerouting, iptablesChain) \<or> (t, c, c0) = (tableFilter, ChainOutput, iptablesOutputChain)"
  shows "call_effect same (DeleteRuleCall t c (jump_to c0)) U = U((t, c) := T (t, c))"
proof -
  obtain rs where T: "T (t, c) = Some rs" "\<not> has_rule same (jump_to c0) rs"
    using assms(1,4) unfolding fresh_tables_def by auto
  have "U (t, c) = T (t, c) \<or> U (t, c) = Some (the (T (t, c)) @ [jump_to c0])"
    using assms(3) [unfolded torn_tables_def, THEN conjunct1, rule_format, of "(t, c)"] assms(4) by auto
  with T show ?thesis
    using drop_first_absent [OF T(2)] drop_first_snoc [OF assms(2) T(2)] by auto
qed

lemma torn_race_call:
  assumes "fresh_tables same T" "\<And>r. same r r" "torn_tables T U" "race_call c"
  shows "torn_tables T (call_effect same c U) \<and> (\<forall>k. \<not> own_chain k \<longrightarrow> U k = T k \<longrightarrow> call_effect same c U k = T k)"
proof (cases "own_call c \<or> (\<exists>t d. own_chain (t, d) \<and> c = DeleteChainCall t d)")
  case True
  with own_effect [OF True] own_effect_marks [OF True, of U] assms(3) show ?thesis
    unfolding torn_tables_def by simp
next
  case False
  then obtain t d c0 where c: "c = DeleteRuleCall t d (jump_to c0)"
      "(t, d, c0) = (tableMangle, ChainPrerouting, iptablesChain) \<or> (t, d, c0) = (tableFilter, ChainOutput, iptablesOutputChain)"
    using assms(4) unfolding race_call_def by blast
  have eff: "call_effect same c U = U((t, d) := T (t, d))"
    unfolding c(1) by (rule jump_removed [OF assms(1,2,3) c(2)])
  have "\<not> own_chain (t, d)" using c(2) by auto
  then show ?thesis using assms(3) unfolding eff torn_tables_def by auto
qed

lemma torn_race:
  assumes "fresh_tables same T" "\<And>r. same r r"
  shows "torn_tables T U \<Longrightarrow> list_all (\<lambda>(p, c). race_call c) cs \<Longrightarrow>
    torn_tables T (calls_effect same p cs U)
    \<and> (\<forall>k. \<not> own_chain k \<longrightarrow> U k = T k \<longrightarrow> calls_effect same p cs U k = T k)"
proof (induction cs arbitrary: U)
  case (Cons a cs)
  obtain q c where a: "a = (q, c)" by (cases a)
  with Cons.prems have c: "race_call c" "list_all (\<lambda>(p, c). race_call c) cs" by simp_all
  from torn_race_call [OF assms Cons.prems(1) c(1)] Cons.IH [OF _ c(2)] Cons.prems(1) show ?case
    by (simp add: a)
qed simp

text \<open>Once both jumps were removed, only the provider's own chains may be left.\<close>

lemma race_end:
  assumes "fresh_tables same T" "\<And>r. same r r" "torn_tables T U" "list_all (\<lambda>(p, c). race_call c) zs"
    and "set (removal_calls p) \<subseteq> set zs" "\<not> own_chain k"
  shows "calls_effect same p zs U k = T k"
proof -
  have cut: "calls_effect same p zs U (t, c) = T (t, c)"
    if j: "(t, c, c0) = (tableMangle, ChainPrerouting, iptablesChain) \<or> (t, c, c0) = (tableFilter, ChainOutput, iptablesOutputChain)"
    for t c c0
  proof -
    have "(p, DeleteRuleCall t c (jump_to c0)) \<in> set zs" using assms(5) j by (auto simp: removal_calls_def)
    then obtain xs ys where zs: "zs = xs @ (p, DeleteRuleCall t c (jump_to c0)) # ys" by (metis split_list)
    let ?U1 = "calls_effect same p xs U"
    have t1: "torn_tables T ?U1" using torn_race [OF assms(1-3)] assms(4) zs by simp
    have e: "call_effect same (DeleteRuleCall t c (jump_to c0)) ?U1 = ?U1((t, c) := T (t, c))"
      by (rule jump_removed [OF assms(1,2) t1 j])
    have c: "race_call (DeleteRuleCall t c (jump_to c0))" using j by (auto simp: race_call_def)
    have t2: "torn_tables T (?U1((t, c) := T (t, c)))"
      using torn_race_call [OF assms(1,2) t1 c] e by simp
    have "\<not> own_chain (t, c)" using j by auto
    with torn_race [OF assms(1,2) t2, of ys p] assms(4) show ?thesis
      unfolding zs calls_effect_append by (simp add: e del: call_effect.simps)
  qed
  have "torn_tables T (calls_effect same p zs U)" using torn_race [OF assms(1-4)] by blast
  then show ?thesis
    using assms(6) cut unfolding torn_tables_def by (metis (no_types))
qed

section \<open>The interleaving that leaves the chains behind\<close>

text \<open>The rules of the two chains after an update.\<close>

definition updated_chains ::
  "(rule \<Rightarrow> rule \<Rightarrow> bool) \<Rightarrow> ipvsdr_provider \<Rightarrow> iface_preferred \<Rightarrow> iface_preferred list \<Rightarrow> string list \<Rightarrow> string list
   \<Rightarrow> chains" where
  "updated_chains same ipvs myIface nodeIPs tcps udps =
     (if kp_HAMode ipvs \<noteq> ActivePassiveHA
      then fold (vip_chains same (if_Name (fp_Net myIface)) nodeIPs tcps udps) (getVIPs ipvs) (\<lambda>_. ([], []))
      else (\<lambda>_. ([], [])))"

text \<open>The tables with chains that nothing jumps to; the empty ones are gone.\<close>

definition left_tables :: "tables \<Rightarrow> rule list \<Rightarrow> rule list \<Rightarrow> tables" where
  "left_tables T ms os = T
     ((tableMangle, iptablesChain) := if ms = [] then None else Some ms,
      (tableFilter, iptablesOutputChain) := if os = [] then None else Some os)"

lemma not_referenced:
  assumes "fresh_tables same T" "torn_tables T U" "U (t, c) = T (t, c)"
    and j: "(t, c, c0) = (tableMangle, ChainPrerouting, iptablesChain) \<or> (t, c, c0) = (tableFilter, ChainOutput, iptablesOutputChain)"
  shows "\<not> referenced U t c0"
proof
  assume "referenced U t c0"
  then obtain d rs r where r: "U (t, d) = Some rs" "r \<in> set rs" "rule_target r = Some c0"
    unfolding referenced_def by force
  show False
  proof (cases "own_chain (t, d)")
    case True
    then have "mark_rules rs" using assms(2) r(1) unfolding torn_tables_def by blast
    then have "c0 \<in> {''MARK'', ''DROP''}" using r(2,3) by (auto simp: mark_rules_def list_all_iff)
    then show False using j by (auto simp: iptablesChain_def iptablesOutputChain_def)
  next
    case False
    then have "U (t, d) = T (t, d)"
      using assms(2) [unfolded torn_tables_def, THEN conjunct1, rule_format, of "(t, d)"] assms(3) j by auto
    then have "referenced T t c0" using r unfolding referenced_def by force
    then show False using assms(1) j unfolding fresh_tables_def by auto
  qed
qed

lemma removal_effect:
  assumes fresh: "fresh_tables same T" and refl: "\<And>r. same r r" and ms: "mark_rules ms" "mark_rules os"
  shows "calls_effect same p (removal_calls p) (with_chains T ms os) = left_tables T ms os"
proof -
  let ?U0 = "with_chains T ms os"
  let ?U1 = "?U0((tableMangle, ChainPrerouting) := T (tableMangle, ChainPrerouting))"
  let ?U2 = "?U1((tableMangle, iptablesChain) := if ms = [] then None else Some ms)"
  let ?U3 = "?U2((tableFilter, ChainOutput) := T (tableFilter, ChainOutput))"
  note step = torn_race_call [OF fresh refl, THEN conjunct1]
  have t0: "torn_tables T ?U0" using ms by (intro serving_torn) (auto simp: serving_tables_def)
  have 1: "call_effect same (DeleteRuleCall tableMangle ChainPrerouting (jump_to iptablesChain)) ?U0 = ?U1"
    by (rule jump_removed [OF fresh refl t0]) simp
  have t1: "torn_tables T ?U1" using step [OF t0, of "DeleteRuleCall tableMangle ChainPrerouting (jump_to iptablesChain)"]
    by (simp add: 1 race_call_def del: call_effect.simps)
  have "\<not> referenced ?U1 tableMangle iptablesChain" by (rule not_referenced [OF fresh t1]) simp_all
  then have 2: "call_effect same (DeleteChainCall tableMangle iptablesChain) ?U1 = ?U2" by (auto simp: fun_eq_iff)
  have t2: "torn_tables T ?U2" using step [OF t1, of "DeleteChainCall tableMangle iptablesChain"]
    by (simp add: 2 race_call_def del: call_effect.simps)
  have 3: "call_effect same (DeleteRuleCall tableFilter ChainOutput (jump_to iptablesOutputChain)) ?U2 = ?U3"
    by (rule jump_removed [OF fresh refl t2]) simp
  have t3: "torn_tables T ?U3" using step [OF t2, of "DeleteRuleCall tableFilter ChainOutput (jump_to iptablesOutputChain)"]
    by (simp add: 3 race_call_def del: call_effect.simps)
  have "\<not> referenced ?U3 tableFilter iptablesOutputChain" by (rule not_referenced [OF fresh t3]) simp_all
  then have 4: "call_effect same (DeleteChainCall tableFilter iptablesOutputChain) ?U3 =
      ?U3((tableFilter, iptablesOutputChain) := if os = [] then None else Some os)" by (auto simp: fun_eq_iff)
  have "?U3((tableFilter, iptablesOutputChain) := if os = [] then None else Some os) = left_tables T ms os"
    by (auto simp: left_tables_def with_chains_def fun_eq_iff)
  then show ?thesis by (simp add: removal_calls_def 1 2 3 4 del: call_effect.simps)
qed

definition start_calls :: "protocol \<Rightarrow> (protocol \<times> ipt_call) list" where
  "start_calls p =
     [(p, EnsureChainCall tableMangle iptablesChain),
      (p, EnsureRuleCall Append tableMangle ChainPrerouting (jump_to iptablesChain)),
      (p, EnsureChainCall tableFilter iptablesOutputChain),
      (p, EnsureRuleCall Append tableFilter ChainOutput (jump_to iptablesOutputChain))]"

lemma start_effect:
  assumes "fresh_tables same T"
  shows "calls_effect same p (start_calls p) (left_tables T ms os) = with_chains T ms os"
proof -
  obtain rs qs where T: "T (tableMangle, ChainPrerouting) = Some rs" "\<not> has_rule same (jump_to iptablesChain) rs"
      "T (tableFilter, ChainOutput) = Some qs" "\<not> has_rule same (jump_to iptablesOutputChain) qs"
    using assms unfolding fresh_tables_def by blast
  let ?U1 = "(left_tables T ms os)((tableMangle, iptablesChain) \<mapsto> ms)"
  let ?U2 = "?U1((tableMangle, ChainPrerouting) \<mapsto> rs @ [jump_to iptablesChain])"
  let ?U3 = "?U2((tableFilter, iptablesOutputChain) \<mapsto> os)"
  let ?U4 = "?U3((tableFilter, ChainOutput) \<mapsto> qs @ [jump_to iptablesOutputChain])"
  have 1: "call_effect same (EnsureChainCall tableMangle iptablesChain) (left_tables T ms os) = ?U1"
    by (auto simp: left_tables_def fun_eq_iff)
  have 2: "call_effect same (EnsureRuleCall Append tableMangle ChainPrerouting (jump_to iptablesChain)) ?U1 = ?U2"
    using T by (simp add: left_tables_def target_ok_def jump_to_def add_rule_def)
  have 3: "call_effect same (EnsureChainCall tableFilter iptablesOutputChain) ?U2 = ?U3"
    by (auto simp: left_tables_def fun_eq_iff)
  have 4: "call_effect same (EnsureRuleCall Append tableFilter ChainOutput (jump_to iptablesOutputChain)) ?U3 = ?U4"
    using T by (simp add: left_tables_def target_ok_def jump_to_def add_rule_def)
  have "?U4 = with_chains T ms os" using T by (auto simp: left_tables_def with_chains_def fun_eq_iff)
  then show ?thesis by (simp add: start_calls_def 1 2 3 4 del: call_effect.simps)
qed

lemma calls_effect_other: "list_all (\<lambda>(q, c). q \<noteq> p) cs \<Longrightarrow> calls_effect same p cs T = T"
  by (induction cs) auto

lemma both_protocols:
  assumes "\<And>q. list_all (\<lambda>(p, c). p = q) (f q)"
  shows "calls_effect same p (f ProtocolIpv4 @ f ProtocolIpv6) T = calls_effect same p (f p) T"
proof -
  have other: "calls_effect same p (f q) U = U" if "p \<noteq> q" for q U
    using assms [of q] that by (intro calls_effect_other) (auto simp: list_all_iff)
  show ?thesis
    using other [of ProtocolIpv4] other [of ProtocolIpv6] by (cases p) (simp_all add: calls_effect_append)
qed

lemma both_blocks:
  "calls_effect same p (start_calls ProtocolIpv4 @ start_calls ProtocolIpv6) T = calls_effect same p (start_calls p) T"
  "calls_effect same p (removal_calls ProtocolIpv4 @ removal_calls ProtocolIpv6) T = calls_effect same p (removal_calls p) T"
  by (rule both_protocols, simp add: start_calls_def removal_calls_def)+

lemma flush_effect: "calls_effect same p flush_calls (with_chains T ms os) = with_chains T [] []"
  by (cases p) (simp_all add: flush_calls_def)

lemma fresh_left: "fresh_tables same T \<Longrightarrow> left_tables T [] [] = T"
  by (auto simp: fresh_tables_def left_tables_def fun_eq_iff)

lemma shuffles_middle: "xs @ zs @ ys \<in> shuffles (xs @ ys) zs"
proof (induction xs)
  case Nil
  show ?case by (induction zs) (simp_all add: Cons_in_shuffles_rightI)
qed (simp add: Cons_in_shuffles_leftI)

context iptables_tool
begin

lemma start_is_its_calls:
  "ensureChain (newRunner exec) w = (Inr (), snd (run_calls (newRunner exec) (start_calls ProtocolIpv4 @ start_calls ProtocolIpv6) w))"
proof -
  have chain: "fatal (ipt_EnsureChain (newRunner exec p) t c) w =
      (Inr (view p w (t, c) \<noteq> None), snd (ipt_do (newRunner exec p) (EnsureChainCall t c) w))" for p t c w
    using runner_ensure_chain [of p t c w] by (auto simp: fatal_def)
  have rule: "ignoreE (ipt_EnsureRule (newRunner exec p) ps t c r) w =
      (Inr (), snd (ipt_do (newRunner exec p) (EnsureRuleCall ps t c r) w))" for p ps t c r w
    by (auto simp: runner_EnsureRule_def checkRuleUsingCheck_def seqE_def ignoreE_def
        split: prod.splits sum.splits cmd_out.splits if_splits)
  show ?thesis
    by (simp add: ensureChain_def ensureChain_on_def start_calls_def jump_to_def [symmetric] seqE_def chain rule
        split: prod.split del: newRunner_simps ipt_do.simps)
qed

lemma serving_run:
  assumes "\<And>p. fresh_tables same (view p w0)" "ensureChain (newRunner exec) w0 = (Inr (), w1)"
    and "run_calls (newRunner exec) earlier w1 = (as, w)" "list_all (\<lambda>(p, c). own_call c) earlier"
  shows "serving_tables (view p w0) (view p w)"
proof -
  obtain bs where "run_calls (newRunner exec) (start_calls ProtocolIpv4 @ start_calls ProtocolIpv6) w0 = (bs, w1)"
    using assms(2) start_is_its_calls [of w0] by (metis prod.collapse prod.inject)
  from effect_calls [OF this, of p] have "view p w1 = calls_effect same p (start_calls p) (view p w0)"
    by (simp only: both_blocks)
  then have w1: "view p w1 = with_chains (view p w0) [] []"
    using start_effect [OF assms(1) [of p], of p "[]" "[]"] fresh_left [OF assms(1) [of p]] by simp
  from serving_own_calls [OF _ assms(4)] show ?thesis
    using effect_calls [OF assms(3), of p] w1 by (simp add: serving_tables_def) (metis mark_rules_simps(1))
qed

text \<open>Whatever the interleaving, and however far the update got, only chains that nothing jumps to are left.\<close>

lemma any_race:
  assumes fresh: "fresh_tables same (view p w0)" and serving: "serving_tables (view p w0) (view p w)"
    and zs: "zs \<in> shuffles stop_calls ups" "list_all (\<lambda>(p, c). own_call c) ups"
    and run: "run_calls (newRunner exec) zs w = (as, w')"
  shows "(\<forall>k. \<not> own_chain k \<longrightarrow> view p w' k = view p w0 k)
    \<and> \<not> referenced (view p w') tableMangle iptablesChain \<and> \<not> referenced (view p w') tableFilter iptablesOutputChain"
proof -
  have set_zs: "set zs = set stop_calls \<union> set ups" using zs(1) by (rule set_shuffles)
  have ok: "list_all (\<lambda>(p, c). race_call c) zs"
    using stop_race_calls zs(2) unfolding list_all_iff set_zs race_call_def by fast
  have rem: "set (removal_calls p) \<subseteq> set zs" using set_zs by (cases p) (auto simp: stop_calls_def)
  have end_view: "view p w' = calls_effect same p zs (view p w)" by (rule effect_calls [OF run])
  have others: "view p w' k = view p w0 k" if "\<not> own_chain k" for k
    unfolding end_view by (rule race_end [OF fresh same_refl serving_torn [OF serving] ok rem that])
  have torn: "torn_tables (view p w0) (view p w')"
    using torn_race [OF fresh same_refl serving_torn [OF serving] ok, of p] end_view by simp
  have "view p w' (tableMangle, ChainPrerouting) = view p w0 (tableMangle, ChainPrerouting)"
      "view p w' (tableFilter, ChainOutput) = view p w0 (tableFilter, ChainOutput)" by (rule others; simp)+
  from not_referenced [OF fresh torn this(1)] not_referenced [OF fresh torn this(2)] others show ?thesis by blast
qed

text \<open>The calls of \<open>Stop\<close> with a whole update after the flushes.\<close>

lemma late_update:
  assumes fresh: "\<And>p. fresh_tables same (view p w0)" and serving: "\<And>p. serving_tables (view p w0) (view p w)"
    and ips: "getIPs me nodes sels allNodeIPs (kp_Bind ipvs) None [] = Inr (Some myIface, nodeIPs)"
  shows "\<exists>w' w''. seqE (flushChain (newRunner exec)) (\<lambda>_.
          seqE (onUpdateIPtables (newRunner exec) me nodes ipvs sels allNodeIPs tcps udps) (\<lambda>_.
          forE [ProtocolIpv4, ProtocolIpv6] (\<lambda>p. deleteChain_on (newRunner exec p)))) w = (Inr (), w')
    \<and> (\<exists>as. \<exists>zs \<in> shuffles stop_calls (update_calls me nodes ipvs sels allNodeIPs tcps udps as).
          w' = snd (run_calls (newRunner exec) zs w))
    \<and> ensureChain (newRunner exec) w' = (Inr (), w'')
    \<and> (\<forall>p. view p w' = left_tables (view p w0)
          (fst (updated_chains same ipvs myIface nodeIPs tcps udps p)) (snd (updated_chains same ipvs myIface nodeIPs tcps udps p))
        \<and> view p w'' = with_chains (view p w0)
          (fst (updated_chains same ipvs myIface nodeIPs tcps udps p)) (snd (updated_chains same ipvs myIface nodeIPs tcps udps p)))"
proof -
  let ?rn = "newRunner exec" and ?ups = "update_calls me nodes ipvs sels allNodeIPs tcps udps"
  let ?V = "updated_chains same ipvs myIface nodeIPs tcps udps"
  obtain fs w1 where flush: "run_calls ?rn flush_calls w = (fs, w1)" by fastforce
  have v1: "views w1 p = with_chains (view p w0) [] []" for p
    using effect_calls [OF flush, of p] serving [of p] flush_effect
    by (auto simp: serving_tables_def views_def)
  have v1': "views w1 p = with_chains (view p w0) (fst (([], []) :: rule list \<times> rule list)) (snd (([], []) :: rule list \<times> rule list))" for p
    by (simp add: v1)
  have h1: "holds_chains (views w1) (\<lambda>_. ([], []))" by (rule with_chains_holds) (rule v1')
  from refines_onUpdate [OF ips, of tcps udps, unfolded refines_def, rule_format, OF h1]
  obtain r w2 where up: "onUpdateIPtables ?rn me nodes ipvs sels allNodeIPs tcps udps w1 = (Inr r, w2)"
      "holds_chains (views w2) ?V" "same_others (views w1) (views w2)"
    unfolding updated_chains_def by blast
  have v2: "views w2 p = with_chains (view p w0) (fst (?V p)) (snd (?V p))" for p
    by (rule holds_with_chains [where V = "\<lambda>_. ([], [])", OF _ up(3) up(2)]) (simp add: v1)
  obtain as where as: "run_calls ?rn (?ups as) w1 = (as, w2)" using update_is_its_calls [OF up(1)] by blast
  obtain bs w3 where rem: "run_calls ?rn (removal_calls ProtocolIpv4 @ removal_calls ProtocolIpv6) w2 = (bs, w3)" by fastforce
  have marks: "mark_rules (fst (?V p))" "mark_rules (snd (?V p))" for p
  proof -
    have "serving_tables (view p w0) (view p w2)"
    proof -
      have "serving_tables (view p w0) (view p w1)" using v1 [of p] by (auto simp: serving_tables_def views_def intro: mark_rules_simps(1))
      from serving_own_calls [OF this update_calls_own] show ?thesis using effect_calls [OF as, of p] by simp
    qed
    then show "mark_rules (fst (?V p))" "mark_rules (snd (?V p))"
      using v2 [of p] unfolding serving_tables_def views_def by (metis with_chains_upd(3,4) option.inject)+
  qed
  have v3: "view p w3 = left_tables (view p w0) (fst (?V p)) (snd (?V p))" for p
    using effect_calls [OF rem, of p] removal_effect [OF fresh same_refl marks, of p p] v2 [of p]
    by (simp add: views_def both_blocks)
  obtain w4 where start: "ensureChain ?rn w3 = (Inr (), w4)" using start_is_its_calls [of w3] by blast
  obtain cs where "run_calls ?rn (start_calls ProtocolIpv4 @ start_calls ProtocolIpv6) w3 = (cs, w4)"
    using start start_is_its_calls [of w3] by (metis prod.collapse prod.inject)
  from effect_calls [OF this] have v4: "view p w4 = with_chains (view p w0) (fst (?V p)) (snd (?V p))" for p
    using start_effect [OF fresh, of p p "fst (?V p)" "snd (?V p)"] v3 [of p] by (simp only: both_blocks)
  have all: "run_calls ?rn (flush_calls @ ?ups as @ removal_calls ProtocolIpv4 @ removal_calls ProtocolIpv6) w = (fs @ as @ bs, w3)"
    using flush as rem by (simp add: run_calls_append [of _ flush_calls] run_calls_append [of _ "?ups as"])
  have code: "flushChain ?rn w = (Inr (), w1)"
      "forE [ProtocolIpv4, ProtocolIpv6] (\<lambda>p. deleteChain_on (?rn p)) w2 = (Inr (), w3)"
    using flush rem by (simp_all only: stop_parts snd_conv)
  have "\<exists>zs \<in> shuffles stop_calls (?ups as). w3 = snd (run_calls ?rn zs w)"
    by (rule bexI [OF _ shuffles_middle [of flush_calls "?ups as" "removal_calls ProtocolIpv4 @ removal_calls ProtocolIpv6",
        folded stop_calls_def]]) (simp add: all)
  then show ?thesis
    by (intro exI [of _ w3] exI [of _ w4]) (use v3 v4 start code up(1) in \<open>auto simp: seqE_def simp del: forE.simps\<close>)
qed

end

section \<open>Properties\<close>

text \<open>
  C6: SIGTERM during an update of the chains. \<open>Stop\<close> does not wait for the worker, so the calls of the two
  goroutines interleave. Whatever the interleaving, however far the update gets and whatever it is
  answered, all tables but the provider's own two chains are as before the start, and nothing refers to
  these any more. But they may be left behind: when the update comes between the flushes and the removal,
  they keep all of its rules, and the next start puts these back into effect before any update.
\<close>

theorem stop_races_update:
  assumes "iptables_tool exec view same" "\<And>p. fresh_tables same (view p w0)"
    and "ensureChain (newRunner exec) w0 = (Inr (), w1)"
    and "run_calls (newRunner exec) earlier w1 = (as0, w)" "list_all (\<lambda>(p, c). own_call c) earlier"
    and "getIPs me nodes sels allNodeIPs (kp_Bind ipvs) None [] = Inr (Some myIface, nodeIPs)"
  shows "(\<forall>as ups zs as' w' p. prefix ups (update_calls me nodes ipvs sels allNodeIPs tcps udps as) \<longrightarrow>
      zs \<in> shuffles stop_calls ups \<longrightarrow> run_calls (newRunner exec) zs w = (as', w') \<longrightarrow>
        (\<forall>k. \<not> own_chain k \<longrightarrow> view p w' k = view p w0 k)
        \<and> \<not> referenced (view p w') tableMangle iptablesChain \<and> \<not> referenced (view p w') tableFilter iptablesOutputChain)
    \<and> (\<exists>w' w''. seqE (flushChain (newRunner exec)) (\<lambda>_.
          seqE (onUpdateIPtables (newRunner exec) me nodes ipvs sels allNodeIPs tcps udps) (\<lambda>_.
          forE [ProtocolIpv4, ProtocolIpv6] (\<lambda>p. deleteChain_on (newRunner exec p)))) w = (Inr (), w')
        \<and> (\<exists>as. \<exists>zs \<in> shuffles stop_calls (update_calls me nodes ipvs sels allNodeIPs tcps udps as).
              w' = snd (run_calls (newRunner exec) zs w))
        \<and> ensureChain (newRunner exec) w' = (Inr (), w'')
        \<and> (\<forall>p. view p w' = left_tables (view p w0)
              (fst (updated_chains same ipvs myIface nodeIPs tcps udps p)) (snd (updated_chains same ipvs myIface nodeIPs tcps udps p))
            \<and> view p w'' = with_chains (view p w0)
              (fst (updated_chains same ipvs myIface nodeIPs tcps udps p)) (snd (updated_chains same ipvs myIface nodeIPs tcps udps p))))"
proof -
  note serving = iptables_tool.serving_run [OF assms(1-5)]
  have own: "list_all (\<lambda>(p, c). own_call c) ups"
    if "prefix ups (update_calls me nodes ipvs sels allNodeIPs tcps udps as)" for ups as
    using that update_calls_own [of me nodes ipvs sels allNodeIPs tcps udps as] by (auto simp: prefix_def)
  show ?thesis
    using iptables_tool.any_race [OF assms(1,2) serving _ own] iptables_tool.late_update [OF assms(1,2) serving assms(6)]
    by blast
qed

definition empty_tables :: table_pair where
  "empty_tables = (\<lambda>_ k. if k \<in> {(tableMangle, ChainPrerouting), (tableFilter, ChainOutput)} then Some [] else None)"

lemma stop_races_update_witness:
  "\<exists>w1 w' w''. ensureChain (newRunner reference_exec) empty_tables = (Inr (), w1)
    \<and> seqE (flushChain (newRunner reference_exec)) (\<lambda>_.
        seqE (onUpdateIPtables (newRunner reference_exec) ''n1'' [''n1''] example_ipvs
          [(''n1'', example_selector)] [(''n1'', example_status)] [''80''] []) (\<lambda>_.
        forE [ProtocolIpv4, ProtocolIpv6] (\<lambda>p. deleteChain_on (newRunner reference_exec p)))) w1 = (Inr (), w')
    \<and> w' ProtocolIpv4 (tableFilter, ChainOutput) = Some []
    \<and> w' ProtocolIpv4 (tableFilter, iptablesOutputChain) =
        Some [output_drop_rule ''eth0'' ''10.0.0.9'' ''udp'', output_drop_rule ''eth0'' ''10.0.0.9'' ''tcp'']
    \<and> ensureChain (newRunner reference_exec) w' = (Inr (), w'')
    \<and> w'' ProtocolIpv4 (tableFilter, ChainOutput) = Some [jump_to iptablesOutputChain]"
proof -
  let ?iface = "\<lparr> fp_Net = example_iface, fp_preferredIP = ''10.0.0.1'' \<rparr>"
  have fresh: "fresh_tables (=) (empty_tables p)" for p
    by (auto simp: empty_tables_def fresh_tables_def has_rule_def referenced_def split: if_splits)
  obtain w1 where w1: "ensureChain (newRunner reference_exec) empty_tables = (Inr (), w1)"
    using ref_tool.start_is_its_calls by blast
  have vip: "parseIP ''10.0.0.9'' = Some (v4_prefix @ [10, 0, 0, 9])" by (simp add: ip_eval)
  have v4: "proto_of (parseIP ''10.0.0.9'') = ProtocolIpv4"
    unfolding vip by (simp add: proto_of_def getIPVersion_def ip_eval ipv4Version_def ipv6Version_def)
  have chains: "snd (updated_chains (=) example_ipvs ?iface [?iface] [''80''] [] ProtocolIpv4) =
      [output_drop_rule ''eth0'' ''10.0.0.9'' ''udp'', output_drop_rule ''eth0'' ''10.0.0.9'' ''tcp'']"
    using v4 by (simp add: updated_chains_def example_ipvs_def ActivePassiveHA_def getVIPs_def vip_chains_def vip
        set_output_def set_marks_def example_iface_def add_rule_def has_rule_def output_drop_rule_def)
  have none: "run_calls (newRunner reference_exec) [] w1 = ([], w1)" "list_all (\<lambda>(p, c). own_call c) []" by simp_all
  from stop_races_update [OF ref_tool.iptables_tool_axioms fresh w1 none example_getIPs, of "[''80'']" "[]", THEN conjunct2]
  obtain w' w'' where left: "seqE (flushChain (newRunner reference_exec)) (\<lambda>_.
        seqE (onUpdateIPtables (newRunner reference_exec) ''n1'' [''n1''] example_ipvs
          [(''n1'', example_selector)] [(''n1'', example_status)] [''80''] []) (\<lambda>_.
        forE [ProtocolIpv4, ProtocolIpv6] (\<lambda>p. deleteChain_on (newRunner reference_exec p)))) w1 = (Inr (), w')"
      "ensureChain (newRunner reference_exec) w' = (Inr (), w'')"
      "w' ProtocolIpv4 = left_tables (empty_tables ProtocolIpv4)
         (fst (updated_chains (=) example_ipvs ?iface [?iface] [''80''] [] ProtocolIpv4))
         (snd (updated_chains (=) example_ipvs ?iface [?iface] [''80''] [] ProtocolIpv4))"
      "w'' ProtocolIpv4 = with_chains (empty_tables ProtocolIpv4)
         (fst (updated_chains (=) example_ipvs ?iface [?iface] [''80''] [] ProtocolIpv4))
         (snd (updated_chains (=) example_ipvs ?iface [?iface] [''80''] [] ProtocolIpv4))"
    by blast
  have "w' ProtocolIpv4 (tableFilter, ChainOutput) = Some []"
      "w' ProtocolIpv4 (tableFilter, iptablesOutputChain) =
        Some [output_drop_rule ''eth0'' ''10.0.0.9'' ''udp'', output_drop_rule ''eth0'' ''10.0.0.9'' ''tcp'']"
      "w'' ProtocolIpv4 (tableFilter, ChainOutput) = Some [jump_to iptablesOutputChain]"
    unfolding left(3,4) chains by (simp_all add: left_tables_def with_chains_def empty_tables_def)
  with w1 left(1,2) show ?thesis by blast
qed

end
