(* ===== verification/IngressProcess.thy ===== *)
theory IngressProcess
  imports Commands
begin

text \<open>
  The process of the ingress sidecar (\<open>cmd/ingress\<close> with \<open>providers/ingress\<close>), with its two goroutines:
  the main one starts the controller, and with it changes the kernel settings one by one, while the one of
  the signal handler is installed before and may stop the controller at any point of that.
\<close>

section \<open>Steps\<close>

text \<open>Where the main goroutine is: in the loop of \<open>BulkModify\<close>, or past \<open>Start\<close> of the provider.\<close>

datatype start_pc = InBulk "sysctl_error bulk_pc" | Started

text \<open>
  \<open>adj\<close> is the map of adjustments in the order in which this run visits it; the remembered values are
  assigned to the provider only after \<open>BulkModify\<close> returned, and are a map, too.
\<close>

inductive sidecar_process :: "gomap \<Rightarrow> sidecar ctl \<Rightarrow> start_pc \<Rightarrow> sidecar ctl \<Rightarrow> bool" for adj s0 where
  side_begin: "sidecar_process adj s0 (InBulk (Ranging adj [])) s0"
| side_bulk: "sidecar_process adj s0 (InBulk c) s \<Longrightarrow>
    bulk_step GetSysctl SetSysctl (c, sc_host (ct_back s)) (c', h) \<Longrightarrow>
    sidecar_process adj s0 (InBulk c') (s\<lparr>ct_back := (ct_back s)\<lparr>sc_host := h\<rparr>\<rparr>)"
| side_assign: "sidecar_process adj s0 (InBulk (Returned orig e)) s \<Longrightarrow> mset defaults = mset orig \<Longrightarrow>
    sidecar_process adj s0 Started (s\<lparr>ct_back := (ct_back s)\<lparr>sc_sysctlDefault := defaults\<rparr>, ct_running := True\<rparr>)"
| side_work: "sidecar_process adj s0 pc s \<Longrightarrow> ctl_work sidecar_backend s s' \<Longrightarrow> sidecar_process adj s0 pc s'"

text \<open>A start that nothing interrupts is \<open>Start\<close> of the controller.\<close>

lemma bulk_process:
  assumes "(bulk_step GetSysctl SetSysctl)\<^sup>*\<^sup>* c0 c" "c0 = (c00, sc_host (ct_back s))" "sidecar_process adj s0 (InBulk c00) s"
  shows "sidecar_process adj s0 (InBulk (fst c)) (s\<lparr>ct_back := (ct_back s)\<lparr>sc_host := snd c\<rparr>\<rparr>)"
  using assms(1)
proof (induction rule: rtranclp_induct)
  case base
  then show ?case using assms(2,3) by simp
next
  case (step c1 c2)
  obtain a1 h1 a2 h2 where c: "c1 = (a1, h1)" "c2 = (a2, h2)" by (cases c1, cases c2)
  have "bulk_step GetSysctl SetSysctl (a1, sc_host (ct_back (s\<lparr>ct_back := (ct_back s)\<lparr>sc_host := h1\<rparr>\<rparr>))) (a2, h2)"
    using step.hyps(2) c by simp
  from side_bulk [OF step.IH [unfolded c fst_conv snd_conv] this] show ?case by (simp add: c)
qed

lemma start_is_process:
  assumes "Start sidecar_backend s0 = (Inr (), s)"
  shows "sidecar_process sidecar_adjustments s0 Started s"
proof -
  obtain orig e h where b: "BulkModify sidecar_adjustments (sc_host (ct_back s0)) = ((orig, e), h)"
    by (metis prod.collapse)
  have s: "s = s0\<lparr>ct_back := (ct_back s0)\<lparr>sc_sysctlDefault := orig, sc_host := h\<rparr>, ct_running := True\<rparr>"
    using assms b
    by (auto simp: Start_def seqE_def with_backend_def sidecar_backend_def sidecar_Start_def sidecar_changeSysctl_def
        sidecar_WaitForStart_def)
  have "(bulk_step GetSysctl SetSysctl)\<^sup>*\<^sup>* (Ranging sidecar_adjustments [], sc_host (ct_back s0)) (Returned orig e, h)"
    using b by (simp add: bulk_steps_iff BulkModify_def)
  from bulk_process [OF this refl side_begin]
  have "sidecar_process sidecar_adjustments s0 (InBulk (Returned orig e)) (s0\<lparr>ct_back := (ct_back s0)\<lparr>sc_host := h\<rparr>\<rparr>)"
    by simp
  from side_assign [OF this refl]
  have "sidecar_process sidecar_adjustments s0 Started
      (s0\<lparr>ct_back := (ct_back s0)\<lparr>sc_host := h, sc_sysctlDefault := orig\<rparr>, ct_running := True\<rparr>)" by simp
  moreover have "(ct_back s0)\<lparr>sc_sysctlDefault := orig, sc_host := h\<rparr> = (ct_back s0)\<lparr>sc_host := h, sc_sysctlDefault := orig\<rparr>"
    by simp
  ultimately show ?thesis unfolding s by (simp only:)
qed

section \<open>Invariant\<close>

lemma sidecar_sync: "syncLoadBalancer sidecar_backend k s = (r, s') \<Longrightarrow> ct_back s' = ct_back s"
  by (auto simp: syncLoadBalancer_def with_backend_def sidecar_backend_def sidecar_OnUpdate_def
      split: sum.splits prod.splits go_error.splits option.splits)

lemma sidecar_work: "ctl_work sidecar_backend s s' \<Longrightarrow> ct_back s' = ct_back s"
  by (induction rule: ctl_work.induct)
    (auto simp: addLoadBalancer_def updateLoadBalancer_def deleteLoadBalancer_def updateConfigMap_def
      enqueue_lb_def dest: sidecar_sync split: option.split)

text \<open>What the provider is while the settings are changed, and after.\<close>

definition sidecar_state :: "gomap \<Rightarrow> host \<Rightarrow> start_pc \<Rightarrow> sidecar \<Rightarrow> bool" where
  "sidecar_state adj h0 pc p =
     (case pc of
        InBulk c \<Rightarrow> sc_sysctlDefault p = []
          \<and> (bulk_step GetSysctl SetSysctl)\<^sup>*\<^sup>* (Ranging adj [], h0) (c, sc_host p)
      | Started \<Rightarrow> (\<exists>orig e. bulk_loop GetSysctl SetSysctl adj [] h0 = ((orig, e), sc_host p)
          \<and> mset (sc_sysctlDefault p) = mset orig))"

lemma sidecar_process_state:
  assumes "ct_back s0 = NewIngressSidecar h0"
  shows "sidecar_process adj s0 pc s \<Longrightarrow> sidecar_state adj h0 pc (ct_back s)"
proof (induction rule: sidecar_process.induct)
  case side_begin
  then show ?case by (simp add: sidecar_state_def assms NewIngressSidecar_def)
next
  case (side_bulk c s c' h)
  then show ?case by (auto simp: sidecar_state_def intro: rtranclp.rtrancl_into_rtrancl)
next
  case (side_assign orig e s defaults)
  then show ?case by (auto simp: sidecar_state_def bulk_steps_iff)
next
  case (side_work pc s s')
  then show ?case by (simp add: sidecar_work)
qed

lemma sidecar_process_open:
  "sidecar_process adj s0 pc s \<Longrightarrow> \<not> ct_shutdown s0 \<Longrightarrow> \<not> ct_stopClosed s0 \<Longrightarrow> \<not> ct_shutdown s \<and> \<not> ct_stopClosed s"
  by (induction rule: sidecar_process.induct) (auto dest: work_frame)

section \<open>SIGTERM\<close>

text \<open>The handler stops the provider with the values it has and exits with 0, whatever the main goroutine does.\<close>

lemma sidecar_sigterm:
  assumes "\<not> ct_shutdown s" "\<not> ct_stopClosed s" "handleSigterm sidecar_backend s = (r, s')"
  shows "r = Inr 0 \<and> wq_shuttingDown (rl_q (ct_queue s'))
    \<and> sc_host (ct_back s') = snd (BulkModify (sc_sysctlDefault (ct_back s)) (sc_host (ct_back s)))"
proof -
  have "be_Stop sidecar_backend (ct_lister s) (ct_back s, ct_heap s) =
      (Inr (), (snd (sidecar_resetSysctl (ct_back s)), ct_heap s))"
    by (simp add: sidecar_backend_def sidecar_Stop_def)
  from handleSigterm_run [OF assms(1,2) this assms(3)] show ?thesis
    by (simp add: sidecar_resetSysctl_def split: prod.splits)
qed

lemma adjustments_perm:
  assumes "mset adj = mset sidecar_adjustments"
  shows "set adj = set sidecar_adjustments" "distinct (map (\<lambda>p. sysctlPath (fst p)) adj)"
  using mset_eq_setD [OF assms] sidecar_distinct distinct_map_mset [OF assms] by auto

lemma sidecar_reset_restores:
  assumes "mset adj = mset sidecar_adjustments" "sidecar_state adj h Started p"
  shows "fst (sidecar_resetSysctl p) = None \<Longrightarrow> GetSysctl (sc_host (snd (sidecar_resetSysctl p))) k = GetSysctl h k"
    and "\<forall>k \<in> fst ` set sidecar_adjustments. sysctl_ready h (sysctlPath k) \<Longrightarrow> fst (sidecar_resetSysctl p) = None"
proof -
  obtain orig e where b: "bulk_loop GetSysctl SetSysctl adj [] h = ((orig, e), sc_host p)"
      "mset (sc_sysctlDefault p) = mset orig"
    using assms(2) by (auto simp: sidecar_state_def)
  obtain o2 e2 h2 where r: "bulk_loop GetSysctl SetSysctl (sc_sysctlDefault p) [] (sc_host p) = ((o2, e2), h2)"
    by (metis prod.collapse)
  have reset: "sidecar_resetSysctl p = (e2, p\<lparr>sc_host := h2\<rparr>)"
    using r by (simp add: sidecar_resetSysctl_def BulkModify_def)
  show "fst (sidecar_resetSysctl p) = None \<Longrightarrow> GetSysctl (sc_host (snd (sidecar_resetSysctl p))) k = GetSysctl h k"
    using proc.bulk_restore [OF b(1) adjustments_perm(2) [OF assms(1)] b(2)] r by (simp add: reset)
  assume ready: "\<forall>k \<in> fst ` set sidecar_adjustments. sysctl_ready h (sysctlPath k)"
  have keys: "fst ` set orig \<subseteq> fst ` set sidecar_adjustments"
  proof
    fix k assume "k \<in> fst ` set orig"
    then obtain v where "map_of orig k = Some v" by (metis map_of_eq_None_iff not_None_eq)
    then show "k \<in> fst ` set sidecar_adjustments"
      using proc.bulk_orig [OF b(1) adjustments_perm(2) [OF assms(1)], THEN conjunct2, THEN conjunct1]
        adjustments_perm(1) [OF assms(1)] by simp
  qed
  have "sysctl_ready (sc_host p) (sysctlPath k)" if "k \<in> fst ` set (sc_sysctlDefault p)" for k
  proof -
    have "k \<in> fst ` set sidecar_adjustments" using that keys mset_eq_setD [OF b(2)] by auto
    then show ?thesis using ready proc.bulk_keeps_ready [OF b(1)] by blast
  qed
  then show "fst (sidecar_resetSysctl p) = None"
    using proc.bulk_ready [of "sc_sysctlDefault p" "sc_host p" "[]"] r by (simp add: reset)
qed

text \<open>Any part of the adjustments can be what is written when the signal comes.\<close>

lemma torn_start:
  assumes "ct_back s0 = NewIngressSidecar h" "\<forall>k \<in> fst ` set (pre @ post). sysctl_ready h (sysctlPath k)"
    and "distinct (map (\<lambda>p. sysctlPath (fst p)) (pre @ post))"
  shows "\<exists>orig s. sidecar_process (pre @ post) s0 (InBulk (Ranging post orig)) s
    \<and> (\<forall>(k, v) \<in> set pre. GetSysctl (sc_host (ct_back s)) k = Inr (trim_space v))
    \<and> (\<forall>(k, v) \<in> set post. GetSysctl (sc_host (ct_back s)) k = GetSysctl h k)
    \<and> ct_shutdown s = ct_shutdown s0 \<and> ct_stopClosed s = ct_stopClosed s0"
proof -
  have "sc_host (ct_back s0) = h" using assms(1) by (simp add: NewIngressSidecar_def)
  moreover obtain orig h' where b: "(bulk_step GetSysctl SetSysctl)\<^sup>*\<^sup>* (Ranging (pre @ post) [], h) (Ranging post orig, h')"
      "bulk_loop GetSysctl SetSysctl pre [] h = ((orig, None), h')"
    using proc.bulk_passes [of pre h post "[]"] assms(2) by auto
  ultimately have p: "sidecar_process (pre @ post) s0 (InBulk (Ranging post orig)) (s0\<lparr>ct_back := (ct_back s0)\<lparr>sc_host := h'\<rparr>\<rparr>)"
    using bulk_process [OF b(1) _ side_begin] by simp
  have "GetSysctl h' k = Inr (trim_space v)" if "(k, v) \<in> set pre" for k v
    using proc.bulk_set_all [OF b(2)] assms(3) that by simp
  moreover have "GetSysctl h' k = GetSysctl h k" if "(k, v) \<in> set post" for k v
  proof (rule proc.bulk_other [OF b(2)])
    have "(\<lambda>p. sysctlPath (fst p)) ` set pre \<inter> (\<lambda>p. sysctlPath (fst p)) ` set post = {}" using assms(3) by simp
    moreover have "sysctlPath k \<in> (\<lambda>p. sysctlPath (fst p)) ` set post" using that by force
    moreover have "(\<lambda>p. sysctlPath (fst p)) ` set pre = sysctlPath ` fst ` set pre" by (simp add: image_image)
    ultimately show "sysctlPath k \<notin> sysctlPath ` fst ` set pre" by blast
  qed
  ultimately show ?thesis using p
    by (intro exI [of _ orig] exI [of _ "s0\<lparr>ct_back := (ct_back s0)\<lparr>sc_host := h'\<rparr>\<rparr>"]) auto
qed

lemma sidecar_RunD:
  "sidecar_Run m opts = Inr s0 \<Longrightarrow> ct_back s0 = NewIngressSidecar (mc_host m) \<and> \<not> ct_shutdown s0 \<and> \<not> ct_stopClosed s0"
  by (auto simp: sidecar_Run_def NewLoadBalancerProvider_def split: sum.splits)

section \<open>Properties\<close>



end
