(* ===== verification/Spec2Isabelle.thy ===== *)
theory Spec2Isabelle
  imports CoreProperties Ipvsdr IngressSidecar AzureProperties AzureListing IpvsdrService DelayingQueue IptablesMonitor
    ChainRaces IngressProcess
begin

text \<open>
  A model of the load balancer provider, a set of Kubernetes controllers written in Go. Each program
  under \<open>src/cmd\<close> watches one LoadBalancer resource and drives one provider: \<open>ipvsdr\<close> makes the node
  it runs on a director of a Linux virtual server (iptables marks and keepalived), \<open>ingress\<close> adjusts
  kernel settings next to an ingress controller, and \<open>azure\<close> keeps a load balancer, its rules, its
  backend pool and the security groups behind it in Azure.

  \<^bold>\<open>How the parts interact.\<close> A command reads its options, fetches the resource, builds its provider
  and the generic controller, starts it and waits for SIGTERM (\<open>Commands\<close>). Event handlers of the
  controller put the resource's key into a rate limited queue (\<open>WorkQueue\<close>, with its clock and its
  heap of waiting entries \<open>DelayingQueue\<close> and \<open>WaitHeap\<close>); one worker takes a key, looks the
  resource up in the informers' stores (\<open>ObjHeap\<close>), validates it (\<open>LBTypes\<close>, \<open>LBValidate\<close>) and calls
  \<open>OnUpdate\<close> of the provider (\<open>Controller\<close>). The ipvs-dr provider (\<open>Ipvsdr\<close>) publishes this node's
  addresses in the resource's status (\<open>NodeNetwork\<close>), fills its iptables chains (\<open>IpvsdrTables\<close> over
  \<open>Iptables\<close>), writes keepalived's configuration and reloads it (\<open>KeepalivedConf\<close>), and keeps
  keepalived alive (\<open>Execd\<close>); at start and stop it changes and restores kernel settings (\<open>Sysctl\<close>),
  as the sidecar does (\<open>IngressSidecar\<close>). The Azure provider (\<open>AzureProvider\<close>) compares the resource
  and its config maps with what it last applied and calls the sync of the load balancer
  (\<open>AzureDefaults\<close>), of its rules (\<open>AzureRules\<close>), of the network interfaces (\<open>AzureIds\<close>,
  \<open>AzureNics\<close>) and of the security groups (\<open>AzureSecurity\<close>), all over one client (\<open>AzureClient\<close>).

  \<^bold>\<open>Theories and sources.\<close> The names of definitions are those of the Go functions, with a prefix
  where two packages share a name; parts of a long function that are definitions of their own are
  named after what they do.
  \<^item> \<open>GoPrelude\<close>, \<open>GoStrings\<close>, \<open>GoNet\<close>, \<open>Errors\<close>: slices, maps, statements that fail, the packages
    \<open>strings\<close>, \<open>strconv\<close> and \<open>net\<close>, and the error values. \<open>seqE\<close> is a statement followed by \<open>if err
    != nil { return err }\<close>; what was written before an error stays written.
  \<^item> \<open>WorkQueue\<close>, \<open>WaitHeap\<close>, \<open>DelayingQueue\<close>: client-go's \<open>workqueue\<close>, and \<open>syncqueue\<close>.
    \<open>Controller\<close>, \<open>Ports\<close>, \<open>ObjHeap\<close>: \<open>core/provider\<close>. \<open>Sysctl\<close>: \<open>core/pkg/sysctl\<close>. \<open>LBTypes\<close>,
    \<open>LBValidate\<close>: the API package \<open>loadbalance/v1alpha2\<close>.
  \<^item> \<open>NodeNetwork\<close>: \<open>providers/ipvsdr/nodenetwork.go\<close> and \<open>util.go\<close>. \<open>Iptables\<close>, \<open>IptablesRunner\<close>:
    Kubernetes's package \<open>util/iptables\<close>, \<open>IptablesMonitor\<close> what of it nothing calls. \<open>IpvsdrTables\<close>, \<open>KeepalivedConf\<close>, \<open>Ipvsdr\<close>: \<open>ipvsdr.go\<close>
    and \<open>keepalived.go\<close>. \<open>Execd\<close>: \<open>pkg/execd\<close>. \<open>IngressSidecar\<close>: \<open>providers/ingress\<close>.
  \<^item> \<open>AzureClient\<close>, \<open>AzureListing\<close>: \<open>providers/azure/client\<close>. \<open>AzureIds\<close>, \<open>AzureRules\<close>: \<open>utils.go\<close>.
    \<open>AzureSecurity\<close>, \<open>AzureNics\<close>, \<open>AzureDefaults\<close>: \<open>loadbalancer.go\<close>. \<open>AzureSync\<close>: what these leave
    in Azure together. \<open>AzureProvider\<close>: \<open>azure.go\<close>. \<open>AzureProperties\<close>: what a whole \<open>OnUpdate\<close> does.
  \<^item> \<open>Commands\<close>: \<open>cmd\<close>, \<open>core/options\<close>, \<open>core/util\<close>, \<open>core/pkg/node\<close>, \<open>pkg/version\<close>, and a whole
    process; \<open>IpvsdrService\<close>: the ipvs-dr process from a key to the host. \<open>CoreProperties\<close>: the
    properties of the shared parts.
  \<^item> Goroutines that meet: \<open>ChainRaces\<close>, where \<open>Stop\<close> and an update call iptables at the same time, and
    \<open>IngressProcess\<close>, where SIGTERM comes while the settings are changed.

  \<^bold>\<open>Interfaces.\<close> \<open>work_queue\<close> is what the controller relies on of its queue, \<open>waiting_entries\<close> what
  the delaying queue relies on of its heap; \<open>provider_worker\<close> and \<open>provider_backend\<close> are what a
  provider promises to the controller that runs it (all three providers are interpretations),
  \<open>provider_total\<close> that its updates never panic (the ipvs-dr provider is one), \<open>sysctl_api\<close> what
  bulk changes rely on, \<open>iptables_tool\<close> what is documented of the command iptables and
  \<open>iptables_api\<close> what the Go runner makes of it. Azure is a world that the calls of its SDK act on,
  of an arbitrary type; \<open>nic_service\<close>, \<open>sg_service\<close> and \<open>lb_service\<close> state that a service stores
  what it is sent and answers what it stores. A reference service and a reference iptables show that
  the laws can hold, and the witnesses run on them.

  \<^bold>\<open>What the theorems show.\<close> Invariants hold in every state the controller reaches, whatever the
  informers deliver and the API server, Azure and the host answer (each call has an environment of
  its own): the queue, the pointers the providers keep, the published status, the single keepalived
  process. The functional theorems say what one sync achieves: how packets are marked, which router
  ids and priorities keepalived gets, which rules, security rules and pool members Azure has
  afterwards, and that a second sync finds nothing to do; the refinements carry this from a key in
  the queue to the host, and from the queue with a clock to the one without. The round trips are
  start and stop of the providers and of the whole process, and what is left where these meet other
  goroutines: for an update of the chains all interleavings of calls, for the start of the sidecar
  every point of the loop over the settings. The error theorems pin down where the
  code does not recover: failures that are not retried, panics, differences that never settle. Where
  an operation only succeeds under conditions, the theorem that it succeeds has them as hypotheses,
  and its witness meets them.

  \<^bold>\<open>Loops and bounds.\<close> All loops over lists are structural recursion. Free priorities are searched
  from 1000 to 4096 in steps of 10 with a termination proof. A failing key is retried \<open>maxRetries\<close>
  times, a daemon's start \<open>crashBackoff\<close> times. \<open>wait.Poll\<close> tries as often as its environment says
  (\<open>ze_polls\<close>: every five seconds in one minute, 12 times). Listing the pages of Azure is the only
  loop that may run for ever; it is a partial function, where no result means no return.
  \<open>waitingLoop\<close> is meant to run for ever: each of its statements is a step. Ports and addresses are
  words of their width, other Go integers are HOL integers that the code keeps far from 64 bits
  (\<open>Atoi\<close> clamps at them).

  \<^bold>\<open>Conventions.\<close> A pointer is an option, except for LoadBalancer objects, which several parts
  share: they are addresses into a heap. A slice may be nil where the code can tell. A map is an
  association list in the order in which \<open>range\<close> visits it in that run; where the code builds the
  map itself, the order is an argument (\<open>range_order\<close>), and the theorems hold for every order. A
  panic is an error value that no caller handles. The goroutine of \<open>keepalived.Start\<close> is run at the
  start; one round of the keepalive goroutine is one step, and so is a whole sync or \<open>Stop\<close>, but where
  \<open>ChainRaces\<close> and \<open>IngressProcess\<close> take them apart. Objects of \<open>properties\<close> that Azure always
  sends are taken to be there, but for frontends, where the code tests it. \<open>isEqual\<close>, which compares
  JSON texts, is equality of the fields. Case folding, \<open>%q\<close> and the class \<open>\W\<close> are those of ASCII.

  \<^bold>\<open>Not modelled.\<close> Logging, metrics and the texts of some errors. What an iptables without \<open>--check\<close>
  does to the tables (the theorems about them are for one that has it). What happens when \<open>Stop\<close>
  and an update meet in keepalived's daemon or in Azure. The token bucket of the queue's rate
  limiter (its answer is an argument) and the delays between the tries of \<open>wait.Poll\<close>. The
  controller runs on the queue without a clock, where the time is a step of the environment; the
  refinement in \<open>DelayingQueue\<close> shows that the one with a clock does nothing more. Rendering
  keepalived's template, hashing a file and the JSON texts of patches beyond the fields the code
  puts in (rendering and hashing are parameters). \<open>reportError\<close> of the daemon and the printing of
  versions. The parsing of a command line (its outcome is an argument). The common parts of the three
  \<open>Run\<close> are the same code and modelled once. Vendored libraries are parameters, but for the parts named above.
\<close>

end
